(* ===== verification/Prelude.thy ===== *)
theory Prelude
  imports Main "HOL-Library.Word"
begin

text \<open>
  Shared vocabulary of the development: the machine types of the Rust sources, the
  \<open>Result\<close> combinators the code threads its errors with, the library calls on slices and
  strings that several crates use, and the generic lemmas about them.

  \<^item> \<open>Result<T, E>\<close> is the sum \<open>'e + 't\<close>, \<open>Inl\<close> being \<open>Err\<close>.  The \<open>?\<close> operator is
    \<open>and_then\<close> (with \<open>map_err\<close> where \<open>From\<close> converts the error).
  \<^item> \<open>u8\<close>, \<open>u16\<close> and \<open>u64\<close> are words of that width; \<open>usize\<close> is \<open>nat\<close>, with the bounds of a
    64-bit target written out where the code checks them.
  \<^item> \<open>str\<close> is the list of its UTF-8 bytes, which is how Rust represents it.
\<close>

unbundle bit_operations_syntax

section \<open>Machine types\<close>

type_synonym u8 = "8 word"
type_synonym u16 = "16 word"
type_synonym u64 = "64 word"
type_synonym bytes = "u8 list"
type_synonym str = "u8 list"

text \<open>A string literal of the source, as its bytes.\<close>

definition lit :: "string \<Rightarrow> str" where
  "lit s = map (\<lambda>c. of_nat (of_char c)) s"

lemma lit_Nil [simp]: "lit [] = []"
  and lit_Cons [simp]: "lit (c # cs) = of_nat (of_char c) # lit cs"
  by (simp_all add: lit_def)

text \<open>The longest \<open>Vec<u8>\<close> or slice: Rust bounds every allocation by \<open>isize::MAX\<close>.\<close>

definition vec_limit :: nat where
  "vec_limit = 2 ^ 63"

definition usize_max :: nat where
  "usize_max = 2 ^ 64 - 1"

section \<open>Results\<close>

named_theorems result_simps \<open>rewriting of \<open>Result\<close> pipelines that succeed\<close>

fun and_then :: "'e + 'a \<Rightarrow> ('a \<Rightarrow> 'e + 'b) \<Rightarrow> 'e + 'b" where
  "and_then (Inl e) f = Inl e"
| "and_then (Inr x) f = f x"

fun map_err :: "('e \<Rightarrow> 'f) \<Rightarrow> 'e + 'a \<Rightarrow> 'f + 'a" where
  "map_err f (Inl e) = Inl (f e)"
| "map_err f (Inr x) = Inr x"

fun ok_or :: "'e \<Rightarrow> 'a option \<Rightarrow> 'e + 'a" where
  "ok_or e None = Inl e"
| "ok_or e (Some x) = Inr x"

text \<open>\<open>Option<Result<T, E>>::transpose\<close> after \<open>Option::map\<close>.\<close>

fun map_transpose :: "('a \<Rightarrow> 'e + 'b) \<Rightarrow> 'a option \<Rightarrow> 'e + 'b option" where
  "map_transpose f None = Inr None"
| "map_transpose f (Some x) = and_then (f x) (\<lambda>y. Inr (Some y))"

text \<open>The items of \<open>Option::iter\<close>.\<close>

definition list_of_option :: "'a option \<Rightarrow> 'a list" where
  "list_of_option v = (case v of None \<Rightarrow> [] | Some x \<Rightarrow> [x])"

text \<open>A loop that stops at the first error, or \<open>collect::<Result<Vec<_>, _>>()\<close>.\<close>

fun try_map :: "('a \<Rightarrow> 'e + 'b) \<Rightarrow> 'a list \<Rightarrow> 'e + 'b list" where
  "try_map f [] = Inr []"
| "try_map f (x # xs) = and_then (f x) (\<lambda>y. and_then (try_map f xs) (\<lambda>ys. Inr (y # ys)))"

lemma and_then_cong [fundef_cong]:
  assumes "m = m'" and "\<And>x. m' = Inr x \<Longrightarrow> f x = g x"
  shows "and_then m f = and_then m' g"
  using assms by (cases m') auto

lemma and_then_eq_Inr [result_simps]:
  "and_then m f = Inr y \<longleftrightarrow> (\<exists>x. m = Inr x \<and> f x = Inr y)"
  by (cases m) auto

lemma and_then_eq_Inl:
  "and_then m f = Inl e \<longleftrightarrow> m = Inl e \<or> (\<exists>x. m = Inr x \<and> f x = Inl e)"
  by (cases m) auto

lemma map_err_eq_Inr [result_simps]: "map_err f m = Inr y \<longleftrightarrow> m = Inr y"
  by (cases m) auto

lemma map_err_eq_Inl: "map_err f m = Inl e \<longleftrightarrow> (\<exists>e'. m = Inl e' \<and> e = f e')"
  by (cases m) auto

lemma ok_or_eq_Inr [result_simps]: "ok_or e m = Inr y \<longleftrightarrow> m = Some y"
  by (cases m) auto

lemma ok_or_eq_Inl: "ok_or e m = Inl e' \<longleftrightarrow> m = None \<and> e' = e"
  by (cases m) auto

lemma and_then_assoc: "and_then (and_then m f) g = and_then m (\<lambda>x. and_then (f x) g)"
  by (cases m) auto

lemma map_transpose_eq_Inr [result_simps]:
  "map_transpose f m = Inr y \<longleftrightarrow>
     (case m of None \<Rightarrow> y = None | Some x \<Rightarrow> \<exists>z. f x = Inr z \<and> y = Some z)"
  by (cases m) (auto simp: and_then_eq_Inr)

lemma not_isl: "\<not> isl m \<Longrightarrow> \<exists>x. m = Inr x"
  by (cases m) auto

lemma try_map_eq_Inr:
  "try_map f xs = Inr ys \<longleftrightarrow> list_all2 (\<lambda>x y. f x = Inr y) xs ys"
  by (induction xs arbitrary: ys) (auto simp: and_then_eq_Inr list_all2_Cons1)

lemma try_map_all_Inr: "(\<And>x. x \<in> set xs \<Longrightarrow> f x = Inr (g x)) \<Longrightarrow> try_map f xs = Inr (map g xs)"
  by (induction xs) auto

lemma try_map_list_all:
  "try_map f xs = Inr ys \<Longrightarrow> (\<And>x y. x \<in> set xs \<Longrightarrow> f x = Inr y \<Longrightarrow> P y) \<Longrightarrow> list_all P ys"
proof (induction xs arbitrary: ys)
  case (Cons x xs)
  then obtain y ys' where "f x = Inr y" "try_map f xs = Inr ys'" "ys = y # ys'"
    by (auto simp: and_then_eq_Inr)
  with Cons.prems(2) Cons.IH [of ys'] show ?case by (metis list.set_intros list.pred_inject(2))
qed simp

lemma try_map_length: "try_map f xs = Inr ys \<Longrightarrow> length ys = length xs"
  by (induction xs arbitrary: ys) (auto simp: and_then_eq_Inr)

section \<open>Bits of words\<close>

named_theorems word_nat \<open>word operations of the codecs read as arithmetic on \<open>unat\<close>\<close>

lemma u8_less [simp]: "unat (b :: u8) < 256"
  using unsigned_less [where 'a = nat, of b] by simp

lemma u16_less [simp]: "unat (v :: u16) < 65536"
  using unsigned_less [where 'a = nat, of v] by simp

lemma u64_less [simp]: "unat (v :: u64) < 18446744073709551616"
  using unsigned_less [where 'a = nat, of v] by simp

lemma u64_pos: "0 < unat (v :: u64) \<longleftrightarrow> v \<noteq> 0"
  by (metis gr0I less_irrefl_nat unat_eq_zero)

lemma u64_Suc: "(v :: u64) \<noteq> - 1 \<Longrightarrow> v < v + 1"
proof -
  assume "v \<noteq> - 1"
  then have "unat v \<noteq> unat (- 1 :: u64)" by (simp only: word_unat_eq_iff not_False_eq_True)
  then have "unat v < 2 ^ 64 - 1" using u64_less [of v] by (simp add: unsigned_minus_1_eq_mask mask_eq_exp_minus_1 del: u64_less)
  then show ?thesis by (simp add: word_less_nat_alt unat_word_ariths)
qed

lemma nat_and_7f: "(n :: nat) AND 127 = n mod 128"
proof -
  have "n AND mask 7 = take_bit 7 n" by (simp add: take_bit_eq_mask)
  moreover have "(mask 7 :: nat) = 127" by (simp add: mask_eq_exp_minus_1)
  ultimately show ?thesis by (simp add: take_bit_eq_mod)
qed

lemma unat_u8_and_7f [word_nat]: "unat ((b :: u8) AND 0x7f) = unat b mod 128"
  by (simp add: unsigned_and_eq nat_and_7f)

lemma unat_u64_and_7f [word_nat]: "unat ((v :: u64) AND 0x7f) = unat v mod 128"
  by (simp add: unsigned_and_eq nat_and_7f)

lemma unat_u64_drop_7 [word_nat]: "unat (drop_bit 7 (v :: u64)) = unat v div 128"
proof -
  have "unat (drop_bit 7 v) = unat (v div 2 ^ 7)" by (simp only: drop_bit_eq_div)
  also have "\<dots> = unat v div unat (2 ^ 7 :: u64)" by (rule unat_div_distrib)
  finally show ?thesis by simp
qed

lemma u8_and_80 [word_nat]: "((b :: u8) AND 0x80 = 0) \<longleftrightarrow> unat b < 128"
proof -
  have "(b AND 2 ^ 7 = 0) \<longleftrightarrow> \<not> bit b 7" by (rule and_exp_eq_0_iff_not_bit)
  also have "\<dots> \<longleftrightarrow> \<not> bit (unat b) 7" by (simp add: bit_unsigned_iff)
  also have "\<dots> \<longleftrightarrow> unat b < 128" 
  proof -
    have "unat b div 2 ^ 7 < 2" using u8_less [of b] by (simp del: u8_less)
    then have "odd (unat b div 2 ^ 7) \<longleftrightarrow> unat b div 2 ^ 7 \<noteq> 0"
      by (auto simp: less_2_cases_iff)
    then show ?thesis by (simp add: bit_nat_def div_eq_0_iff)
  qed
  finally show ?thesis by simp
qed

lemma unat_u8_or_80 [word_nat]: "unat (b :: u8) < 128 \<Longrightarrow> unat (b OR 0x80) = unat b + 128"
proof -
  assume b: "unat b < 128"
  then have "b + 0x80 = b OR 0x80" by (intro disjunctive_add_eq_or) (simp add: u8_and_80)
  moreover have "unat (b + 0x80) = unat b + 128" using b by (simp add: unat_word_ariths)
  ultimately show ?thesis by simp
qed

lemma u8_low_bits: "(b :: u8) AND 0x80 = 0 \<Longrightarrow> b AND 0x7f = b"
proof -
  assume "b AND 0x80 = 0"
  then have "unat b mod 128 = unat b" by (simp add: u8_and_80)
  then show ?thesis by (simp only: word_unat_eq_iff unat_u8_and_7f)
qed

section \<open>Simulations\<close>

text \<open>
  A loop \<open>for item in items { self.step(item)?; }\<close> on a mutable state: it stops at the first error
  and what was done before stays done.
\<close>

fun run_all :: "('s \<Rightarrow> 'i \<Rightarrow> 'e + 's) \<Rightarrow> 's \<Rightarrow> 'i list \<Rightarrow> 's \<times> ('e + unit)" where
  "run_all step s [] = (s, Inr ())"
| "run_all step s (i # is) =
     (case step s i of Inl e \<Rightarrow> (s, Inl e) | Inr s' \<Rightarrow> run_all step s' is)"

text \<open>
  The refinement interface: a concrete step that fails exactly when the abstract one does, with
  the same error, and otherwise keeps the relation.
\<close>

locale error_simulation =
  fixes abs_step :: "'m \<Rightarrow> 'i \<Rightarrow> 'e + 'm"
    and step :: "'s \<Rightarrow> 'i \<Rightarrow> 'e + 's"
    and rel :: "'s \<Rightarrow> 'm \<Rightarrow> bool"
  assumes step_error: "rel s m \<Longrightarrow> abs_step m i = Inl e \<Longrightarrow> step s i = Inl e"
    and step_ok: "rel s m \<Longrightarrow> abs_step m i = Inr m' \<Longrightarrow> \<exists>s'. step s i = Inr s' \<and> rel s' m'"
begin

lemma run_simulates:
  "rel s m \<Longrightarrow> run_all abs_step m is = (m', r) \<Longrightarrow> \<exists>s'. run_all step s is = (s', r) \<and> rel s' m'"
proof (induction "is" arbitrary: s m)
  case (Cons i "is")
  show ?case
  proof (cases "abs_step m i")
    case (Inl e)
    with step_error [OF Cons.prems(1) Inl] Cons.prems show ?thesis by auto
  next
    case (Inr n)
    from step_ok [OF Cons.prems(1) Inr] obtain s' where "step s i = Inr s'" "rel s' n" by blast
    with Cons.IH [of s' n] Cons.prems Inr show ?thesis by simp
  qed
qed auto

lemma run_result: "rel s m \<Longrightarrow> snd (run_all step s is) = snd (run_all abs_step m is)"
  using run_simulates [of s m "is"] by (metis prod.collapse prod.inject)

end

text \<open>
  A sequence of calls on a mutable state, each with its result: a call that fails leaves the state as
  it was, and the calls after it are made all the same.
\<close>

fun run_each :: "('s \<Rightarrow> 'i \<Rightarrow> 'e + 's) \<Rightarrow> 's \<Rightarrow> 'i list \<Rightarrow> 's \<times> ('e + unit) list" where
  "run_each step s [] = (s, [])"
| "run_each step s (i # is) =
     (case step s i of
        Inl e \<Rightarrow> (case run_each step s is of (s', rs) \<Rightarrow> (s', Inl e # rs))
      | Inr t \<Rightarrow> (case run_each step t is of (s', rs) \<Rightarrow> (s', Inr () # rs)))"

text \<open>The same interface for steps whose inputs are guarded.\<close>

locale guarded_simulation =
  fixes abs_step :: "'m \<Rightarrow> 'i \<Rightarrow> 'e + 'm"
    and step :: "'s \<Rightarrow> 'i \<Rightarrow> 'e + 's"
    and rel :: "'s \<Rightarrow> 'm \<Rightarrow> bool"
    and guard :: "'i \<Rightarrow> bool"
  assumes guarded_error: "rel s m \<Longrightarrow> guard i \<Longrightarrow> abs_step m i = Inl e \<Longrightarrow> step s i = Inl e"
    and guarded_ok: "rel s m \<Longrightarrow> guard i \<Longrightarrow> abs_step m i = Inr m' \<Longrightarrow> \<exists>s'. step s i = Inr s' \<and> rel s' m'"
begin

lemma guarded_each:
  "rel s m \<Longrightarrow> list_all guard is \<Longrightarrow> run_each abs_step m is = (m', rs) \<Longrightarrow>
   \<exists>s'. run_each step s is = (s', rs) \<and> rel s' m'"
proof (induction "is" arbitrary: s m rs)
  case (Cons i "is")
  show ?case
  proof (cases "abs_step m i")
    case (Inl e)
    with guarded_error [OF Cons.prems(1) _ Inl] Cons.prems Cons.IH [OF Cons.prems(1)] show ?thesis
      by (fastforce split: prod.splits)
  next
    case (Inr n)
    with guarded_ok [OF Cons.prems(1) _ Inr] Cons.prems(2) obtain s' where "step s i = Inr s'" "rel s' n" by auto
    with Cons.IH [of s' n] Cons.prems Inr show ?thesis by (fastforce split: prod.splits)
  qed
qed auto

end

sublocale error_simulation \<subseteq> guarded: guarded_simulation abs_step step rel "\<lambda>_. True"
  by unfold_locales (auto intro: step_error step_ok)

section \<open>Ordered tables\<close>

lemma insort_keys: "map fst (insort_key fst x xs) = insort (fst x) (map fst xs)"
  by (induction xs) auto

section \<open>Codecs\<close>

text \<open>
  Two interfaces the wire formats provide to each other.  A \<open>value_codec\<close> reads a whole byte
  string: every value has exactly one encoding and every accepted byte string is that encoding.
  A \<open>prefix_codec\<close> reads a value off the front of a longer string and says how many bytes it
  used; \<open>ok\<close> is what a value must satisfy to be representable.
\<close>

locale value_codec =
  fixes enc :: "'a \<Rightarrow> bytes"
    and dec :: "bytes \<Rightarrow> 'e + 'a"
    and ok :: "'a \<Rightarrow> bool"
  assumes dec_enc: "ok x \<Longrightarrow> dec (enc x) = Inr x"
    and dec_canonical: "dec bs = Inr x \<Longrightarrow> ok x \<and> enc x = bs"
begin

lemma dec_iff: "dec bs = Inr x \<longleftrightarrow> ok x \<and> bs = enc x"
  using dec_enc dec_canonical by blast

lemma enc_inject: "ok x \<Longrightarrow> ok y \<Longrightarrow> enc x = enc y \<longleftrightarrow> x = y"
  by (metis Inr_inject dec_enc)

lemma dec_inject: "dec bs = Inr x \<Longrightarrow> dec cs = Inr x \<Longrightarrow> bs = cs"
  using dec_canonical by blast

end

definition decode_all :: "'e \<Rightarrow> (bytes \<Rightarrow> 'e + ('a \<times> nat)) \<Rightarrow> bytes \<Rightarrow> 'e + 'a" where
  "decode_all trailing dec bs =
     and_then (dec bs) (\<lambda>(x, n). if n = length bs then Inr x else Inl trailing)"

locale prefix_codec =
  fixes enc :: "'a \<Rightarrow> bytes"
    and dec :: "bytes \<Rightarrow> 'e + ('a \<times> nat)"
    and ok :: "'a \<Rightarrow> bool"
  assumes dec_enc_prefix: "ok x \<Longrightarrow> dec (enc x @ rest) = Inr (x, length (enc x))"
    and dec_prefix_canonical:
      "dec bs = Inr (x, n) \<Longrightarrow> ok x \<and> 0 < n \<and> n \<le> length bs \<and> take n bs = enc x"
begin

lemma dec_prefix_iff:
  "dec bs = Inr (x, n) \<longleftrightarrow> ok x \<and> n = length (enc x) \<and> (\<exists>rest. bs = enc x @ rest)"
proof
  assume "dec bs = Inr (x, n)"
  then have "ok x" and n: "n \<le> length bs" and t: "take n bs = enc x"
    using dec_prefix_canonical by blast+
  moreover from n t have "n = length (enc x)" by (metis length_take min.absorb2)
  moreover from t have "bs = enc x @ drop n bs" by (metis append_take_drop_id)
  ultimately show "ok x \<and> n = length (enc x) \<and> (\<exists>rest. bs = enc x @ rest)" by blast
qed (auto simp: dec_enc_prefix)

lemma enc_not_Nil: "ok x \<Longrightarrow> enc x \<noteq> []"
  using dec_enc_prefix [of x "[]"] dec_prefix_canonical by fastforce

lemma prefix_free: "ok x \<Longrightarrow> ok y \<Longrightarrow> enc x @ r = enc y @ s \<Longrightarrow> x = y \<and> r = s"
  by (metis Inr_inject dec_enc_prefix prod.inject same_append_eq)

lemma dec_extends: "dec bs = Inr (x, n) \<Longrightarrow> dec (bs @ rest) = Inr (x, n)"
  by (auto simp: dec_prefix_iff)

lemma concat_enc_inject:
  "list_all ok xs \<Longrightarrow> list_all ok ys \<Longrightarrow> concat (map enc xs) = concat (map enc ys) \<longleftrightarrow> xs = ys"
proof (induction xs arbitrary: ys)
  case Nil
  then show ?case using enc_not_Nil by (cases ys) auto
next
  case (Cons x xs)
  show ?case
  proof (cases ys)
    case Nil
    with Cons.prems show ?thesis using enc_not_Nil by auto
  next
    case (Cons y ys')
    have "enc x @ concat (map enc xs) = enc y @ concat (map enc ys') \<longleftrightarrow>
          x = y \<and> concat (map enc xs) = concat (map enc ys')"
      using Cons.prems Cons prefix_free [of x y] by auto
    with Cons.prems Cons Cons.IH [of ys'] show ?thesis by simp
  qed
qed

end

sublocale prefix_codec \<subseteq> whole: value_codec enc "decode_all e dec" ok for e
proof unfold_locales
  show "decode_all e dec (enc x) = Inr x" if "ok x" for x
    using dec_enc_prefix [OF that, of "[]"] by (simp add: decode_all_def)
  show "ok x \<and> enc x = bs" if "decode_all e dec bs = Inr x" for bs x
    using that dec_prefix_canonical
    by (fastforce simp: decode_all_def and_then_eq_Inr split: if_splits)
qed

section \<open>Positions\<close>

text \<open>\<open>Iterator::position\<close>.\<close>

fun position :: "('a \<Rightarrow> bool) \<Rightarrow> 'a list \<Rightarrow> nat option" where
  "position P [] = None"
| "position P (x # xs) = (if P x then Some 0 else map_option Suc (position P xs))"

lemma position_None_iff: "position P xs = None \<longleftrightarrow> (\<forall>x \<in> set xs. \<not> P x)"
  by (induction xs) auto

lemma position_Some_nth: "position P xs = Some i \<Longrightarrow> i < length xs \<and> P (xs ! i)"
  by (induction xs arbitrary: i) (auto split: if_splits)

lemma position_found: "(\<And>x. x \<in> set v \<Longrightarrow> \<not> P x) \<Longrightarrow> P y \<Longrightarrow> position P (v @ y # r) = Some (length v)"
  by (induction v) auto

lemma position_distinct: "distinct xs \<Longrightarrow> i < length xs \<Longrightarrow> position (\<lambda>m. m = xs ! i) xs = Some i"
  by (induction xs arbitrary: i) (auto simp: nth_Cons split: nat.splits)

section \<open>Little-endian numbers\<close>

text \<open>\<open>to_le_bytes\<close> and \<open>from_le_bytes\<close> for an unsigned integer of \<open>n\<close> bytes.\<close>

fun le_bytes :: "nat \<Rightarrow> nat \<Rightarrow> bytes" where
  "le_bytes 0 v = []"
| "le_bytes (Suc n) v = of_nat (v mod 256) # le_bytes n (v div 256)"

fun le_value :: "bytes \<Rightarrow> nat" where
  "le_value [] = 0"
| "le_value (b # bs) = unat b + 256 * le_value bs"

lemma le_bytes_length [simp]: "length (le_bytes n v) = n"
  by (induction n arbitrary: v) auto

lemma le_value_bytes: "v < 256 ^ n \<Longrightarrow> le_value (le_bytes n v) = v"
proof (induction n arbitrary: v)
  case (Suc n)
  have "v div 256 < 256 ^ n" using Suc.prems by (simp add: less_mult_imp_div_less mult.commute)
  moreover have "unat (of_nat (v mod 256) :: u8) = v mod 256"
    by (simp add: unat_of_nat)
  ultimately show ?case using Suc.IH by simp
qed simp

lemma le_bytes_value: "le_bytes (length bs) (le_value bs) = bs"
  by (induction bs) simp_all

lemma le_value_less: "le_value bs < 256 ^ length bs"
proof (induction bs)
  case (Cons b bs)
  show ?case unfolding le_value.simps using Cons u8_less [of b] by (simp del: u8_less)
qed simp

end
