(* ===== verification/Wire_Integer.thy ===== *)
theory Wire_Integer
  imports Prelude
begin

text \<open>
  The canonical integers of \<open>crates/tith-wire/src/integer.rs\<close> and
  \<open>crates/tith-wire/src/signed_integer.rs\<close>: base-128 groups, most significant first, every
  byte but the last with its top bit set, and no leading zero group.
\<close>

section \<open>Definitions\<close>

datatype integer_error = Empty | NonCanonical | Overflow | Unterminated | TrailingBytes

definition MAX_U64_BYTES :: nat where
  "MAX_U64_BYTES = 10"

text \<open>
  The first loop of \<open>encode_u64\<close>: the seven-bit groups, least significant first, in the order
  they are stored in \<open>reverse[0]\<close>, \<open>reverse[1]\<close>, \<dots>.
\<close>

function encode_groups :: "u64 \<Rightarrow> u8 list" where
  "encode_groups value =
     ucast (value AND 0x7f) #
     (let rest = drop_bit 7 value in if rest = 0 then [] else encode_groups rest)"
  by pat_completeness auto

lemma drop_7_decreases: "drop_bit 7 (v :: u64) \<noteq> 0 \<Longrightarrow> unat (drop_bit 7 v) < unat v"
proof -
  assume "drop_bit 7 v \<noteq> 0"
  then have "unat v div 128 \<noteq> 0" by (metis unat_u64_drop_7 unat_eq_zero)
  then show ?thesis by (simp add: unat_u64_drop_7)
qed

termination encode_groups
  by (relation "measure unat") (auto intro: drop_7_decreases)

declare encode_groups.simps [simp del]

text \<open>
  The second loop emits the groups from the highest index down, with the continuation bit on
  every group but the one at index 0.
\<close>

definition encode_u64 :: "u64 \<Rightarrow> bytes" where
  "encode_u64 value =
     map (\<lambda>(index, group). group OR (if index = 0 then 0 else 0x80))
       (rev (enumerate 0 (encode_groups value)))"

text \<open>
  The loop of \<open>decode_u64_prefix\<close>: \<open>checked_mul(128)\<close> fails when the product leaves \<open>u64\<close>.
\<close>

fun decode_loop :: "u64 \<Rightarrow> nat \<Rightarrow> bytes \<Rightarrow> integer_error + (u64 \<times> nat)" where
  "decode_loop value index [] = Inl Unterminated"
| "decode_loop value index (byte # bytes) =
     (if unat value * 128 \<ge> 2 ^ 64 then Inl Overflow
      else let value' = value * 128 + ucast (byte AND 0x7f)
           in if byte AND 0x80 = 0 then Inr (value', index + 1)
              else decode_loop value' (index + 1) bytes)"

definition decode_u64_prefix :: "bytes \<Rightarrow> integer_error + (u64 \<times> nat)" where
  "decode_u64_prefix bytes =
     (case bytes of
        [] \<Rightarrow> Inl Empty
      | first # _ \<Rightarrow> if first = 0x80 then Inl NonCanonical else decode_loop 0 0 bytes)"

definition decode_u64 :: "bytes \<Rightarrow> integer_error + u64" where
  "decode_u64 bytes =
     and_then (decode_u64_prefix bytes)
       (\<lambda>(value, used). if used = length bytes then Inr value else Inl TrailingBytes)"

text \<open>
  The signed integers, as \<open>int\<close> in the range of \<open>i64\<close>; \<open>cast_unsigned\<close>, \<open>unsigned_abs\<close> and
  \<open>cast_signed\<close> are the conversions of the standard library on values that fit.
\<close>

definition encode_i64 :: "int \<Rightarrow> bytes" where
  "encode_i64 value =
     (let mapped = (if value \<ge> 0 then (of_int value :: u64) * 2
                    else (of_int \<bar>value\<bar> - 1) * 2 + 1)
      in encode_u64 mapped)"

definition decode_i64 :: "bytes \<Rightarrow> integer_error + int" where
  "decode_i64 bytes =
     and_then (decode_u64 bytes)
       (\<lambda>mapped. let half = sint (mapped div 2)
                 in if mapped AND 1 = 0 then Inr half else Inr (- half - 1))"

section \<open>The continuation prefix of a value\<close>

text \<open>
  \<open>cont_bytes v\<close> is what a decoder has consumed when its accumulator holds \<open>v\<close>: all groups of
  \<open>v\<close> with the continuation bit.  Both directions of the round trip are inductions over it.
\<close>

definition cont_bytes :: "u64 \<Rightarrow> bytes" where
  "cont_bytes v = map (\<lambda>g. g OR 0x80) (rev (encode_groups v))"

lemma map_enumerate_tail:
  "map (\<lambda>(i, g :: u8). g OR (if i = 0 then 0 else 0x80)) (enumerate (Suc n) gs) =
   map (\<lambda>g. g OR 0x80) gs"
  by (induction gs arbitrary: n) auto

lemma encode_u64_split:
  "encode_u64 v = (if drop_bit 7 v = 0 then [] else cont_bytes (drop_bit 7 v)) @
                  [ucast (v AND 0x7f)]"
proof -
  have tail: "map (\<lambda>(i, g :: u8). g OR (if i = 0 then 0 else 0x80)) (rev (enumerate (Suc 0) gs)) =
              rev (map (\<lambda>g. g OR 0x80) gs)" for gs
    by (simp add: rev_map [symmetric] map_enumerate_tail)
  show ?thesis
    by (subst encode_u64_def, subst encode_groups.simps)
       (simp add: Let_def tail rev_map cont_bytes_def)
qed

lemma cont_bytes_split:
  "cont_bytes v = (if drop_bit 7 v = 0 then [] else cont_bytes (drop_bit 7 v)) @
                  [ucast (v AND 0x7f) OR 0x80]"
  by (subst cont_bytes_def, subst encode_groups.simps) (simp add: Let_def cont_bytes_def)

lemma unat_group [word_nat]: "unat (ucast (v AND 0x7f :: u64) :: u8) = unat v mod 128"
proof -
  have "unat v mod 128 mod 256 = unat v mod 128" by (rule mod_less) (simp add: less_trans [of _ 128])
  then show ?thesis by (simp add: unsigned_ucast_eq take_bit_eq_mod unat_u64_and_7f)
qed

lemma unat_u64_of_7f [word_nat]: "unat (ucast (b AND 0x7f :: u8) :: u64) = unat b mod 128"
  by (simp add: unsigned_ucast_eq take_bit_eq_mod unat_u8_and_7f)

lemma unat_step:
  assumes "unat (v :: u64) * 128 < 2 ^ 64"
  shows "unat (v * 128 + ucast (b AND 0x7f :: u8)) = unat v * 128 + unat b mod 128"
proof -
  have "unat v \<le> 2 ^ 57 - 1" using assms by simp
  then have "unat v * 128 + unat b mod 128 < 2 ^ 64"
    using mod_less_divisor [of 128 "unat b"] by simp
  then show ?thesis
    using assms by (simp add: unat_word_ariths unat_u64_of_7f)
qed

lemma step_drop:
  assumes "unat (v :: u64) * 128 < 2 ^ 64"
  shows "drop_bit 7 (v * 128 + ucast (b AND 0x7f :: u8)) = v"
    and "ucast ((v * 128 + ucast (b AND 0x7f :: u8)) AND 0x7f) = b AND 0x7f"
  by (simp_all add: word_unat_eq_iff unat_step [OF assms] word_nat)

lemma step_rebuild:
  "unat (drop_bit 7 v :: u64) * 128 < 2 ^ 64"
  "drop_bit 7 v * 128 + ucast ((ucast (v AND 0x7f) OR 0x80) AND 0x7f :: u8) = (v :: u64)"
  "drop_bit 7 v * 128 + ucast (ucast (v AND 0x7f) AND 0x7f :: u8) = (v :: u64)"
proof -
  have "unat v div 128 * 128 \<le> unat v" by simp
  then show bound: "unat (drop_bit 7 v) * 128 < 2 ^ 64"
    unfolding unat_u64_drop_7 by (rule le_less_trans) simp
  have or: "unat (ucast (v AND 0x7f) OR 0x80 :: u8) mod 128 = unat v mod 128"
    by (simp add: unat_u8_or_80 unat_group)
  show "drop_bit 7 v * 128 + ucast ((ucast (v AND 0x7f) OR 0x80) AND 0x7f :: u8) = v"
    by (simp add: word_unat_eq_iff unat_step [OF bound] unat_u64_drop_7 or)
  show "drop_bit 7 v * 128 + ucast (ucast (v AND 0x7f) AND 0x7f :: u8) = v"
    by (simp add: word_unat_eq_iff unat_step [OF bound] unat_u64_drop_7 unat_group)
qed

lemma group_flags:
  "(ucast (v AND 0x7f :: u64) :: u8) AND 0x80 = 0"
  "(ucast (v AND 0x7f :: u64) OR 0x80 :: u8) AND 0x80 \<noteq> 0"
  by (simp_all add: u8_and_80 unat_u8_or_80 unat_group)

section \<open>Decoding what was encoded\<close>

lemma decode_loop_cont:
  "decode_loop 0 i (cont_bytes v @ bs) = decode_loop v (i + length (cont_bytes v)) bs"
proof (induction v arbitrary: i bs rule: encode_groups.induct)
  case (1 v)
  let ?g = "ucast (v AND 0x7f) OR 0x80 :: u8"
  have last: "decode_loop (drop_bit 7 v) j (?g # bs) = decode_loop v (Suc j) bs" for j
    using step_rebuild [of v] group_flags(2) [of v] by (simp add: Let_def)
  show ?case
  proof (cases "drop_bit 7 v = 0")
    case True
    then show ?thesis using last [of i] by (subst (1 2) cont_bytes_split) simp
  next
    case False
    then have "decode_loop 0 i (cont_bytes (drop_bit 7 v) @ ?g # bs) =
        decode_loop (drop_bit 7 v) (i + length (cont_bytes (drop_bit 7 v))) (?g # bs)"
      by (rule "1.IH" [OF refl])
    with False last show ?thesis by (subst (1 2) cont_bytes_split) simp
  qed
qed

lemma decode_loop_last:
  "decode_loop (drop_bit 7 v) i (ucast (v AND 0x7f) # bs) = Inr (v, Suc i)"
  using step_rebuild [of v] group_flags(1) [of v] by (simp add: Let_def)

lemma decode_loop_encode: "decode_loop 0 0 (encode_u64 v @ rest) = Inr (v, length (encode_u64 v))"
proof (cases "drop_bit 7 v = 0")
  case True
  then show ?thesis using decode_loop_last [of v 0 rest] by (simp add: encode_u64_split)
next
  case False
  then show ?thesis
    by (simp add: encode_u64_split decode_loop_cont decode_loop_last del: decode_loop.simps)
qed

lemma cont_bytes_head: "v \<noteq> 0 \<Longrightarrow> \<exists>b bs. cont_bytes v = b # bs \<and> b \<noteq> 0x80"
proof (induction v rule: encode_groups.induct)
  case (1 v)
  show ?case
  proof (cases "drop_bit 7 v = 0")
    case True
    then have "unat v div 128 = 0" by (metis unat_u64_drop_7 unat_0)
    moreover from "1.prems" have "unat v \<noteq> 0" by (simp add: unat_eq_zero)
    ultimately have "unat (ucast (v AND 0x7f) OR 0x80 :: u8) \<noteq> 128"
      by (simp add: unat_u8_or_80 unat_group div_eq_0_iff)
    then have "(ucast (v AND 0x7f) OR 0x80 :: u8) \<noteq> 0x80" by auto
    with True show ?thesis by (subst cont_bytes_split) simp
  next
    case False
    with "1.IH" [OF refl] show ?thesis by (subst cont_bytes_split) auto
  qed
qed

lemma encode_u64_head: "\<exists>b bs. encode_u64 v = b # bs \<and> b \<noteq> 0x80"
proof (cases "drop_bit 7 v = 0")
  case True
  have "(ucast (v AND 0x7f) :: u8) \<noteq> 0x80" using group_flags(1) [of v] by auto
  with True show ?thesis by (simp add: encode_u64_split)
next
  case False
  then show ?thesis using cont_bytes_head [OF False] by (auto simp: encode_u64_split)
qed

lemma encode_u64_not_Nil [simp]: "encode_u64 v \<noteq> []"
  by (simp add: encode_u64_split)

lemma decode_prefix_encode:
  "decode_u64_prefix (encode_u64 v @ rest) = Inr (v, length (encode_u64 v))"
proof -
  obtain b bs where "encode_u64 v = b # bs" and "b \<noteq> 0x80" using encode_u64_head by blast
  then show ?thesis
    using decode_loop_encode [of v rest] by (simp add: decode_u64_prefix_def del: decode_loop.simps)
qed

section \<open>Only what was encoded decodes\<close>

lemma cont_bytes_step:
  assumes "unat v * 128 < 2 ^ 64" and "v \<noteq> 0" and "b AND 0x80 \<noteq> 0"
  shows "cont_bytes (v * 128 + ucast (b AND 0x7f :: u8)) = cont_bytes v @ [b]"
proof -
  have "unat b \<ge> 128" using assms(3) by (simp add: u8_and_80)
  then have "unat ((b AND 0x7f) OR 0x80) = unat b"
    using u8_less [of b] by (simp add: unat_u8_or_80 unat_u8_and_7f le_mod_geq del: u8_less)
  then have "(b AND 0x7f) OR 0x80 = b" by (simp only: word_unat_eq_iff)
  then show ?thesis
    by (subst cont_bytes_split) (simp add: step_drop [OF assms(1)] assms(2))
qed

lemma encode_u64_step:
  assumes "unat v * 128 < 2 ^ 64" and "v \<noteq> 0" and "b AND 0x80 = 0"
  shows "encode_u64 (v * 128 + ucast (b AND 0x7f :: u8)) = cont_bytes v @ [b]"
proof -
  have "b AND 0x7f = b" using assms(3) by (rule u8_low_bits)
  then show ?thesis
    using step_drop [OF assms(1), of b] by (simp add: encode_u64_split assms(2))
qed

lemma decode_loop_canonical:
  assumes "decode_loop v i bs = Inr (w, n)" and "v \<noteq> 0"
  shows "i < n \<and> n \<le> i + length bs \<and> encode_u64 w = cont_bytes v @ take (n - i) bs"
  using assms
proof (induction v i bs rule: decode_loop.induct)
  case (2 v i b bs)
  let ?v = "v * 128 + ucast (b AND 0x7f)"
  from "2.prems" have bound: "unat v * 128 < 2 ^ 64" by (auto split: if_splits)
  show ?case
  proof (cases "b AND 0x80 = 0")
    case True
    with "2.prems" bound have "w = ?v" and "n = Suc i" by (simp_all add: Let_def)
    with True show ?thesis using encode_u64_step [OF bound "2.prems"(2) True] by simp
  next
    case False
    have "unat ?v \<noteq> 0" using unat_step [OF bound, of b] "2.prems"(2) by (simp add: unat_eq_zero)
    then have "?v \<noteq> 0" by auto
    with "2.IH" "2.prems" bound False
    have "i + 1 < n \<and> n \<le> i + 1 + length bs \<and> encode_u64 w = cont_bytes ?v @ take (n - (i + 1)) bs"
      by (simp add: Let_def)
    then show ?thesis
      using cont_bytes_step [OF bound "2.prems"(2) False] by (auto simp: take_Cons')
  qed
qed simp

lemma decode_prefix_canonical:
  assumes "decode_u64_prefix bs = Inr (v, n)"
  shows "0 < n \<and> n \<le> length bs \<and> take n bs = encode_u64 v"
proof -
  from assms obtain b bs' where bs: "bs = b # bs'" and b: "b \<noteq> 0x80"
    and loop: "decode_loop 0 0 (b # bs') = Inr (v, n)"
    by (auto simp: decode_u64_prefix_def split: list.splits if_splits)
  let ?v = "ucast (b AND 0x7f) :: u64"
  have v: "unat ?v = unat b mod 128" by (rule unat_u64_of_7f)
  have small: "drop_bit 7 ?v = 0" by (simp add: word_unat_eq_iff unat_u64_drop_7 v)
  have group: "(ucast (?v AND 0x7f) :: u8) = b AND 0x7f"
    by (simp add: word_unat_eq_iff unat_group v unat_u8_and_7f)
  show ?thesis
  proof (cases "b AND 0x80 = 0")
    case True
    then have "b AND 0x7f = b" by (rule u8_low_bits)
    with True loop show ?thesis using small group by (auto simp: Let_def bs encode_u64_split)
  next
    case False
    then have "128 \<le> unat b" by (simp add: u8_and_80)
    then have restored: "unat ((b AND 0x7f) OR 0x80) = unat b" and "unat b \<noteq> 128"
      using u8_less [of b] b
      by (auto simp: unat_u8_or_80 unat_u8_and_7f le_mod_geq word_unat_eq_iff simp del: u8_less)
    then have "unat ?v \<noteq> 0" using v \<open>128 \<le> unat b\<close> u8_less [of b]
      by (simp add: le_mod_geq del: u8_less)
    then have "?v \<noteq> 0" by auto
    moreover have "decode_loop ?v 1 bs' = Inr (v, n)" using loop False by (simp add: Let_def)
    ultimately have "1 < n \<and> n \<le> 1 + length bs' \<and> encode_u64 v = cont_bytes ?v @ take (n - 1) bs'"
      using decode_loop_canonical by blast
    moreover have "(b AND 0x7f) OR 0x80 = b" using restored by (simp only: word_unat_eq_iff)
    then have "cont_bytes ?v = [b]" using small group by (subst cont_bytes_split) simp
    ultimately show ?thesis by (auto simp: bs take_Cons')
  qed
qed

section \<open>The codec interface\<close>

interpretation u64c: prefix_codec encode_u64 decode_u64_prefix "\<lambda>_. True"
  by unfold_locales (simp_all add: decode_prefix_encode decode_prefix_canonical)

lemma decode_u64_all: "decode_u64 = decode_all TrailingBytes decode_u64_prefix"
  by (simp add: fun_eq_iff decode_u64_def decode_all_def)

lemma decode_u64_encode [simp]: "decode_u64 (encode_u64 v) = Inr v"
  by (simp add: decode_u64_all u64c.whole.dec_enc)

lemma decode_u64_iff: "decode_u64 bs = Inr v \<longleftrightarrow> bs = encode_u64 v"
  by (simp add: decode_u64_all u64c.whole.dec_iff)

section \<open>Lengths\<close>

lemma length_encode_groups: "length (encode_u64 v) = length (encode_groups v)"
  by (simp add: encode_u64_def)

lemma encode_groups_length_bounds:
  "unat v < 128 ^ length (encode_groups v) \<and>
   (length (encode_groups v) = 1 \<or> 128 ^ (length (encode_groups v) - 1) \<le> unat v)"
proof (induction v rule: encode_groups.induct)
  case (1 v)
  let ?r = "drop_bit 7 v"
  have r: "unat ?r = unat v div 128" by (rule unat_u64_drop_7)
  show ?case
  proof (cases "?r = 0")
    case True
    then have "unat v div 128 = 0" using r by simp
    then have "unat v < 128" by (simp add: div_eq_0_iff)
    with True show ?thesis by (subst (1 2 3) encode_groups.simps) (simp add: Let_def)
  next
    case False
    let ?n = "length (encode_groups ?r)"
    have len: "length (encode_groups v) = Suc ?n"
      using False by (subst encode_groups.simps) (simp add: Let_def)
    have pos: "?n \<noteq> 0" by (subst encode_groups.simps) simp
    have IH: "unat ?r < 128 ^ ?n" "?n = 1 \<or> 128 ^ (?n - 1) \<le> unat ?r"
      using "1.IH" [OF refl False] by blast+
    have upper: "unat v < 128 * 128 ^ ?n" using IH(1) r by (simp add: div_less_iff_less_mult mult.commute)
    have "unat ?r \<noteq> 0" using False by (simp add: unat_eq_zero)
    with IH(2) have "128 ^ (?n - 1) \<le> unat ?r" by auto
    then have "128 * 128 ^ (?n - 1) \<le> unat v" using r by linarith
    then have "128 ^ ?n \<le> unat v" using pos by (cases ?n) auto
    with upper len show ?thesis by simp
  qed
qed

lemma encode_u64_length: "length (encode_u64 v) \<le> 10"
proof (rule ccontr)
  let ?n = "length (encode_groups v)"
  assume "\<not> length (encode_u64 v) \<le> 10"
  then have n: "10 \<le> ?n - 1" and "?n \<noteq> 1" by (auto simp: length_encode_groups)
  from n have "(128 :: nat) ^ 10 \<le> 128 ^ (?n - 1)" by (intro power_increasing) auto
  also have "\<dots> \<le> unat v" using encode_groups_length_bounds [of v] \<open>?n \<noteq> 1\<close> by blast
  also have "\<dots> < 128 ^ 10" by (rule less_trans [OF u64_less]) simp
  finally show False by simp
qed

section \<open>Signed integers\<close>

definition i64_range :: "int \<Rightarrow> bool" where
  "i64_range value \<longleftrightarrow> - (2 ^ 63) \<le> value \<and> value < 2 ^ 63"

text \<open>The value a mapped word stands for, and the word a value is mapped to.\<close>

definition zigzag :: "int \<Rightarrow> nat" where
  "zigzag value = (if value \<ge> 0 then 2 * nat value else 2 * nat (- value - 1) + 1)"

lemma zigzag_bound: "i64_range value \<Longrightarrow> zigzag value < 2 ^ 64"
  by (auto simp: i64_range_def zigzag_def)

lemma encode_i64_zigzag:
  assumes "i64_range value"
  shows "encode_i64 value = encode_u64 (of_nat (zigzag value))"
proof (cases "value \<ge> 0")
  case True
  then have "(of_int value :: u64) = of_nat (nat value)" by simp
  with True show ?thesis by (simp add: encode_i64_def zigzag_def mult.commute)
next
  case False
  then have "(of_int \<bar>value\<bar> - 1 :: u64) = of_int (- value - 1)" by simp
  also have "\<dots> = of_nat (nat (- value - 1))" using False by (subst of_nat_nat) auto
  finally show ?thesis using False by (simp add: encode_i64_def zigzag_def mult.commute)
qed

definition unzigzag :: "nat \<Rightarrow> int" where
  "unzigzag n = (if even n then int (n div 2) else - int (n div 2) - 1)"

lemma unzigzag_zigzag: "unzigzag (zigzag value) = value"
  by (auto simp: zigzag_def unzigzag_def)

lemma zigzag_unzigzag: "zigzag (unzigzag n) = n"
  by (auto simp: zigzag_def unzigzag_def)

lemma unzigzag_range: "n < 2 ^ 64 \<Longrightarrow> i64_range (unzigzag n)"
  by (auto simp: i64_range_def unzigzag_def)

lemma half_signed:
  shows "sint (m div 2 :: u64) = int (unat m div 2)" and "m AND 1 = 0 \<longleftrightarrow> even (unat m)"
proof -
  have h: "unat (m div 2) = unat m div 2" by (simp add: unat_div_distrib)
  then have "unat (m div 2) < 2 ^ 63" using u64_less [of m] by (simp del: u64_less)
  then have "uint (m div 2) < 2 ^ 63" by (metis of_nat_less_iff of_nat_numeral of_nat_power of_nat_unat)
  moreover have "- (2 ^ 63) \<le> uint (m div 2)" by (rule order_trans [of _ 0]) simp_all
  ultimately have "signed_take_bit 63 (uint (m div 2)) = uint (m div 2)"
    by (intro signed_take_bit_int_eq_self)
  then have "sint (m div 2) = uint (m div 2)" by (simp add: sint_uint)
  then show "sint (m div 2) = int (unat m div 2)" using h by (metis of_nat_unat)
  have "m AND 1 = 0 \<longleftrightarrow> unat (m mod 2) = 0" by (simp only: and_one_eq unat_eq_zero)
  then show "m AND 1 = 0 \<longleftrightarrow> even (unat m)"
    by (simp add: unat_mod_distrib even_iff_mod_2_eq_zero)
qed

lemma decode_i64_zigzag:
  "decode_i64 bs = and_then (decode_u64 bs) (\<lambda>m. Inr (unzigzag (unat m)))"
  by (cases "decode_u64 bs") (simp_all add: decode_i64_def Let_def half_signed unzigzag_def)

lemma decode_encode_i64: "i64_range value \<Longrightarrow> decode_i64 (encode_i64 value) = Inr value"
  using zigzag_bound [of "value"]
  by (simp add: decode_i64_zigzag encode_i64_zigzag unat_of_nat unzigzag_zigzag)

lemma decode_i64_canonical:
  "decode_i64 bs = Inr value \<Longrightarrow> i64_range value \<and> encode_i64 value = bs"
proof -
  assume "decode_i64 bs = Inr value"
  then obtain m where m: "bs = encode_u64 m" and v: "value = unzigzag (unat m)"
    by (auto simp: decode_i64_zigzag and_then_eq_Inr decode_u64_iff)
  then have r: "i64_range value" using u64_less [of m] by (simp add: unzigzag_range)
  then show ?thesis by (simp add: encode_i64_zigzag m v zigzag_unzigzag)
qed

interpretation i64c: value_codec encode_i64 decode_i64 i64_range
  by unfold_locales (simp_all add: decode_encode_i64 decode_i64_canonical)

section \<open>Properties\<close>

text \<open>
  \<open>encode_u64\<close> and \<open>decode_u64_prefix\<close> are inverse and canonical.  A byte string starts
  with a decodable integer exactly when it starts with the one encoding of that integer, and
  the decoder reports exactly the length of that encoding, whatever bytes follow.
\<close>

theorem u64_prefix_canonical:
  "decode_u64_prefix bs = Inr (v, n) \<longleftrightarrow>
     n = length (encode_u64 v) \<and> (\<exists>rest. bs = encode_u64 v @ rest)"
  by (simp add: u64c.dec_prefix_iff)

text \<open>
  the encoding of a \<open>u64\<close> never overruns the ten-byte \<open>reverse\<close> buffer and is as short as
  possible: \<open>k\<close> bytes hold exactly the values below \<open>128 ^ k\<close> that do not fit in \<open>k - 1\<close> bytes.
\<close>

theorem u64_encoding_length:
  "length (encode_u64 v) \<le> MAX_U64_BYTES \<and>
   unat v < 128 ^ length (encode_u64 v) \<and>
   (length (encode_u64 v) = 1 \<or> 128 ^ (length (encode_u64 v) - 1) \<le> unat v)"
  using encode_u64_length [of v] encode_groups_length_bounds [of v]
  by (simp add: MAX_U64_BYTES_def length_encode_groups)

text \<open>
  C27.  the signed codec is a bijection between the range of \<open>i64\<close> and the byte strings it
  accepts, \<open>i64::MIN\<close> included, although \<open>-half - 1\<close> and \<open>unsigned_abs\<close> work at the edge of
  the type.
\<close>

theorem i64_roundtrip:
  "decode_i64 bs = Inr value \<longleftrightarrow> i64_range value \<and> bs = encode_i64 value"
  by (rule i64c.dec_iff)

end
