(* ===== verification/Tlv.thy ===== *)
theory Tlv
  imports Wire_Integer
begin

text \<open>
  Type-length-value framing: \<open>crates/tith-wire/src/tlv.rs\<close> and \<open>type_code.rs\<close>.  The first half
  is the owned codec (\<open>OwnedTlv\<close>, \<open>parse_sequence\<close>), the second the streaming reader
  \<open>TlvReader\<close> over an input that may deliver its bytes in any chunks, be interrupted, or fail.
\<close>

section \<open>Owned values\<close>

text \<open>
  The last two constructors are not in the source: \<open>CapacityPanic\<close> stands for the panic of
  \<open>Vec::with_capacity\<close> on a capacity beyond \<open>isize::MAX\<close>, \<open>ExpectPanic\<close> for that of the
  \<open>expect\<close> in \<open>read_next\<close>.
\<close>

datatype io_error = UnexpectedEof u64 | IoOther

datatype framing_error =
    FramingIo io_error
  | FramingInteger integer_error
  | InvalidType
  | TruncatedValue u64 u64
  | UnconsumedValue u64
  | LengthOverflow
  | CapacityPanic
  | ExpectPanic

definition require_defined_type :: "u64 \<Rightarrow> framing_error + unit" where
  "require_defined_type type_code = (if type_code = 0 then Inl InvalidType else Inr ())"

definition checked_capacity :: "u64 \<Rightarrow> nat \<Rightarrow> framing_error + nat" where
  "checked_capacity len maximum =
     (if unat len > maximum then Inl LengthOverflow else Inr (unat len))"

definition platform_capacity :: "u64 \<Rightarrow> framing_error + nat" where
  "platform_capacity len = checked_capacity len usize_max"

record tlv_header =
  hdr_type :: u64
  hdr_length :: u64

definition tlv_header_new :: "u64 \<Rightarrow> u64 \<Rightarrow> framing_error + tlv_header" where
  "tlv_header_new type_code len =
     and_then (require_defined_type type_code)
       (\<lambda>_. Inr \<lparr>hdr_type = type_code, hdr_length = len\<rparr>)"

definition tlv_header_encoded_len :: "tlv_header \<Rightarrow> nat" where
  "tlv_header_encoded_len h = length (encode_u64 (hdr_type h)) + length (encode_u64 (hdr_length h))"

text \<open>Writers are \<open>Vec<u8>\<close>: a write appends and never fails.\<close>

definition tlv_header_write_to :: "tlv_header \<Rightarrow> bytes \<Rightarrow> framing_error + bytes" where
  "tlv_header_write_to h writer = Inr (writer @ encode_u64 (hdr_type h) @ encode_u64 (hdr_length h))"

record owned_tlv =
  tlv_type :: u64
  tlv_value :: bytes

definition tlv_new :: "u64 \<Rightarrow> bytes \<Rightarrow> framing_error + owned_tlv" where
  "tlv_new type_code v =
     and_then (tlv_header_new type_code (of_nat (length v)))
       (\<lambda>_. Inr \<lparr>tlv_type = type_code, tlv_value = v\<rparr>)"

definition tlv_encoded_len :: "owned_tlv \<Rightarrow> nat" where
  "tlv_encoded_len t =
     length (encode_u64 (tlv_type t)) + length (encode_u64 (of_nat (length (tlv_value t))))
     + length (tlv_value t)"

definition tlv_write_to :: "owned_tlv \<Rightarrow> bytes \<Rightarrow> framing_error + bytes" where
  "tlv_write_to t writer =
     and_then (tlv_header_new (tlv_type t) (of_nat (length (tlv_value t)))) (\<lambda>h.
     and_then (tlv_header_write_to h writer) (\<lambda>writer'.
     Inr (writer' @ tlv_value t)))"

text \<open>\<open>encode\<close> unwraps the write with \<open>expect\<close>: an \<open>Inl\<close> here is that panic.\<close>

definition tlv_encode :: "owned_tlv \<Rightarrow> framing_error + bytes" where
  "tlv_encode t = tlv_write_to t []"

text \<open>One iteration of the loop of \<open>parse_sequence\<close>: the value and the bytes after it.\<close>

definition next_tlv :: "bytes \<Rightarrow> framing_error + (owned_tlv \<times> bytes)" where
  "next_tlv bs =
     and_then (map_err FramingInteger (decode_u64_prefix bs)) (\<lambda>(type_code, type_len).
     and_then (require_defined_type type_code) (\<lambda>_.
     let bs1 = drop type_len bs in
     and_then (map_err FramingInteger (decode_u64_prefix bs1)) (\<lambda>(len, length_len).
     let bs2 = drop length_len bs1 in
     and_then (platform_capacity len) (\<lambda>n.
     if length bs2 < n then Inl (TruncatedValue (of_nat n) (of_nat (length bs2)))
     else Inr (\<lparr>tlv_type = type_code, tlv_value = take n bs2\<rparr>, drop n bs2)))))"

lemma next_tlv_shorter: "next_tlv bs = Inr (t, r) \<Longrightarrow> length r < length bs"
proof -
  assume "next_tlv bs = Inr (t, r)"
  then obtain ty n m where "decode_u64_prefix bs = Inr (ty, n)" and r: "r = drop m bs" and "n \<le> m"
    by (auto simp: next_tlv_def result_simps Let_def split: if_splits prod.splits)
  moreover from this(1) have "0 < n" and "n \<le> length bs" by (auto dest: decode_prefix_canonical)
  ultimately show ?thesis by simp
qed

function parse_sequence :: "bytes \<Rightarrow> framing_error + owned_tlv list" where
  "parse_sequence bs =
     (if bs = [] then Inr []
      else and_then (next_tlv bs) (\<lambda>(t, rest).
           and_then (parse_sequence rest) (\<lambda>ts. Inr (t # ts))))"
  by pat_completeness auto
termination
  by (relation "measure length") (auto dest: next_tlv_shorter)

declare parse_sequence.simps [simp del]

definition tlv_children :: "owned_tlv \<Rightarrow> framing_error + owned_tlv list" where
  "tlv_children t = parse_sequence (tlv_value t)"

section \<open>The owned codec\<close>

text \<open>The bytes of a value, and what it takes to be representable.\<close>

definition tlv_bytes :: "owned_tlv \<Rightarrow> bytes" where
  "tlv_bytes t =
     encode_u64 (tlv_type t) @ encode_u64 (of_nat (length (tlv_value t))) @ tlv_value t"

definition wf_tlv :: "owned_tlv \<Rightarrow> bool" where
  "wf_tlv t \<longleftrightarrow> tlv_type t \<noteq> 0 \<and> length (tlv_value t) < 2 ^ 64"

abbreviation seq_bytes :: "owned_tlv list \<Rightarrow> bytes" where
  "seq_bytes ts \<equiv> concat (map tlv_bytes ts)"

lemma platform_capacity_total [simp]: "platform_capacity len = Inr (unat len)"
  using u64_less [of len] by (simp add: platform_capacity_def checked_capacity_def usize_max_def del: u64_less)

lemma tlv_write_to_eq:
  "tlv_write_to t w = (if tlv_type t = 0 then Inl InvalidType else Inr (w @ tlv_bytes t))"
  by (simp add: tlv_write_to_def tlv_header_new_def require_defined_type_def
      tlv_header_write_to_def tlv_bytes_def)

lemma tlv_encode_eq:
  "tlv_encode t = (if tlv_type t = 0 then Inl InvalidType else Inr (tlv_bytes t))"
  by (simp add: tlv_encode_def tlv_write_to_eq)

lemma length_tlv_bytes: "length (tlv_bytes t) = tlv_encoded_len t"
  by (simp add: tlv_bytes_def tlv_encoded_len_def)

definition next_tlv_len :: "bytes \<Rightarrow> framing_error + (owned_tlv \<times> nat)" where
  "next_tlv_len bs = and_then (next_tlv bs) (\<lambda>(t, r). Inr (t, length bs - length r))"

lemma next_tlv_bytes: "wf_tlv t \<Longrightarrow> next_tlv (tlv_bytes t @ rest) = Inr (t, rest)"
  by (simp add: wf_tlv_def next_tlv_def tlv_bytes_def decode_prefix_encode
      require_defined_type_def unat_of_nat Let_def)

lemma next_tlv_canonical: "next_tlv bs = Inr (t, r) \<Longrightarrow> wf_tlv t \<and> bs = tlv_bytes t @ r"
proof -
  assume "next_tlv bs = Inr (t, r)"
  then obtain ty n len m where
    ty: "decode_u64_prefix bs = Inr (ty, n)" and "ty \<noteq> 0"
    and len: "decode_u64_prefix (drop n bs) = Inr (len, m)"
    and fits: "unat len \<le> length (drop m (drop n bs))"
    and t: "t = \<lparr>tlv_type = ty, tlv_value = take (unat len) (drop m (drop n bs))\<rparr>"
    and r: "r = drop (unat len) (drop m (drop n bs))"
    by (auto simp: next_tlv_def result_simps Let_def require_defined_type_def
        split: if_splits prod.splits)
  have "take n bs = encode_u64 ty" and "take m (drop n bs) = encode_u64 len"
    using decode_prefix_canonical [OF ty] decode_prefix_canonical [OF len] by blast+
  then have "bs = encode_u64 ty @ encode_u64 len @ drop m (drop n bs)"
    by (metis append_take_drop_id)
  moreover have "drop m (drop n bs) = tlv_value t @ r" by (simp add: t r del: drop_drop)
  moreover have "length (tlv_value t) = unat len" using fits by (simp add: t)
  ultimately have "bs = tlv_bytes t @ r" by (simp add: tlv_bytes_def t)
  moreover have "wf_tlv t"
    using \<open>ty \<noteq> 0\<close> \<open>length (tlv_value t) = unat len\<close> by (simp add: wf_tlv_def t)
  ultimately show ?thesis by blast
qed

interpretation tlvc: prefix_codec tlv_bytes next_tlv_len wf_tlv
proof unfold_locales
  show "next_tlv_len (tlv_bytes x @ rest) = Inr (x, length (tlv_bytes x))" if "wf_tlv x" for x rest
    by (simp add: next_tlv_len_def next_tlv_bytes [OF that])
  show "wf_tlv x \<and> 0 < n \<and> n \<le> length bs \<and> take n bs = tlv_bytes x"
    if "next_tlv_len bs = Inr (x, n)" for bs x n
  proof -
    from that obtain r where r: "next_tlv bs = Inr (x, r)" "n = length bs - length r"
      by (auto simp: next_tlv_len_def and_then_eq_Inr)
    with next_tlv_canonical [OF r(1)] show ?thesis by (auto simp: tlv_bytes_def)
  qed
qed

lemma parse_sequence_bytes: "list_all wf_tlv ts \<Longrightarrow> parse_sequence (seq_bytes ts) = Inr ts"
proof (induction ts)
  case (Cons t ts)
  then show ?case
    using tlvc.enc_not_Nil [of t]
    by (subst parse_sequence.simps) (simp add: next_tlv_bytes)
qed (simp add: parse_sequence.simps)

lemma parse_sequence_canonical:
  "parse_sequence bs = Inr ts \<Longrightarrow> list_all wf_tlv ts \<and> seq_bytes ts = bs"
proof (induction bs arbitrary: ts rule: parse_sequence.induct)
  case (1 bs)
  show ?case
  proof (cases "bs = []")
    case True
    with "1.prems" show ?thesis by (simp add: parse_sequence.simps)
  next
    case False
    with "1.prems" obtain t r ts' where "next_tlv bs = Inr (t, r)" "parse_sequence r = Inr ts'" "ts = t # ts'"
      by (subst (asm) parse_sequence.simps) (auto simp: result_simps split: prod.splits)
    with "1.IH" [OF False, of "(t, r)" t r ts'] show ?thesis by (auto dest: next_tlv_canonical)
  qed
qed

interpretation seqc: value_codec seq_bytes parse_sequence "list_all wf_tlv"
  by unfold_locales (simp_all add: parse_sequence_bytes parse_sequence_canonical)

section \<open>The streaming reader\<close>

text \<open>
  An input is the list of what its successive \<open>read\<close> calls meet: a chunk of bytes (handed out
  in pieces no larger than the caller's buffer), an interruption, or a failure.  After the last
  event it is at its end and every call returns \<open>Ok(0)\<close>.
\<close>

datatype read_event = Data bytes | Interruption | Failure io_error

datatype read_result = ReadOk bytes | ReadInterrupted | ReadErr io_error

fun read_call :: "nat \<Rightarrow> read_event list \<Rightarrow> read_result \<times> read_event list" where
  "read_call n [] = (ReadOk [], [])"
| "read_call n (Data bs # es) =
     (ReadOk (take n bs), if length bs \<le> n then es else Data (drop n bs) # es)"
| "read_call n (Interruption # es) = (ReadInterrupted, es)"
| "read_call n (Failure e # es) = (ReadErr e, es)"

fun event_size :: "read_event \<Rightarrow> nat" where
  "event_size (Data bs) = Suc (length bs)"
| "event_size Interruption = 1"
| "event_size (Failure e) = 1"

abbreviation source_size :: "read_event list \<Rightarrow> nat" where
  "source_size es \<equiv> sum_list (map event_size es)"

lemma read_call_shrinks:
  assumes "read_call n es = (r, es')" and "n \<noteq> 0" and "r \<noteq> ReadOk []"
  shows "source_size es' < source_size es"
  using assms by (cases "(n, es)" rule: read_call.cases) (auto split: if_splits)

record tlv_reader =
  inner :: "read_event list"
  remaining :: u64
  type_invalid :: bool

definition reader_new :: "read_event list \<Rightarrow> tlv_reader" where
  "reader_new es = \<lparr>inner = es, remaining = 0, type_invalid = False\<rparr>"

definition ensure_active :: "bool \<Rightarrow> framing_error + unit" where
  "ensure_active invalid = (if invalid then Inl InvalidType else Inr ())"

text \<open>\<open>SequenceTypeState::accept\<close>: the outcome and the new state.\<close>

definition type_accept :: "bool \<Rightarrow> u64 \<Rightarrow> (framing_error + unit) \<times> bool" where
  "type_accept invalid type_code =
     (case ensure_active invalid of
        Inl e \<Rightarrow> (Inl e, invalid)
      | Inr _ \<Rightarrow> if type_code = 0 then (Inl InvalidType, True) else (Inr (), invalid))"

text \<open>
  \<open>read_integer\<close>: one byte per call into a ten-byte buffer; \<open>acc\<close> is the part already used.
\<close>

function read_integer ::
    "bool \<Rightarrow> bytes \<Rightarrow> read_event list \<Rightarrow> (framing_error + u64 option) \<times> read_event list" where
  "read_integer allow_eof acc es =
     (if length acc < 10 then
        case read_call 1 es of
          (ReadOk [], es') \<Rightarrow>
            if acc = [] \<and> allow_eof then (Inr None, es')
            else (Inl (FramingInteger Unterminated), es')
        | (ReadOk (b # _), es') \<Rightarrow>
            if b AND 0x80 = 0 then
              (map_err FramingInteger
                 (and_then (decode_u64_prefix (acc @ [b])) (\<lambda>(v, _). Inr (Some v))), es')
            else read_integer allow_eof (acc @ [b]) es'
        | (ReadInterrupted, es') \<Rightarrow> read_integer allow_eof acc es'
        | (ReadErr e, es') \<Rightarrow> (Inl (FramingIo e), es')
      else (Inl (FramingInteger Overflow), es))"
  by pat_completeness auto
termination
  by (relation "measure (\<lambda>(_, _, es). source_size es)")
     (auto simp: u64_pos dest!: read_call_shrinks [OF sym])

declare read_integer.simps [simp del]

definition read_next :: "tlv_reader \<Rightarrow> (framing_error + tlv_header option) \<times> tlv_reader" where
  "read_next r =
     (case ensure_active (type_invalid r) of
        Inl e \<Rightarrow> (Inl e, r)
      | Inr _ \<Rightarrow>
        if remaining r \<noteq> 0 then (Inl (UnconsumedValue (remaining r)), r)
        else
          (case read_integer True [] (inner r) of
             (Inl e, es) \<Rightarrow> (Inl e, r\<lparr>inner := es\<rparr>)
           | (Inr None, es) \<Rightarrow> (Inr None, r\<lparr>inner := es\<rparr>)
           | (Inr (Some type_code), es) \<Rightarrow>
             (case type_accept (type_invalid r) type_code of
                (Inl e, invalid) \<Rightarrow> (Inl e, r\<lparr>inner := es, type_invalid := invalid\<rparr>)
              | (Inr _, invalid) \<Rightarrow>
                (case read_integer False [] es of
                   (Inl e, es') \<Rightarrow> (Inl e, r\<lparr>inner := es', type_invalid := invalid\<rparr>)
                 | (Inr None, es') \<Rightarrow> (Inl ExpectPanic, r\<lparr>inner := es', type_invalid := invalid\<rparr>)
                 | (Inr (Some len), es') \<Rightarrow>
                     (Inr (Some \<lparr>hdr_type = type_code, hdr_length = len\<rparr>),
                      r\<lparr>inner := es', remaining := len, type_invalid := invalid\<rparr>)))))"

text \<open>
  \<open>TlvValue::read\<close> into a buffer of \<open>n\<close> bytes; the loop repeats only after an interruption.
\<close>

function value_read :: "nat \<Rightarrow> tlv_reader \<Rightarrow> (io_error + bytes) \<times> tlv_reader" where
  "value_read n r =
     (if remaining r = 0 \<or> n = 0 then (Inr [], r)
      else let allowed = min (unat (remaining r)) n in
        case read_call allowed (inner r) of
          (ReadOk [], es) \<Rightarrow> (Inl (UnexpectedEof (remaining r)), r\<lparr>inner := es\<rparr>)
        | (ReadOk bs, es) \<Rightarrow>
            (Inr bs, r\<lparr>inner := es, remaining := remaining r - of_nat (length bs)\<rparr>)
        | (ReadInterrupted, es) \<Rightarrow> value_read n (r\<lparr>inner := es\<rparr>)
        | (ReadErr e, es) \<Rightarrow> (Inl e, r\<lparr>inner := es\<rparr>))"
  by pat_completeness auto
termination
  by (relation "measure (\<lambda>(_, r). source_size (inner r))")
     (auto simp: u64_pos dest!: read_call_shrinks [OF sym])

declare value_read.simps [simp del]

lemma value_read_shrinks:
  "value_read n r = (Inr (b # bs), r') \<Longrightarrow> source_size (inner r') < source_size (inner r)"
proof (induction n r rule: value_read.induct)
  case (1 n r)
  have nz: "remaining r \<noteq> 0" "n \<noteq> 0"
    using "1.prems" by (auto simp: value_read.simps [of n r] split: if_splits)
  let ?a = "min (unat (remaining r)) n"
  have a: "?a \<noteq> 0" using nz by (simp add: u64_pos)
  obtain res es where call: "read_call ?a (inner r) = (res, es)" by force
  show ?case
  proof (cases res)
    case (ReadOk cs)
    then show ?thesis using "1.prems" nz call read_call_shrinks [OF call a]
      by (cases cs) (auto simp: value_read.simps [of n r] Let_def)
  next
    case ReadInterrupted
    then have "source_size (inner r') < source_size es"
      using "1.prems" "1.IH" nz call by (simp add: value_read.simps [of n r] Let_def)
    then show ?thesis using read_call_shrinks [OF call a] ReadInterrupted by simp
  next
    case (ReadErr e)
    then show ?thesis using "1.prems" nz call by (simp add: value_read.simps [of n r] Let_def)
  qed
qed

text \<open>
  \<open>Read::read_to_end\<close> of the standard library: it calls \<open>read\<close> until \<open>Ok(0)\<close>.  The buffer sizes
  it picks are not specified; \<open>buf\<close> gives the size used after so many bytes have been read.
\<close>

function read_to_end ::
    "(nat \<Rightarrow> nat) \<Rightarrow> bytes \<Rightarrow> tlv_reader \<Rightarrow> (io_error + bytes) \<times> tlv_reader" where
  "read_to_end buf acc r =
     (case value_read (buf (length acc)) r of
        (Inl e, r') \<Rightarrow> (Inl e, r')
      | (Inr [], r') \<Rightarrow> (Inr acc, r')
      | (Inr (b # bs), r') \<Rightarrow> read_to_end buf (acc @ b # bs) r')"
  by pat_completeness auto
termination
  by (relation "measure (\<lambda>(_, _, r). source_size (inner r))") (auto dest: value_read_shrinks [OF sym])

declare read_to_end.simps [simp del]

text \<open>
  \<open>Vec::with_capacity\<close> panics when the size exceeds \<open>isize::MAX\<close>.  A smaller size that the allocator
  refuses aborts the process; memory is not bounded here.
\<close>

definition with_capacity :: "nat \<Rightarrow> framing_error + bytes" where
  "with_capacity n = (if n < vec_limit then Inr [] else Inl CapacityPanic)"

definition read_owned ::
    "(nat \<Rightarrow> nat) \<Rightarrow> tlv_header \<Rightarrow> tlv_reader \<Rightarrow> (framing_error + owned_tlv) \<times> tlv_reader" where
  "read_owned buf h r =
     (case and_then (platform_capacity (hdr_length h)) with_capacity of
        Inl e \<Rightarrow> (Inl e, r)
      | Inr v0 \<Rightarrow>
        (case read_to_end buf v0 r of
           (Inl e, r') \<Rightarrow> (Inl (FramingIo e), r')
         | (Inr v, r') \<Rightarrow> (Inr \<lparr>tlv_type = hdr_type h, tlv_value = v\<rparr>, r')))"

text \<open>\<open>TlvValue::skip\<close> copies the value into a sink.\<close>

definition skip_value :: "(nat \<Rightarrow> nat) \<Rightarrow> tlv_reader \<Rightarrow> (framing_error + unit) \<times> tlv_reader" where
  "skip_value buf r =
     (case read_to_end buf [] r of
        (Inl e, r') \<Rightarrow> (Inl (FramingIo e), r')
      | (Inr _, r') \<Rightarrow> (Inr (), r'))"

section \<open>What a reader delivers\<close>

text \<open>
  The bytes an input delivers, and the inputs that deliver all of them: no failure, and no
  call that returns \<open>Ok(0)\<close> before the end.
\<close>

fun event_data :: "read_event \<Rightarrow> bytes" where
  "event_data (Data bs) = bs"
| "event_data _ = []"

fun live_event :: "read_event \<Rightarrow> bool" where
  "live_event (Data bs) = (bs \<noteq> [])"
| "live_event Interruption = True"
| "live_event (Failure e) = False"

abbreviation delivers :: "read_event list \<Rightarrow> bytes \<Rightarrow> bool" where
  "delivers es bs \<equiv> list_all live_event es \<and> concat (map event_data es) = bs"

lemma delivers_cases [consumes 2, case_names eof data retry]:
  assumes "delivers es bs" and "n \<noteq> 0"
  obtains (eof) "read_call n es = (ReadOk [], [])" "bs = []" "es = []"
  | (data) b cs es' bs' where "read_call n es = (ReadOk (b # cs), es')" "length (b # cs) \<le> n"
      "bs = b # cs @ bs'" "delivers es' bs'"
  | (retry) es' where "read_call n es = (ReadInterrupted, es')" "delivers es' bs"
proof (cases es)
  case Nil
  with assms eof show thesis by simp
next
  case (Cons e es')
  show thesis
  proof (cases e)
    case (Data ds)
    with assms Cons have "take n ds \<noteq> []" by simp
    then obtain b cs where hd: "take n ds = b # cs" by (cases "take n ds") auto
    then have bound: "length (b # cs) \<le> n" by (metis length_take min.cobounded2)
    show thesis
    proof (cases "length ds \<le> n")
      case True
      with hd have "ds = b # cs" by simp
      with True assms Cons Data hd bound show thesis
        by (intro data [of b cs es' "concat (map event_data es')"]) auto
    next
      case False
      have "b # cs @ drop n ds = ds" by (metis append_Cons append_take_drop_id hd)
      with False assms Cons Data hd bound show thesis
        by (intro data [of b cs "Data (drop n ds) # es'" "drop n ds @ concat (map event_data es')"]) auto
    qed
  next
    case Interruption
    with assms Cons retry show thesis by auto
  next
    case (Failure x)
    with assms Cons show thesis by auto
  qed
qed

lemma encode_u64_flags:
  assumes "i < length (encode_u64 v)"
  shows "encode_u64 v ! i AND 0x80 = 0 \<longleftrightarrow> Suc i = length (encode_u64 v)"
proof -
  obtain cs where enc: "encode_u64 v = cs @ [ucast (v AND 0x7f)]"
    and cs: "\<And>b. b \<in> set cs \<Longrightarrow> b AND 0x80 \<noteq> 0"
  proof
    show "encode_u64 v = (if drop_bit 7 v = 0 then [] else cont_bytes (drop_bit 7 v)) @
       [ucast (v AND 0x7f)]" by (rule encode_u64_split)
    have "b AND 0x80 \<noteq> 0" if "b \<in> set (cont_bytes w)" for b w
      using that
    proof (induction w rule: encode_groups.induct)
      case (1 v)
      then show ?case using group_flags(2) [of v]
        by (subst (asm) (2) cont_bytes_split) (auto split: if_splits)
    qed
    then show "b AND 0x80 \<noteq> 0"
      if "b \<in> set (if drop_bit 7 v = 0 then [] else cont_bytes (drop_bit 7 v))" for b
      using that by (auto split: if_splits)
  qed
  show ?thesis
  proof (cases "i < length cs")
    case True
    then show ?thesis using cs [of "cs ! i"] enc by (simp add: nth_append)
  next
    case False
    then show ?thesis using assms enc group_flags(1) [of v] by (simp add: nth_append)
  qed
qed

lemma read_integer_delivers:
  assumes "delivers es bs" and "acc @ bs = encode_u64 v @ rest"
    and "length acc < length (encode_u64 v)"
  shows "\<exists>es'. read_integer allow acc es = (Inr (Some v), es') \<and> delivers es' rest"
  using assms
proof (induction allow acc es arbitrary: bs rule: read_integer.induct)
  case (1 allow acc es)
  have short: "length acc < 10" using "1.prems" encode_u64_length [of v] by simp
  have "(1 :: nat) \<noteq> 0" by simp
  with "1.prems"(1) show ?case
  proof (cases rule: delivers_cases)
    case eof
    with "1.prems" show ?thesis by auto
  next
    case (data b cs es' bs')
    then have cs: "cs = []" by simp
    then have bs: "bs = b # bs'" using data by simp
    have b: "b = encode_u64 v ! length acc"
      using "1.prems"(2,3) bs by (metis nth_append nth_append_length)
    show ?thesis
    proof (cases "b AND 0x80 = 0")
      case True
      then have "Suc (length acc) = length (encode_u64 v)"
        using b encode_u64_flags "1.prems"(3) by blast
      then have "acc @ [b] = encode_u64 v \<and> bs' = rest"
        using "1.prems"(2) bs append_eq_append_conv [of "acc @ [b]" "encode_u64 v" bs' rest] by simp
      then show ?thesis
        using True data cs short decode_prefix_encode [of v "[]"]
        by (subst read_integer.simps) simp
    next
      case False
      then have "Suc (length acc) < length (encode_u64 v)"
        using b encode_u64_flags "1.prems"(3) by (metis Suc_lessI)
      then show ?thesis
        using "1.IH"(1) [OF short, of "ReadOk (b # cs)" es' "b # cs" b cs bs'] "1.prems"(2) bs False data cs short
        by (subst read_integer.simps) simp
    qed
  next
    case (retry es')
    then show ?thesis
      using "1.IH"(2) [OF short, of "ReadInterrupted" es' bs] "1.prems" short
      by (subst read_integer.simps) simp
  qed
qed

lemma value_read_delivers:
  assumes "delivers (inner r) (vs @ rest)" and "length vs = unat (remaining r)"
    and "n \<noteq> 0" and "vs \<noteq> []"
  shows "\<exists>b cs vs' es'. vs = (b # cs) @ vs' \<and> delivers es' (vs' @ rest) \<and>
      value_read n r = (Inr (b # cs), r\<lparr>inner := es', remaining := of_nat (length vs')\<rparr>)"
  using assms
proof (induction n r rule: value_read.induct)
  case (1 n r)
  have nz: "remaining r \<noteq> 0" using "1.prems"(2,4) by auto
  let ?a = "min (unat (remaining r)) n"
  have "?a \<noteq> 0" using nz "1.prems"(3) by (simp add: u64_pos)
  with "1.prems"(1) show ?case
  proof (cases rule: delivers_cases)
    case eof
    with "1.prems"(4) show ?thesis by simp
  next
    case (data b cs es' bs')
    then have fits: "length (b # cs) \<le> length vs" using "1.prems"(2) by simp
    have split: "vs @ rest = (b # cs) @ bs'" using data(3) by simp
    define vs' where "vs' = drop (length (b # cs)) vs"
    have "take (length (b # cs)) (vs @ rest) = b # cs" by (simp add: split)
    then have vs: "vs = (b # cs) @ vs'"
      using fits unfolding vs'_def by (metis append_take_drop_id take_append diff_is_0_eq take_0 append_Nil2)
    with split have bs': "bs' = vs' @ rest" by simp
    have "remaining r = of_nat (length vs)" by (simp add: "1.prems"(2))
    then have "remaining r - of_nat (length (b # cs)) = of_nat (length vs')"
      by (simp add: vs)
    then have "value_read n r = (Inr (b # cs), r\<lparr>inner := es', remaining := of_nat (length vs')\<rparr>)"
      using data(1) nz "1.prems"(3) by (subst value_read.simps) (simp add: Let_def)
    then show ?thesis using data(4) vs bs' by blast
  next
    case (retry es')
    then show ?thesis
      using "1.IH" [of ?a "ReadInterrupted" es'] "1.prems" nz
      by (subst value_read.simps) (simp add: Let_def)
  qed
qed

lemma read_to_end_delivers:
  assumes "delivers (inner r) (vs @ rest)" and "length vs = unat (remaining r)"
    and "\<And>n. buf n \<noteq> 0"
  shows "\<exists>es'. delivers es' rest \<and>
      read_to_end buf acc r = (Inr (acc @ vs), r\<lparr>inner := es', remaining := 0\<rparr>)"
  using assms
proof (induction buf acc r arbitrary: vs rule: read_to_end.induct)
  case (1 buf acc r)
  show ?case
  proof (cases "vs = []")
    case True
    then have "remaining r = 0" using "1.prems"(2) by (simp add: unat_eq_zero)
    then have "r\<lparr>inner := inner r, remaining := 0\<rparr> = r" by simp
    then show ?thesis using True "1.prems"(1) \<open>remaining r = 0\<close>
      by (subst read_to_end.simps, subst value_read.simps) (auto intro!: exI [of _ "inner r"])
  next
    case False
    from value_read_delivers [OF "1.prems"(1,2) "1.prems"(3) False] obtain b cs vs' es'
      where vs: "vs = (b # cs) @ vs'" and d: "delivers es' (vs' @ rest)"
        and read: "value_read (buf (length acc)) r =
          (Inr (b # cs), r\<lparr>inner := es', remaining := of_nat (length vs')\<rparr>)" by blast
    have "length vs' < 2 ^ 64"
      using "1.prems"(2) vs u64_less [of "remaining r"] by (simp del: u64_less)
    then have len: "length vs' = unat (of_nat (length vs') :: u64)" by (simp add: unat_of_nat)
    from "1.IH" [OF read [symmetric] refl refl, of vs'] d len "1.prems"(3)
    obtain es'' where "delivers es'' rest"
      "read_to_end buf (acc @ b # cs) (r\<lparr>inner := es', remaining := of_nat (length vs')\<rparr>) =
        (Inr ((acc @ b # cs) @ vs'), r\<lparr>inner := es'', remaining := 0\<rparr>)" by auto
    then show ?thesis using read vs by (subst read_to_end.simps) auto
  qed
qed

lemma read_next_header:
  assumes "delivers es (encode_u64 ty @ encode_u64 n @ rest)" and "ty \<noteq> 0"
  shows "\<exists>es'. delivers es' rest \<and>
    read_next (reader_new es) =
      (Inr (Some \<lparr>hdr_type = ty, hdr_length = n\<rparr>), \<lparr>inner = es', remaining = n, type_invalid = False\<rparr>)"
proof -
  from assms(1) obtain es1 where 1: "read_integer True [] es = (Inr (Some ty), es1)"
    and "delivers es1 (encode_u64 n @ rest)"
    using read_integer_delivers [of es _ "[]" ty "encode_u64 n @ rest" True] by auto
  then obtain es2 where "read_integer False [] es1 = (Inr (Some n), es2)" and "delivers es2 rest"
    using read_integer_delivers [of es1 _ "[]" n rest False] by auto
  with 1 assms(2) show ?thesis
    by (simp add: read_next_def reader_new_def ensure_active_def type_accept_def)
qed

lemma read_next_delivers:
  assumes "delivers es (tlv_bytes t @ rest)" and "wf_tlv t"
  shows "\<exists>es'. delivers es' (tlv_value t @ rest) \<and>
    read_next (reader_new es) =
      (Inr (Some \<lparr>hdr_type = tlv_type t, hdr_length = of_nat (length (tlv_value t))\<rparr>),
       \<lparr>inner = es', remaining = of_nat (length (tlv_value t)), type_invalid = False\<rparr>)"
  using read_next_header [of es "tlv_type t" "of_nat (length (tlv_value t))" "tlv_value t @ rest"] assms
  by (simp add: tlv_bytes_def wf_tlv_def)

lemma read_integer_eof: "delivers es [] \<Longrightarrow> \<exists>es'. read_integer True [] es = (Inr None, es')"
  by (induction es) (auto simp: read_integer.simps split: read_event.splits elim!: live_event.elims)

lemma integer_never_missing: "fst (read_integer False acc es) \<noteq> Inr None"
proof (induction "False" acc es rule: read_integer.induct)
  case (1 acc es)
  then show ?case
    by (subst read_integer.simps)
       (auto split: prod.splits read_result.splits list.splits simp: map_err_eq_Inr and_then_eq_Inr, blast)
qed

lemma read_owned_delivers:
  assumes "delivers es (v @ rest)" and "length v < vec_limit" and "\<And>n. buf n \<noteq> 0"
  shows "\<exists>es'. delivers es' rest \<and>
    read_owned buf \<lparr>hdr_type = ty, hdr_length = of_nat (length v)\<rparr>
      \<lparr>inner = es, remaining = of_nat (length v), type_invalid = False\<rparr> =
      (Inr \<lparr>tlv_type = ty, tlv_value = v\<rparr>, reader_new es')"
proof -
  have n: "unat (of_nat (length v) :: u64) = length v"
    using assms(2) by (simp add: vec_limit_def unat_of_nat)
  let ?r = "\<lparr>inner = es, remaining = of_nat (length v), type_invalid = False\<rparr>"
  from read_to_end_delivers [of ?r v rest buf "[]"] assms(1,3) n
  obtain es' where "delivers es' rest" "read_to_end buf [] ?r = (Inr v, ?r\<lparr>inner := es', remaining := 0\<rparr>)"
    by auto
  then show ?thesis using assms(2) n
    by (auto simp: read_owned_def with_capacity_def reader_new_def)
qed

text \<open>
  C19.  The streaming reader agrees with the owned codec however the bytes arrive: on any input
  that delivers the encoding of a value followed by \<open>rest\<close> --- in chunks of any sizes, with any
  interruptions, and whatever buffer sizes \<open>read_to_end\<close> uses --- \<open>read_next\<close> returns that value's
  header, \<open>read_owned\<close> then returns the value, and the reader is left as a fresh one on an input
  that delivers exactly \<open>rest\<close>.
\<close>

theorem reader_chunking_independent:
  assumes "delivers es (tlv_bytes t @ rest)" and "wf_tlv t" and "length (tlv_value t) < vec_limit"
    and "\<And>n. buf n \<noteq> 0"
  shows "\<exists>header r es'. read_next (reader_new es) = (Inr (Some header), r) \<and>
    header = \<lparr>hdr_type = tlv_type t, hdr_length = of_nat (length (tlv_value t))\<rparr> \<and>
    read_owned buf header r = (Inr t, reader_new es') \<and> delivers es' rest"
proof -
  obtain es1 where "delivers es1 (tlv_value t @ rest)" and
    "read_next (reader_new es) =
      (Inr (Some \<lparr>hdr_type = tlv_type t, hdr_length = of_nat (length (tlv_value t))\<rparr>),
       \<lparr>inner = es1, remaining = of_nat (length (tlv_value t)), type_invalid = False\<rparr>)"
    using read_next_delivers [OF assms(1,2)] by blast
  with read_owned_delivers [of es1 "tlv_value t" rest buf "tlv_type t"] assms(3,4) show ?thesis by auto
qed

text \<open>
  A single value of type 5 arriving in two chunks with an interruption between them.
\<close>

theorem reader_chunking_independent_witness:
  "\<exists>header r es'. read_next (reader_new [Data [5, 2], Interruption, Data [7, 9, 1]]) = (Inr (Some header), r) \<and>
    header = \<lparr>hdr_type = 5, hdr_length = 2\<rparr> \<and>
    read_owned (\<lambda>_. 1) header r = (Inr \<lparr>tlv_type = 5, tlv_value = [7, 9]\<rparr>, reader_new es') \<and>
    delivers es' [1]"
proof -
  have "encode_u64 5 = [5]" "encode_u64 2 = [2]" by code_simp+
  then show ?thesis
    using reader_chunking_independent [of "[Data [5, 2], Interruption, Data [7, 9, 1]]"
        "\<lparr>tlv_type = 5, tlv_value = [7, 9]\<rparr>" "[1]" "\<lambda>_. 1"]
    by (simp add: tlv_bytes_def wf_tlv_def vec_limit_def)
qed

lemma read_integer_not_panic: "fst (read_integer allow acc es) \<noteq> Inl ExpectPanic"
proof (induction allow acc es rule: read_integer.induct)
  case (1 allow acc es)
  then show ?case
    by (subst read_integer.simps)
       (auto split: prod.splits read_result.splits list.splits simp: map_err_eq_Inl, blast)
qed

lemma read_integer_not_invalid: "fst (read_integer allow acc es) \<noteq> Inl InvalidType"
proof (induction allow acc es rule: read_integer.induct)
  case (1 allow acc es)
  then show ?case
    by (subst read_integer.simps)
       (auto split: prod.splits read_result.splits list.splits simp: map_err_eq_Inl, blast)
qed

text \<open>
  The states \<open>read_next\<close> refuses in, on any input whatever: a reader that has met type
  zero answers \<open>InvalidType\<close> for ever and reads nothing more; one whose current value is not
  consumed answers \<open>UnconsumedValue\<close> and is unchanged; \<open>InvalidType\<close> is only ever answered by a
  reader left in that terminal state; and the \<open>expect\<close> on the length never panics.
\<close>

theorem read_next_discipline:
  assumes "read_next r = (res, r')"
  shows "(type_invalid r \<longrightarrow> res = Inl InvalidType \<and> r' = r) \<and>
    (\<not> type_invalid r \<and> remaining r \<noteq> 0 \<longrightarrow> res = Inl (UnconsumedValue (remaining r)) \<and> r' = r) \<and>
    (res = Inl InvalidType \<longrightarrow> type_invalid r') \<and>
    res \<noteq> Inl ExpectPanic"
proof (cases "type_invalid r \<or> remaining r \<noteq> 0")
  case True
  with assms show ?thesis
    by (cases "type_invalid r") (auto simp: read_next_def ensure_active_def)
next
  case False
  obtain res1 es1 where 1: "read_integer True [] (inner r) = (res1, es1)" by force
  obtain res2 es2 where 2: "read_integer False [] es1 = (res2, es2)" by force
  have "res1 \<noteq> Inl ExpectPanic" "res1 \<noteq> Inl InvalidType"
    using read_integer_not_panic [of True "[]" "inner r"] read_integer_not_invalid [of True "[]" "inner r"] 1
    by auto
  moreover have "res2 \<noteq> Inl ExpectPanic" "res2 \<noteq> Inl InvalidType" "res2 \<noteq> Inr None"
    using read_integer_not_panic [of False "[]" es1] read_integer_not_invalid [of False "[]" es1]
      integer_never_missing [of "[]" es1] 2 by auto
  ultimately show ?thesis using False assms 1 2
    by (cases res1; cases res2)
       (auto simp: read_next_def ensure_active_def type_accept_def split: if_splits option.splits)
qed

text \<open>A reader that has met type zero.\<close>

theorem read_next_discipline_witness:
  "read_next \<lparr>inner = [Data [1, 2]], remaining = 0, type_invalid = True\<rparr> =
     (Inl InvalidType, \<lparr>inner = [Data [1, 2]], remaining = 0, type_invalid = True\<rparr>)"
proof -
  let ?r = "\<lparr>inner = [Data [1, 2]], remaining = 0, type_invalid = True\<rparr>"
  have "read_next ?r = (fst (read_next ?r), snd (read_next ?r))" by simp
  from read_next_discipline [OF this] show ?thesis by (simp add: prod_eq_iff)
qed

text \<open>
  C16.  The owned codec is exact: \<open>parse_sequence\<close> accepts a byte string precisely when it is the
  concatenated encoding of values with non-zero types, and returns those values.  So every
  sequence round-trips, no two byte strings parse to the same sequence, and a non-minimal integer,
  a type zero, a truncated value or trailing bytes are always rejected.
\<close>

theorem parse_sequence_exact:
  "parse_sequence bs = Inr ts \<longleftrightarrow>
     list_all (\<lambda>t. tlv_type t \<noteq> 0 \<and> length (tlv_value t) < 2 ^ 64) ts \<and>
     try_map tlv_encode ts = Inr (map tlv_bytes ts) \<and> bs = concat (map tlv_bytes ts)"
proof -
  have "try_map tlv_encode ts = Inr (map tlv_bytes ts)" if "list_all wf_tlv ts"
    using that by (intro try_map_all_Inr) (auto simp: tlv_encode_eq wf_tlv_def list_all_iff)
  moreover have "wf_tlv = (\<lambda>t. tlv_type t \<noteq> 0 \<and> length (tlv_value t) < 2 ^ 64)"
    by (simp add: wf_tlv_def fun_eq_iff)
  ultimately show ?thesis using seqc.dec_iff [of bs ts] by metis
qed

section \<open>Values that are too long or cut short\<close>

text \<open>An input that ends inside a value: all it delivers is read, then the missing bytes are counted.\<close>

lemma value_read_short:
  assumes "delivers (inner r) vs" and "length vs < unat (remaining r)" and "n \<noteq> 0"
  shows "if vs = [] then \<exists>r'. value_read n r = (Inl (UnexpectedEof (remaining r)), r')
    else \<exists>b cs vs' es'. vs = (b # cs) @ vs' \<and> delivers es' vs' \<and>
      value_read n r = (Inr (b # cs), r\<lparr>inner := es', remaining := remaining r - of_nat (length (b # cs))\<rparr>)"
  using assms
proof (induction n r rule: value_read.induct)
  case (1 n r)
  have nz: "remaining r \<noteq> 0" using "1.prems"(2) by auto
  let ?a = "min (unat (remaining r)) n"
  have "?a \<noteq> 0" using nz "1.prems"(3) by (simp add: u64_pos)
  with "1.prems"(1) show ?case
  proof (cases rule: delivers_cases)
    case eof
    then show ?thesis using nz "1.prems"(3) by (subst value_read.simps) (simp add: Let_def)
  next
    case (data b cs es' bs')
    then have "value_read n r = (Inr (b # cs), r\<lparr>inner := es', remaining := remaining r - of_nat (length (b # cs))\<rparr>)"
      using nz "1.prems"(3) by (subst value_read.simps) (simp add: Let_def)
    with data(3,4) show ?thesis by auto
  next
    case (retry es')
    then have "value_read n r = value_read n (r\<lparr>inner := es'\<rparr>)"
      using nz "1.prems"(3) by (subst value_read.simps) (simp add: Let_def)
    with "1.IH" [of ?a "ReadInterrupted" es'] retry "1.prems" nz show ?thesis by (cases "vs = []") simp_all
  qed
qed

lemma unat_minus_of_nat: "k < unat n \<Longrightarrow> unat (n - of_nat k) = unat n - k" for n :: u64
proof -
  assume k: "k < unat n"
  then have "unat (of_nat k :: u64) = k" using u64_less [of n] by (simp add: unat_of_nat del: u64_less)
  with k show ?thesis by (simp add: unat_sub word_le_nat_alt)
qed

lemma read_to_end_short:
  assumes "delivers (inner r) vs" and "length vs < unat (remaining r)" and "\<And>n. buf n \<noteq> 0"
  shows "fst (read_to_end buf acc r) = Inl (UnexpectedEof (remaining r - of_nat (length vs)))"
  using assms
proof (induction buf acc r arbitrary: vs rule: read_to_end.induct)
  case (1 buf acc r)
  note short = value_read_short [OF "1.prems"(1,2) "1.prems"(3) [of "length acc"]]
  show ?case
  proof (cases "vs = []")
    case True
    with short show ?thesis by (subst read_to_end.simps) auto
  next
    case False
    with short obtain b cs vs' es' where vs: "vs = (b # cs) @ vs'" and d: "delivers es' vs'"
      and read: "value_read (buf (length acc)) r =
        (Inr (b # cs), r\<lparr>inner := es', remaining := remaining r - of_nat (length (b # cs))\<rparr>)" by auto
    let ?r = "r\<lparr>inner := es', remaining := remaining r - of_nat (length (b # cs))\<rparr>"
    have "unat (remaining ?r) = unat (remaining r) - length (b # cs)"
      using unat_minus_of_nat [of "length (b # cs)" "remaining r"] "1.prems"(2) vs by simp
    with "1.prems"(2) vs have less: "length vs' < unat (remaining ?r)" by simp
    have "fst (read_to_end buf (acc @ b # cs) ?r) = Inl (UnexpectedEof (remaining ?r - of_nat (length vs')))"
      using "1.IH" [OF read [symmetric] refl refl _ less "1.prems"(3)] d by simp
    then show ?thesis using read vs by (subst read_to_end.simps) (simp add: diff_diff_eq)
  qed
qed

text \<open>
  C29.  What a received header leads to.  However the bytes arrive, after a header that declares \<open>n\<close>
  bytes \<open>read_owned\<close> has exactly three outcomes.  For \<open>n\<close> of \<open>2^63\<close> and above it panics with a capacity
  overflow, whatever follows and before a byte of the value is read: a header of eleven bytes is
  enough.  Otherwise, when the input holds the \<open>n\<close> bytes, it returns them and leaves the reader at the
  rest; and when the input ends before, it is the error that counts the missing bytes.
\<close>

theorem read_owned_outcome:
  assumes "delivers es (encode_u64 ty @ encode_u64 n @ rest)" and "ty \<noteq> 0" and "\<And>k. buf k \<noteq> 0"
  shows "\<exists>r. read_next (reader_new es) = (Inr (Some \<lparr>hdr_type = ty, hdr_length = n\<rparr>), r) \<and>
    (let res = read_owned buf \<lparr>hdr_type = ty, hdr_length = n\<rparr> r in
     if 2 ^ 63 \<le> unat n then fst res = Inl CapacityPanic
     else if unat n \<le> length rest
     then \<exists>es'. res = (Inr \<lparr>tlv_type = ty, tlv_value = take (unat n) rest\<rparr>, reader_new es') \<and>
       delivers es' (drop (unat n) rest)
     else fst res = Inl (FramingIo (UnexpectedEof (n - of_nat (length rest)))))"
proof -
  obtain es1 where d: "delivers es1 rest"
    and "read_next (reader_new es) =
      (Inr (Some \<lparr>hdr_type = ty, hdr_length = n\<rparr>), \<lparr>inner = es1, remaining = n, type_invalid = False\<rparr>)"
    using read_next_header [OF assms(1,2)] by blast
  moreover let ?r = "\<lparr>inner = es1, remaining = n, type_invalid = False\<rparr>" and ?h = "\<lparr>hdr_type = ty, hdr_length = n\<rparr>"
  have "fst (read_owned buf ?h ?r) = Inl CapacityPanic" if "2 ^ 63 \<le> unat n"
    using that by (simp add: read_owned_def with_capacity_def vec_limit_def)
  moreover have "\<exists>es'. read_owned buf ?h ?r = (Inr \<lparr>tlv_type = ty, tlv_value = take (unat n) rest\<rparr>, reader_new es') \<and>
      delivers es' (drop (unat n) rest)" if "\<not> 2 ^ 63 \<le> unat n" "unat n \<le> length rest"
    using read_owned_delivers [of es1 "take (unat n) rest" "drop (unat n) rest" buf ty] that d assms(3)
    by (auto simp: vec_limit_def)
  moreover have "fst (read_owned buf ?h ?r) = Inl (FramingIo (UnexpectedEof (n - of_nat (length rest))))"
    if "\<not> 2 ^ 63 \<le> unat n" "\<not> unat n \<le> length rest"
    using read_to_end_short [of ?r rest buf "[]"] that d assms(3)
    by (auto simp: read_owned_def with_capacity_def vec_limit_def split: prod.splits)
  ultimately show ?thesis by (simp add: Let_def)
qed

text \<open>A header that declares five bytes, with two after it.\<close>

theorem read_owned_outcome_witness:
  "\<exists>r. read_next (reader_new [Data [7, 5, 1], Interruption, Data [2]]) = (Inr (Some \<lparr>hdr_type = 7, hdr_length = 5\<rparr>), r) \<and>
    fst (read_owned (\<lambda>_. 1) \<lparr>hdr_type = 7, hdr_length = 5\<rparr> r) = Inl (FramingIo (UnexpectedEof 3))"
proof -
  have "encode_u64 7 = [7]" "encode_u64 5 = [5]" by code_simp+
  then show ?thesis
    using read_owned_outcome [of "[Data [7, 5, 1], Interruption, Data [2]]" 7 5 "[1, 2]" "\<lambda>_. 1"] by simp
qed

end
