(* ===== verification/Utf8.thy ===== *)
theory Utf8
  imports Prelude
begin

text \<open>
  The part of Rust's string library the sources use: validation of UTF-8
  (\<open>std::str::from_utf8\<close>), decoding to Unicode scalar values (\<open>str::chars\<close>), and searching
  and splitting at ASCII characters.  A \<open>str\<close> is the list of its bytes and a \<open>char\<close> is its
  code point.
\<close>

section \<open>Decoding\<close>

definition utf8_cont :: "u8 \<Rightarrow> bool" where
  "utf8_cont b \<longleftrightarrow> 0x80 \<le> unat b \<and> unat b \<le> 0xBF"

text \<open>
  One character off the front: its code point and the remaining bytes.  Overlong forms,
  surrogates and values beyond \<open>U+10FFFF\<close> are refused, as the standard library does.
\<close>

fun utf8_char :: "bytes \<Rightarrow> (nat \<times> bytes) option" where
  "utf8_char [] = None"
| "utf8_char (b0 # r) =
     (let x = unat b0 in
      if x < 0x80 then Some (x, r)
      else if 0xC2 \<le> x \<and> x \<le> 0xDF then
        (case r of
           b1 # r1 \<Rightarrow>
             if utf8_cont b1 then Some ((x - 0xC0) * 64 + (unat b1 - 0x80), r1) else None
         | _ \<Rightarrow> None)
      else if 0xE0 \<le> x \<and> x \<le> 0xEF then
        (case r of
           b1 # b2 # r2 \<Rightarrow>
             if utf8_cont b1 \<and> utf8_cont b2 \<and> (x = 0xE0 \<longrightarrow> 0xA0 \<le> unat b1)
                \<and> (x = 0xED \<longrightarrow> unat b1 \<le> 0x9F)
             then Some ((x - 0xE0) * 4096 + (unat b1 - 0x80) * 64 + (unat b2 - 0x80), r2)
             else None
         | _ \<Rightarrow> None)
      else if 0xF0 \<le> x \<and> x \<le> 0xF4 then
        (case r of
           b1 # b2 # b3 # r3 \<Rightarrow>
             if utf8_cont b1 \<and> utf8_cont b2 \<and> utf8_cont b3 \<and> (x = 0xF0 \<longrightarrow> 0x90 \<le> unat b1)
                \<and> (x = 0xF4 \<longrightarrow> unat b1 \<le> 0x8F)
             then Some ((x - 0xF0) * 262144 + (unat b1 - 0x80) * 4096
                          + (unat b2 - 0x80) * 64 + (unat b3 - 0x80), r3)
             else None
         | _ \<Rightarrow> None)
      else None)"

lemma utf8_char_shorter: "utf8_char bs = Some (c, r) \<Longrightarrow> length r < length bs"
  by (cases bs) (auto simp: Let_def split: if_splits list.splits)

function chars_of :: "bytes \<Rightarrow> nat list option" where
  "chars_of bs =
     (if bs = [] then Some []
      else case utf8_char bs of
             None \<Rightarrow> None
           | Some (c, r) \<Rightarrow> map_option (\<lambda>cs. c # cs) (chars_of r))"
  by pat_completeness auto
termination
  by (relation "measure length") (auto dest: utf8_char_shorter)

declare chars_of.simps [simp del]

definition valid_utf8 :: "bytes \<Rightarrow> bool" where
  "valid_utf8 bs \<longleftrightarrow> chars_of bs \<noteq> None"

definition from_utf8 :: "bytes \<Rightarrow> unit + str" where
  "from_utf8 bs = (if valid_utf8 bs then Inr bs else Inl ())"

definition chars :: "str \<Rightarrow> nat list" where
  "chars s = (case chars_of s of None \<Rightarrow> [] | Some cs \<Rightarrow> cs)"

definition ascii :: "bytes \<Rightarrow> bool" where
  "ascii bs \<longleftrightarrow> list_all (\<lambda>b. unat b < 128) bs"

section \<open>Searching and splitting\<close>

text \<open>
  \<open>str::find\<close> for ASCII patterns returns the offset of the first match; the callers slice at it.
  \<open>find_split p s\<close> is the pair of slices before the match and from the match on.
\<close>

definition find_split :: "(u8 \<Rightarrow> bool) \<Rightarrow> str \<Rightarrow> str \<times> str" where
  "find_split p s = (takeWhile (\<lambda>b. \<not> p b) s, dropWhile (\<lambda>b. \<not> p b) s)"

text \<open>\<open>str::split\<close> at an ASCII character: one piece more than there are separators.\<close>

fun split_at :: "u8 \<Rightarrow> str \<Rightarrow> str list" where
  "split_at c [] = [[]]"
| "split_at c (b # bs) =
     (if b = c then [] # split_at c bs
      else case split_at c bs of
             [] \<Rightarrow> [[b]]
           | p # ps \<Rightarrow> (b # p) # ps)"

text \<open>\<open>[T]::join\<close> with a one-byte separator.\<close>

fun join_with :: "u8 \<Rightarrow> str list \<Rightarrow> str" where
  "join_with c [] = []"
| "join_with c [s] = s"
| "join_with c (s # t # ts) = s @ c # join_with c (t # ts)"

section \<open>Lemmas\<close>

lemma chars_of_Nil [simp]: "chars_of [] = Some []"
  by (simp add: chars_of.simps)

lemma chars_of_ascii_Cons:
  "unat b < 128 \<Longrightarrow> chars_of (b # bs) = map_option (\<lambda>cs. unat b # cs) (chars_of bs)"
  by (simp add: chars_of.simps [of "b # bs"])

lemma chars_of_ascii: "ascii bs \<Longrightarrow> chars_of bs = Some (map unat bs)"
  by (induction bs) (auto simp: ascii_def chars_of_ascii_Cons)

lemma utf8_char_append: "utf8_char bs = Some (c, r) \<Longrightarrow> utf8_char (bs @ xs) = Some (c, r @ xs)"
  by (cases bs) (auto simp: Let_def split: if_splits list.splits)

lemma chars_of_step:
  "chars_of bs = Some cs \<Longrightarrow> bs \<noteq> [] \<Longrightarrow>
   \<exists>c r cs'. utf8_char bs = Some (c, r) \<and> chars_of r = Some cs' \<and> cs = c # cs'"
  by (subst (asm) chars_of.simps) (auto split: option.splits)

lemma chars_of_char:
  "utf8_char bs = Some (c, r) \<Longrightarrow> chars_of bs = map_option (\<lambda>cs. c # cs) (chars_of r)"
  by (subst chars_of.simps) auto

lemma chars_of_append:
  "chars_of a = Some ca \<Longrightarrow> chars_of (a @ b) = map_option (\<lambda>cs. ca @ cs) (chars_of b)"
proof (induction "length a" arbitrary: a ca rule: less_induct)
  case less
  show ?case
  proof (cases "a = []")
    case True
    with less.prems show ?thesis by (cases "chars_of b") simp_all
  next
    case False
    with less.prems obtain c r cs where step: "utf8_char a = Some (c, r)"
      and rest: "chars_of r = Some cs" and ca: "ca = c # cs"
      using chars_of_step by blast
    have "chars_of (a @ b) = map_option (\<lambda>cs. c # cs) (chars_of (r @ b))"
      by (rule chars_of_char) (rule utf8_char_append [OF step])
    also have "chars_of (r @ b) = map_option (\<lambda>xs. cs @ xs) (chars_of b)"
      using utf8_char_shorter [OF step] rest by (rule less.hyps)
    finally show ?thesis by (cases "chars_of b") (simp_all add: ca)
  qed
qed

text \<open>
  A character is a nonempty run of bytes which decides it alone: one byte of the ASCII range,
  or bytes that are all above it.
\<close>

definition char_run :: "bytes \<Rightarrow> nat \<Rightarrow> bool" where
  "char_run p c \<longleftrightarrow> p \<noteq> [] \<and> (\<forall>r. utf8_char (p @ r) = Some (c, r)) \<and>
     (p = [of_nat c] \<and> c < 128 \<or> (\<forall>b\<in>set p. 128 \<le> unat b) \<and> 128 \<le> c)"

lemma utf8_char_run:
  assumes "utf8_char bs = Some (c, r)"
  obtains p where "bs = p @ r" and "char_run p c"
proof (cases bs)
  case (Cons b0 r0)
  show ?thesis
  proof (cases "unat b0 < 128")
    case True
    with assms Cons have "bs = [b0] @ r" and "c = unat b0" by (auto simp: Let_def)
    moreover from True this have "char_run [b0] c" by (simp add: char_run_def)
    ultimately show ?thesis using that by blast
  next
    case False
    with assms Cons consider
      b1 where "bs = [b0, b1] @ r" "char_run [b0, b1] c"
    | b1 b2 where "bs = [b0, b1, b2] @ r" "char_run [b0, b1, b2] c"
    | b1 b2 b3 where "bs = [b0, b1, b2, b3] @ r" "char_run [b0, b1, b2, b3] c"
      by (auto simp: Let_def utf8_cont_def char_run_def split: if_splits list.splits)
    then show ?thesis using that by cases auto
  qed
qed (use assms in simp)

lemma ascii_char_iff:
  assumes "chars_of s = Some cs" and "n < 128"
  shows "n \<in> set cs \<longleftrightarrow> (\<exists>b\<in>set s. unat b = n)"
  using assms(1)
proof (induction "length s" arbitrary: s cs rule: less_induct)
  case less
  show ?case
  proof (cases "s = []")
    case True
    with less.prems show ?thesis by simp
  next
    case False
    with less.prems obtain c r cs' where step: "utf8_char s = Some (c, r)"
      and rest: "chars_of r = Some cs'" and cs: "cs = c # cs'"
      using chars_of_step by blast
    have "n \<in> set cs' \<longleftrightarrow> (\<exists>b\<in>set r. unat b = n)"
      using utf8_char_shorter [OF step] rest by (rule less.hyps)
    moreover obtain p where "s = p @ r" and "char_run p c" using utf8_char_run [OF step] .
    ultimately show ?thesis using assms(2) cs
      by (fastforce simp: char_run_def unat_of_nat)
  qed
qed

lemma chars_of_run: "char_run p c \<Longrightarrow> chars_of (p @ r) = map_option (\<lambda>cs. c # cs) (chars_of r)"
  by (rule chars_of_char) (simp add: char_run_def)

lemma chars_of_split:
  assumes "chars_of (a @ c # b) = Some cs" and "unat c < 128"
  shows "\<exists>ca cb. chars_of a = Some ca \<and> chars_of b = Some cb \<and> cs = ca @ unat c # cb"
  using assms(1)
proof (induction "length a" arbitrary: a cs rule: less_induct)
  case less
  show ?case
  proof (cases "a = []")
    case True
    with less.prems assms(2) show ?thesis by (auto simp: chars_of_ascii_Cons)
  next
    case False
    with less.prems obtain x r cs' where step: "utf8_char (a @ c # b) = Some (x, r)"
      and rest: "chars_of r = Some cs'" and cs: "cs = x # cs'"
      using chars_of_step [of "a @ c # b"] by blast
    obtain p where p: "a @ c # b = p @ r" and run: "char_run p x" using utf8_char_run [OF step] .
    have "length p \<le> length a"
    proof (rule ccontr)
      assume "\<not> length p \<le> length a"
      then obtain q where "p = a @ c # q"
        using p by (auto simp: append_eq_append_conv2 Cons_eq_append_conv)
      with run assms(2) False show False by (auto simp: char_run_def append_eq_Cons_conv)
    qed
    then obtain a' where a': "a = p @ a'" "r = a' @ c # b"
      using p by (auto simp: append_eq_append_conv2)
    with run have "length a' < length a" by (simp add: char_run_def)
    from less.hyps [OF this] rest a'(2) obtain ca cb where
      "chars_of a' = Some ca" "chars_of b = Some cb" "cs' = ca @ unat c # cb" by blast
    with run cs a'(1) show ?thesis by (simp add: chars_of_run)
  qed
qed

section \<open>Valid strings\<close>

lemma valid_utf8_Nil [simp]: "valid_utf8 []"
  by (simp add: valid_utf8_def)

lemma valid_utf8_ascii: "ascii s \<Longrightarrow> valid_utf8 s"
  by (simp add: valid_utf8_def chars_of_ascii)

lemma valid_utf8_append: "valid_utf8 a \<Longrightarrow> valid_utf8 (a @ b) \<longleftrightarrow> valid_utf8 b"
  by (auto simp: valid_utf8_def chars_of_append)

lemma valid_utf8_split:
  "valid_utf8 (a @ c # b) \<Longrightarrow> unat c < 128 \<Longrightarrow> valid_utf8 a \<and> valid_utf8 b"
  using chars_of_split [of a c b] by (auto simp: valid_utf8_def)

lemma chars_append: "valid_utf8 a \<Longrightarrow> valid_utf8 b \<Longrightarrow> chars (a @ b) = chars a @ chars b"
  by (auto simp: valid_utf8_def chars_def chars_of_append)

lemma chars_eq_Nil: "valid_utf8 s \<Longrightarrow> chars s = [] \<longleftrightarrow> s = []"
  using chars_of_step by (fastforce simp: valid_utf8_def chars_def)

lemma in_chars_ascii: "valid_utf8 s \<Longrightarrow> n < 128 \<Longrightarrow> n \<in> set (chars s) \<longleftrightarrow> (\<exists>b\<in>set s. unat b = n)"
  by (auto simp: valid_utf8_def chars_def ascii_char_iff)

lemma from_utf8_eq_Inr [result_simps]: "from_utf8 bs = Inr s \<longleftrightarrow> valid_utf8 bs \<and> s = bs"
  by (auto simp: from_utf8_def)

section \<open>Splitting and joining\<close>

lemma split_at_not_Nil [simp]: "split_at c s \<noteq> []"
  by (induction s) (auto split: list.splits)

lemma split_at_none: "c \<notin> set s \<Longrightarrow> split_at c s = [s]"
  by (induction s) auto

lemma split_at_append: "c \<notin> set p \<Longrightarrow> split_at c (p @ c # s) = p # split_at c s"
  by (induction p) auto

lemma join_with_Cons: "ts \<noteq> [] \<Longrightarrow> join_with c (s # ts) = s @ c # join_with c ts"
  by (cases ts) auto

lemma split_at_join:
  "ps \<noteq> [] \<Longrightarrow> (\<And>p. p \<in> set ps \<Longrightarrow> c \<notin> set p) \<Longrightarrow> split_at c (join_with c ps) = ps"
proof (induction ps)
  case (Cons p ps)
  then show ?case by (cases "ps = []") (simp_all add: split_at_none join_with_Cons split_at_append)
qed simp

lemma find_split_found:
  "(\<And>b. b \<in> set a \<Longrightarrow> \<not> p b) \<Longrightarrow> p c \<Longrightarrow> find_split p (a @ c # s) = (a, c # s)"
  by (induction a) (auto simp: find_split_def)

lemma find_split_none: "(\<And>b. b \<in> set a \<Longrightarrow> \<not> p b) \<Longrightarrow> find_split p a = (a, [])"
  by (induction a) (auto simp: find_split_def)

lemma find_split_append: "find_split p s = (a, r) \<Longrightarrow> s = a @ r"
  by (auto simp: find_split_def)

lemma find_split_before: "find_split p s = (a, r) \<Longrightarrow> b \<in> set a \<Longrightarrow> \<not> p b"
  by (auto simp: find_split_def dest: set_takeWhileD)

lemma find_split_at: "find_split p s = (a, c # r) \<Longrightarrow> p c"
  by (auto simp: find_split_def dropWhile_eq_Cons_conv)

end
