(* ===== verification/Decimal.thy ===== *)
theory Decimal
  imports Utf8
begin

text \<open>
  Decimal text as the standard library writes and reads it: \<open>Display\<close> of the integers the
  sources print and \<open>str::parse\<close> on strings of digits.  Shared by addresses and item formats.
\<close>

section \<open>Printing and parsing\<close>

text \<open>\<open>Display\<close> of the unsigned integers and of \<open>i32\<close>, and \<open>str::parse::<i32>\<close> on a string of digits.\<close>

fun show_nat :: "nat \<Rightarrow> str" where
  "show_nat n = (if n < 10 then [48 + of_nat n] else show_nat (n div 10) @ [48 + of_nat (n mod 10)])"

declare show_nat.simps [simp del]

definition show_int :: "int \<Rightarrow> str" where
  "show_int i = (if i < 0 then 45 # show_nat (nat (- i)) else show_nat (nat i))"

definition is_digit :: "u8 \<Rightarrow> bool" where
  "is_digit b \<longleftrightarrow> 48 \<le> unat b \<and> unat b \<le> 57"

definition digits_value :: "str \<Rightarrow> nat" where
  "digits_value s = foldl (\<lambda>v b. v * 10 + (unat b - 48)) 0 s"

definition i32_max :: int where
  "i32_max = 2147483647"

definition parse_i32 :: "str \<Rightarrow> int option" where
  "parse_i32 s = (if int (digits_value s) \<le> i32_max then Some (int (digits_value s)) else None)"

section \<open>Canonical decimals\<close>

lemma digits_value_snoc [simp]: "digits_value (s @ [b]) = digits_value s * 10 + (unat b - 48)"
  by (simp add: digits_value_def)

lemma digits_value_Nil [simp]: "digits_value [] = 0"
  by (simp add: digits_value_def)

lemma unat_digit: "n < 10 \<Longrightarrow> unat (48 + of_nat n :: u8) = 48 + n"
  by (simp add: unat_word_ariths unat_of_nat)

lemma show_nat_digits: "b \<in> set (show_nat n) \<Longrightarrow> is_digit b"
proof (induction n rule: show_nat.induct)
  case (1 n)
  then show ?case
    using unat_digit [of "n mod 10"] unat_digit [of n]
    by (subst (asm) (2) show_nat.simps) (auto simp: is_digit_def split: if_splits)
qed

lemma digits_value_show [simp]: "digits_value (show_nat n) = n"
proof (induction n rule: show_nat.induct)
  case (1 n)
  show ?case
  proof (cases "n < 10")
    case True
    then show ?thesis using digits_value_snoc [of "[]"] unat_digit [of n]
      by (simp add: show_nat.simps [of n])
  next
    case False
    then show ?thesis using 1 unat_digit [of "n mod 10"] by (simp add: show_nat.simps [of n])
  qed
qed

lemma show_nat_not_Nil [simp]: "show_nat n \<noteq> []"
  by (simp add: show_nat.simps [of n])

lemma show_nat_head: "0 < n \<Longrightarrow> hd (show_nat n) \<noteq> 48"
proof (induction n rule: show_nat.induct)
  case (1 n)
  show ?case
  proof (cases "n < 10")
    case True
    then have "unat (48 + of_nat n :: u8) \<noteq> unat (48 :: u8)" using "1.prems" unat_digit [of n] by simp
    then have "(48 + of_nat n :: u8) \<noteq> 48" by metis
    with True show ?thesis by (simp add: show_nat.simps [of n])
  next
    case False
    then show ?thesis using "1.IH" by (simp add: show_nat.simps [of n])
  qed
qed

lemma show_digits_value:
  assumes "s \<noteq> []" and "list_all is_digit s" and "hd s \<noteq> 48"
  shows "show_nat (digits_value s) = s \<and> 0 < digits_value s"
  using assms
proof (induction s rule: rev_induct)
  case (snoc b s)
  have b: "48 \<le> unat b" "unat b \<le> 57"
    using snoc.prems by (simp_all add: is_digit_def)
  have rebuild: "48 + of_nat (unat b - 48) = b"
    using b by (simp add: word_unat_eq_iff unat_word_ariths unat_of_nat)
  let ?d = "unat b - 48"
  have d: "?d < 10" "48 + ?d = unat b" using b by auto
  show ?case
  proof (cases "s = []")
    case True
    have "unat b \<noteq> 48" using snoc.prems(3) True by (auto simp: word_unat_eq_iff)
    then show ?thesis using True d rebuild by (simp add: show_nat.simps [of ?d] digits_value_def)
  next
    case False
    then have IH: "show_nat (digits_value s) = s" "0 < digits_value s" using snoc by auto
    have dm: "(v * 10 + ?d) div 10 = v" "(v * 10 + ?d) mod 10 = ?d" for v
      using d(1) by auto
    have "show_nat (v * 10 + ?d) = show_nat v @ [b]" if "0 < v" for v
      using that dm [of v] rebuild by (subst show_nat.simps) simp
    then show ?thesis using IH by simp
  qed
qed simp

lemma show_nat_inject [simp]: "show_nat m = show_nat n \<longleftrightarrow> m = n"
  by (metis digits_value_show)

end
