(* ===== verification/Address.thy ===== *)
theory Address
  imports Decimal "HOL-Library.List_Lexorder" "HOL-Library.Product_Lexorder"
begin

text \<open>
  Five-dimensional addresses: \<open>crates/tith-wire/src/address.rs\<close>.  Canonical text, its parser, the
  order, the trimmed lists and collections of addresses, and the address patterns.
\<close>

section \<open>Addresses\<close>

datatype address_error =
    EmptyDomain
  | InvalidDomain
  | MissingZone
  | InvalidNumber
  | OutOfRange
  | NonCanonicalAddress
  | InvalidOrder
  | InvalidWildcard

record address =
  domain :: str
  zone :: int
  net :: int
  node :: int
  point :: u16

definition tts_whitespace :: "nat \<Rightarrow> bool" where
  "tts_whitespace c \<longleftrightarrow>
     0x9 \<le> c \<and> c \<le> 0xd \<or> c = 0x20 \<or> c = 0x85 \<or> c = 0xa0 \<or> c = 0x1680 \<or>
     0x2000 \<le> c \<and> c \<le> 0x200a \<or> c = 0x2028 \<or> c = 0x2029 \<or> c = 0x202f \<or> c = 0x205f \<or> c = 0x3000"

text \<open>\<open>char::is_control\<close>: the general category \<open>Cc\<close>.\<close>

definition is_control :: "nat \<Rightarrow> bool" where
  "is_control c \<longleftrightarrow> c \<le> 0x1f \<or> 0x7f \<le> c \<and> c \<le> 0x9f"

definition validate_domain :: "str \<Rightarrow> address_error + unit" where
  "validate_domain d =
     (if d = [] then Inl EmptyDomain
      else if tts_whitespace (hd (chars d)) \<or> tts_whitespace (last (chars d))
      then Inl InvalidDomain
      else if list_ex (\<lambda>c. is_control c \<or> c \<in> {35, 42, 44, 60, 62}) (chars d)
      then Inl InvalidDomain
      else Inr ())"

definition address_new :: "str \<Rightarrow> int \<Rightarrow> int \<Rightarrow> int \<Rightarrow> u16 \<Rightarrow> address_error + address" where
  "address_new d z n f p =
     and_then (validate_domain d) (\<lambda>_.
     if d = lit ''p2p'' \<and> z \<noteq> -1 then Inl InvalidDomain
     else if z \<noteq> -1 \<and> \<not> (1 \<le> z \<and> z \<le> 32767) then Inl OutOfRange
     else if z = -1 \<and> (n \<noteq> -1 \<or> f \<noteq> -1 \<or> p \<noteq> 0) then Inl OutOfRange
     else if z \<noteq> -1 \<and> (\<not> (1 \<le> n \<and> n \<le> 32767) \<or> \<not> (0 \<le> f \<and> f \<le> 32767))
     then Inl OutOfRange
     else Inr \<lparr>domain = d, zone = z, net = n, node = f, point = p\<rparr>)"

definition address_anonymous :: "str \<Rightarrow> address_error + address" where
  "address_anonymous d = address_new d (-1) (-1) (-1) 0"

definition is_anonymous :: "address \<Rightarrow> bool" where
  "is_anonymous a \<longleftrightarrow> zone a = -1"

definition parse_number :: "str \<Rightarrow> bool \<Rightarrow> address_error + int" where
  "parse_number text allow_negative_one =
     (if allow_negative_one \<and> text = lit ''-1'' then Inr (-1)
      else if text = [] \<or> hd text = 48 \<or> \<not> list_all is_digit text then Inl InvalidNumber
      else ok_or OutOfRange (parse_i32 text))"

text \<open>
  \<open>take_component\<close> returns the text before the first terminator and leaves the rest in its
  argument; \<open>terminator\<close> is the set \<open>[':', '/', '.']\<close> most callers pass.
\<close>

definition take_component :: "(u8 \<Rightarrow> bool) \<Rightarrow> str \<Rightarrow> str \<times> str" where
  "take_component terminators input = find_split terminators input"

definition terminator :: "u8 \<Rightarrow> bool" where
  "terminator b \<longleftrightarrow> b = 58 \<or> b = 47 \<or> b = 46"

definition prefix_order :: "u8 \<Rightarrow> nat" where
  "prefix_order prefix = (if prefix = 58 then 1 else if prefix = 47 then 2 else 3)"

definition default_node :: "int \<Rightarrow> int" where
  "default_node z = (if z = -1 then -1 else 0)"

definition to_u16 :: "int \<Rightarrow> address_error + u16" where
  "to_u16 i = (if 0 \<le> i \<and> i \<le> 65535 then Inr (of_int i) else Inl OutOfRange)"

text \<open>
  The loop over the components after the zone; the state is net, node and point.
  \<open>set_component\<close> is the body's case distinction on the prefix.
\<close>

definition set_component ::
    "int \<Rightarrow> int \<times> int \<times> u16 \<Rightarrow> u8 \<Rightarrow> str \<Rightarrow> address_error + int \<times> int \<times> u16" where
  "set_component z st prefix v =
     (case st of (n, f, p) \<Rightarrow>
        if prefix = 58 then
          and_then (parse_number v True) (\<lambda>m.
          if m = z then Inl NonCanonicalAddress else Inr (m, f, p))
        else if prefix = 47 then
          and_then (parse_number v True) (\<lambda>m. Inr (n, m, p))
        else
          and_then (parse_number v False) (\<lambda>v'.
          and_then (to_u16 v') (\<lambda>p'. Inr (n, f, p'))))"

function parse_components ::
    "int \<Rightarrow> int \<times> int \<times> u16 \<Rightarrow> nat \<Rightarrow> str \<Rightarrow> address_error + int \<times> int \<times> u16" where
  "parse_components z st last_prefix [] = Inr st"
| "parse_components z st last_prefix (prefix # rest) =
     (let order = prefix_order prefix in
      if order \<le> last_prefix then Inl InvalidOrder
      else let (v, rest') = take_component terminator rest in
        and_then (set_component z st prefix v) (\<lambda>st'. parse_components z st' order rest'))"
  by pat_completeness auto

lemma take_component_shorter: "take_component p s = (v, r) \<Longrightarrow> length r \<le> length s"
  by (auto simp: take_component_def dest: find_split_append)

termination parse_components
  by (relation "measure (\<lambda>(_, _, _, rest). length rest)")
     (auto dest!: take_component_shorter [OF sym])

declare parse_components.simps(2) [simp del]

definition address_from_str :: "str \<Rightarrow> address_error + address" where
  "address_from_str text =
     (case find_split (\<lambda>b. b = 35) text of
        (d, []) \<Rightarrow> Inl MissingZone
      | (d, _ # rest) \<Rightarrow>
          and_then (validate_domain d) (\<lambda>_.
          let (zone_text, rest') = take_component terminator rest in
          and_then (parse_number zone_text True) (\<lambda>z.
          if z \<noteq> -1 \<and> \<not> (1 \<le> z \<and> z \<le> 32767) then Inl OutOfRange
          else
            and_then (parse_components z (if z = -1 then -1 else z, default_node z, 0) 0 rest')
              (\<lambda>(n, f, p). address_new d z n f p))))"

definition address_to_string :: "address \<Rightarrow> str" where
  "address_to_string a =
     domain a @ 35 # show_int (zone a)
     @ (if net a \<noteq> zone a then 58 # show_int (net a) else [])
     @ (if node a \<noteq> default_node (zone a) then 47 # show_int (node a) else [])
     @ (if point a \<noteq> 0 then 46 # show_nat (unat (point a)) else [])"

section \<open>Well-formed addresses\<close>

text \<open>What \<open>Address::new\<close> accepts; every address the program holds was built by it.\<close>

definition wf_address :: "address \<Rightarrow> bool" where
  "wf_address a \<longleftrightarrow>
     valid_utf8 (domain a) \<and> address_new (domain a) (zone a) (net a) (node a) (point a) = Inr a"

lemma address_new_eq_Inr:
  "address_new d z n f p = Inr a \<longleftrightarrow>
     a = \<lparr>domain = d, zone = z, net = n, node = f, point = p\<rparr> \<and>
     validate_domain d = Inr () \<and> (d = lit ''p2p'' \<longrightarrow> z = -1) \<and>
     (z = -1 \<and> n = -1 \<and> f = -1 \<and> p = 0 \<or>
      1 \<le> z \<and> z \<le> 32767 \<and> 1 \<le> n \<and> n \<le> 32767 \<and> 0 \<le> f \<and> f \<le> 32767)"
  by (auto simp: address_new_def and_then_eq_Inr)

lemma address_new_wf: "address_new d z n f p = Inr a \<Longrightarrow> valid_utf8 d \<Longrightarrow> wf_address a"
  by (auto simp: wf_address_def address_new_eq_Inr)

lemma wf_address_iff:
  "wf_address a \<longleftrightarrow> valid_utf8 (domain a) \<and> validate_domain (domain a) = Inr () \<and>
     (domain a = lit ''p2p'' \<longrightarrow> zone a = -1) \<and>
     (zone a = -1 \<and> net a = -1 \<and> node a = -1 \<and> point a = 0 \<or>
      1 \<le> zone a \<and> zone a \<le> 32767 \<and> 1 \<le> net a \<and> net a \<le> 32767 \<and> 0 \<le> node a \<and> node a \<le> 32767)"
  by (auto simp: wf_address_def address_new_eq_Inr)

lemma validate_domain_bytes:
  assumes "validate_domain d = Inr ()" and "valid_utf8 d"
  shows "d \<noteq> []" and "b \<in> set d \<Longrightarrow> b \<noteq> 35 \<and> b \<noteq> 42 \<and> b \<noteq> 44 \<and> b \<noteq> 60 \<and> b \<noteq> 62"
proof -
  show "d \<noteq> []" using assms(1) by (auto simp: validate_domain_def)
  have "\<not> list_ex (\<lambda>c. is_control c \<or> c \<in> {35, 42, 44, 60, 62}) (chars d)"
    using assms(1) unfolding validate_domain_def by (metis Inl_Inr_False)
  then have no: "n \<notin> set (chars d)" if "n \<in> {35, 42, 44, 60, 62}" for n
    using that unfolding list_ex_iff by blast
  show "b \<noteq> 35 \<and> b \<noteq> 42 \<and> b \<noteq> 44 \<and> b \<noteq> 60 \<and> b \<noteq> 62" if "b \<in> set d"
  proof -
    have "unat b \<in> set (chars d)" if "unat b < 128"
      using in_chars_ascii [OF assms(2) that] \<open>b \<in> set d\<close> by blast
    with no [of "unat b"] show ?thesis by auto
  qed
qed

section \<open>Numbers\<close>

lemma show_int_bytes: "b \<in> set (show_int i) \<Longrightarrow> is_digit b \<or> b = 45"
  by (auto simp: show_int_def dest: show_nat_digits split: if_splits)

lemma digit_not_terminator:
  "is_digit b \<or> b = 45 \<Longrightarrow> \<not> terminator b \<and> b \<noteq> 35 \<and> b \<noteq> 44 \<and> unat b < 128"
  by (auto simp: is_digit_def terminator_def)

lemma show_int_not_Nil [simp]: "show_int i \<noteq> []"
  by (simp add: show_int_def)

lemma show_int_neg_1: "show_int (-1) = lit ''-1''"
  by (simp add: show_int_def show_nat.simps)

lemma parse_number_iff:
  "parse_number t neg = Inr v \<longleftrightarrow> (neg \<and> v = -1 \<or> 1 \<le> v \<and> v \<le> i32_max) \<and> t = show_int v"
proof (cases "neg \<and> t = lit ''-1''")
  case True
  then have "hd t = 45" by simp
  moreover have "hd (show_int v) \<noteq> 45" if "1 \<le> v"
  proof -
    have "hd (show_nat (nat v)) \<in> set (show_nat (nat v))" by simp
    from show_nat_digits [OF this] that show ?thesis by (auto simp: show_int_def is_digit_def)
  qed
  ultimately show ?thesis using True by (auto simp: parse_number_def show_int_neg_1) (metis list.sel(1))
next
  case False
  show ?thesis
  proof
    assume "parse_number t neg = Inr v"
    then have t: "t \<noteq> []" "list_all is_digit t" "hd t \<noteq> 48" and v: "v = int (digits_value t)" "v \<le> i32_max"
      using False by (auto simp: parse_number_def result_simps parse_i32_def split: if_splits)
    from show_digits_value [OF t] v show "(neg \<and> v = -1 \<or> 1 \<le> v \<and> v \<le> i32_max) \<and> t = show_int v"
      by (simp add: show_int_def)
  next
    assume *: "(neg \<and> v = -1 \<or> 1 \<le> v \<and> v \<le> i32_max) \<and> t = show_int v"
    then have v: "1 \<le> v" "v \<le> i32_max" and t: "t = show_nat (nat v)"
      using False show_int_neg_1 by (auto simp: show_int_def)
    then show "parse_number t neg = Inr v"
      using False show_nat_head [of "nat v"] show_nat_digits [of _ "nat v"]
      by (auto simp: parse_number_def parse_i32_def list_all_iff)
  qed
qed

lemma take_component_show [simp]:
  "take_component terminator (show_int i) = (show_int i, [])"
  "take_component terminator (show_int i @ 58 # r) = (show_int i, 58 # r)"
  "take_component terminator (show_int i @ 47 # r) = (show_int i, 47 # r)"
  "take_component terminator (show_int i @ 46 # r) = (show_int i, 46 # r)"
  using show_int_bytes [of _ i] digit_not_terminator
  by (auto simp: take_component_def terminator_def intro!: find_split_none find_split_found)

lemma take_component_rest: "take_component terminator s = (v, r) \<Longrightarrow> s = v @ r \<and> (r = [] \<or> terminator (hd r))"
  unfolding take_component_def
  by (cases r) (auto dest: find_split_append find_split_at)

lemma to_u16_iff [result_simps]: "to_u16 i = Inr p \<longleftrightarrow> i = int (unat p)"
proof -
  have "uint (of_int i :: u16) = i" if "0 \<le> i" "i \<le> 65535"
    using that by (simp add: uint_word_of_int)
  moreover have "of_int (int (unat p)) = p" by simp
  moreover have "int (unat p) \<le> 65535" using u16_less [of p] by linarith
  ultimately show ?thesis by (auto simp: to_u16_def)
qed

section \<open>Canonical text\<close>

lemma show_nat_int: "show_nat n = show_int (int n)"
  by (simp add: show_int_def)

lemma set_component_cases:
  assumes "set_component z (n, f, p) c v = Inr (n1, f1, p1)" and "terminator c"
  obtains "c = 58" "v = show_int n1" "n1 \<noteq> z" "f1 = f" "p1 = p"
  | "c = 47" "v = show_int f1" "f1 \<noteq> 0" "n1 = n" "p1 = p"
  | "c = 46" "v = show_nat (unat p1)" "p1 \<noteq> 0" "n1 = n" "f1 = f"
  using assms
  by (auto simp: set_component_def terminator_def result_simps parse_number_iff show_nat_int
      split: if_splits) (metis not_one_le_zero uint_0_eq)

lemma parse_components_sound:
  assumes "parse_components z (n, f, p) lp rest = Inr (n', f', p')"
    and "rest = [] \<or> terminator (hd rest)"
  shows "\<exists>tn tf tp. rest = tn @ tf @ tp \<and>
    (tn = [] \<and> n' = n \<or> lp < 1 \<and> n' \<noteq> z \<and> tn = 58 # show_int n') \<and>
    (tf = [] \<and> f' = f \<or> lp < 2 \<and> f' \<noteq> 0 \<and> tf = 47 # show_int f') \<and>
    (tp = [] \<and> p' = p \<or> lp < 3 \<and> p' \<noteq> 0 \<and> tp = 46 # show_nat (unat p'))"
  using assms
proof (induction z "(n, f, p)" lp rest arbitrary: n f p rule: parse_components.induct)
  case (1 z lp)
  then show ?case by simp
next
  case (2 z lp c rest)
  obtain v r where v: "take_component terminator rest = (v, r)" by force
  have r: "rest = v @ r" "r = [] \<or> terminator (hd r)" using take_component_rest [OF v] by auto
  have c: "terminator c" using "2.prems"(2) by simp
  from "2.prems"(1) v obtain n1 f1 p1 where lp: "\<not> prefix_order c \<le> lp"
    and st: "set_component z (n, f, p) c v = Inr (n1, f1, p1)"
    and rec: "parse_components z (n1, f1, p1) (prefix_order c) r = Inr (n', f', p')"
    by (auto simp: parse_components.simps(2) Let_def and_then_eq_Inr split: if_splits)
  from "2.hyps" [OF refl lp v [symmetric] refl st rec r(2)] obtain tn tf tp where r': "r = tn @ tf @ tp"
    and tn: "tn = [] \<and> n' = n1 \<or> prefix_order c < 1 \<and> n' \<noteq> z \<and> tn = 58 # show_int n'"
    and tf: "tf = [] \<and> f' = f1 \<or> prefix_order c < 2 \<and> f' \<noteq> 0 \<and> tf = 47 # show_int f'"
    and tp: "tp = [] \<and> p' = p1 \<or> prefix_order c < 3 \<and> p' \<noteq> 0 \<and> tp = 46 # show_nat (unat p')"
    by blast
  have tn0: "tn = []" "n' = n1" using tn by (auto simp: prefix_order_def split: if_splits)
  from st c show ?case
  proof (cases rule: set_component_cases)
    case 1
    then show ?thesis using lp tn0 tf tp r(1) r'
      by (intro exI [of _ "58 # v"] exI [of _ tf] exI [of _ tp]) (auto simp: prefix_order_def)
  next
    case 2
    then show ?thesis using lp tn0 tf tp r(1) r'
      by (intro exI [of _ "[]"] exI [of _ "47 # v"] exI [of _ tp]) (auto simp: prefix_order_def)
  next
    case 3
    then show ?thesis using lp tn0 tf tp r(1) r'
      by (intro exI [of _ "[]"] exI [of _ "46 # v"]) (auto simp: prefix_order_def)
  qed
qed

lemma parse_components_complete:
  assumes "n \<noteq> z \<Longrightarrow> n = -1 \<or> 1 \<le> n \<and> n \<le> i32_max"
    and "f \<noteq> default_node z \<Longrightarrow> f = -1 \<or> 1 \<le> f \<and> f \<le> i32_max"
  shows "parse_components z (z, default_node z, 0) 0
      ((if n \<noteq> z then 58 # show_int n else [])
       @ (if f \<noteq> default_node z then 47 # show_int f else [])
       @ (if p \<noteq> 0 then 46 # show_nat (unat p) else [])) = Inr (n, f, p)"
proof -
  have num: "parse_number (show_int n) True = Inr n" if "n \<noteq> z"
    using assms(1) [OF that] by (auto simp: parse_number_iff)
  have fnum: "parse_number (show_int f) True = Inr f" if "f \<noteq> default_node z"
    using assms(2) [OF that] by (auto simp: parse_number_iff)
  have pnum: "parse_number (show_int (uint p)) False = Inr (uint p)" if "p \<noteq> 0"
  proof -
    have "int (unat p) \<le> 65535" using u16_less [of p] by linarith
    moreover have "1 \<le> int (unat p)" using that unat_eq_zero [of p] by linarith
    ultimately show ?thesis by (auto simp: parse_number_iff i32_max_def)
  qed
  have p16: "to_u16 (uint p) = Inr p" by (simp add: to_u16_iff)
  show ?thesis
    using num fnum pnum p16
    by (auto simp: parse_components.simps(2) set_component_def Let_def prefix_order_def show_nat_int)
qed

lemma address_find_hash:
  assumes "validate_domain d = Inr ()" and "valid_utf8 d"
  shows "find_split (\<lambda>b. b = 35) (d @ 35 # r) = (d, 35 # r)"
  using validate_domain_bytes(2) [OF assms] by (intro find_split_found) auto

lemma address_from_str_show:
  assumes "wf_address a"
  shows "address_from_str (address_to_string a) = Inr a"
proof -
  have d: "validate_domain (domain a) = Inr ()" "valid_utf8 (domain a)"
    using assms by (auto simp: wf_address_iff)
  let ?rest = "(if net a \<noteq> zone a then 58 # show_int (net a) else [])
     @ (if node a \<noteq> default_node (zone a) then 47 # show_int (node a) else [])
     @ (if point a \<noteq> 0 then 46 # show_nat (unat (point a)) else [])"
  have "take_component terminator (show_int (zone a) @ ?rest) = (show_int (zone a), ?rest)"
    by auto
  moreover have "parse_number (show_int (zone a)) True = Inr (zone a)"
    using assms by (auto simp: parse_number_iff wf_address_iff i32_max_def)
  moreover have "parse_components (zone a) (zone a, default_node (zone a), 0) 0 ?rest =
      Inr (net a, node a, point a)"
    using assms by (intro parse_components_complete) (auto simp: wf_address_iff i32_max_def default_node_def)
  moreover have "(if zone a = - 1 then - 1 else zone a) = zone a" by simp
  ultimately show ?thesis
    using assms d address_find_hash [OF d]
    unfolding address_from_str_def address_to_string_def wf_address_iff
    by (auto simp: address_new_eq_Inr Let_def)
qed

lemma address_from_str_sound:
  assumes "address_from_str s = Inr a" and "valid_utf8 s"
  shows "wf_address a \<and>
    (s = address_to_string a \<or> is_anonymous a \<and> s = address_to_string a @ lit ''/-1'')"
proof -
  obtain d r where split: "find_split (\<lambda>b. b = 35) s = (d, 35 # r)"
    using assms(1) find_split_at [where p = "\<lambda>b. b = 35" and s = s]
    by (cases "find_split (\<lambda>b. b = 35) s"; cases "snd (find_split (\<lambda>b. b = 35) s)")
       (auto simp: address_from_str_def)
  obtain zt rest where comp: "take_component terminator r = (zt, rest)" by force
  from assms(1) split comp obtain z n f p where z: "parse_number zt True = Inr z"
    and parsed: "parse_components z (z, default_node z, 0) 0 rest = Inr (n, f, p)"
    and a: "address_new d z n f p = Inr a"
    by (auto simp: address_from_str_def and_then_eq_Inr simp del: One_nat_def split: if_splits)
  have s: "s = d @ 35 # zt @ rest"
    using find_split_append [OF split] take_component_rest [OF comp] by simp
  then have "valid_utf8 d" using assms(2) valid_utf8_split [of d 35 "zt @ rest"] by simp
  then have wf: "wf_address a" using a by (rule address_new_wf [rotated])
  have "rest = [] \<or> terminator (hd rest)" using take_component_rest [OF comp] by blast
  from parse_components_sound [OF parsed this] obtain tn tf tp where rest: "rest = tn @ tf @ tp"
    and tn: "tn = [] \<and> n = z \<or> n \<noteq> z \<and> tn = 58 # show_int n"
    and tf: "tf = [] \<and> f = default_node z \<or> f \<noteq> 0 \<and> tf = 47 # show_int f"
    and tp: "tp = [] \<and> p = 0 \<or> p \<noteq> 0 \<and> tp = 46 # show_nat (unat p)" by auto
  have zt: "zt = show_int z" using z by (simp add: parse_number_iff)
  show ?thesis
  proof (cases "f = default_node z \<and> tf \<noteq> []")
    case True
    then have "z = -1" "f = -1" using tf by (auto simp: default_node_def split: if_splits)
    then show ?thesis using a tn tf tp rest s zt wf True
      by (auto simp: address_new_eq_Inr address_to_string_def is_anonymous_def default_node_def show_int_neg_1)
  next
    case False
    then show ?thesis using a tn tf tp rest s zt wf
      by (auto simp: address_new_eq_Inr address_to_string_def)
  qed
qed

lemma address_from_str_restated:
  assumes "wf_address a" and "is_anonymous a"
  shows "address_from_str (address_to_string a @ lit ''/-1'') = Inr a"
proof -
  have d: "validate_domain (domain a) = Inr ()" "valid_utf8 (domain a)"
    using assms by (auto simp: wf_address_iff)
  have z: "zone a = -1" "net a = -1" "node a = -1" "point a = 0"
    using assms by (auto simp: wf_address_iff is_anonymous_def)
  have str: "address_to_string a @ lit ''/-1'' = domain a @ 35 # show_int (-1) @ 47 # show_int (-1)"
    by (simp add: address_to_string_def z default_node_def show_int_neg_1)
  have "parse_number (show_int (-1)) True = Inr (-1)" by (simp add: parse_number_iff)
  then show ?thesis
    unfolding str address_from_str_def using assms(1) d z
    by (simp add: address_find_hash [OF d] parse_components.simps(2) set_component_def prefix_order_def
        Let_def default_node_def address_new_eq_Inr wf_address_iff)
qed

text \<open>
  C17.  Address text is exact up to one spelling.  \<open>Address::from_str\<close> accepts a UTF-8 string
  precisely when it is the \<open>Display\<close> text of the address it returns, or that of an anonymous address
  followed by the redundant \<open>/-1\<close>; the address returned always satisfies the rules of
  \<open>Address::new\<close>.  So the text of every address parses back to it, and leading zeros, explicit
  defaults of net and point, repeated and misordered components are rejected --- but the explicit
  default node of an anonymous address is not.
\<close>

theorem address_text_exact:
  assumes "valid_utf8 s"
  shows "address_from_str s = Inr a \<longleftrightarrow>
    wf_address a \<and> (s = address_to_string a \<or> is_anonymous a \<and> s = address_to_string a @ lit ''/-1'')"
  using address_from_str_sound [OF _ assms] address_from_str_show address_from_str_restated by blast

text \<open>The address \<open>p2p#-1\<close> and its two spellings.\<close>

theorem address_text_exact_witness:
  "address_from_str (lit ''p2p#-1/-1'') = Inr \<lparr>domain = lit ''p2p'', zone = -1, net = -1, node = -1, point = 0\<rparr> \<and>
   wf_address \<lparr>domain = lit ''p2p'', zone = -1, net = -1, node = -1, point = 0\<rparr>"
proof -
  have "valid_utf8 (lit ''p2p#-1/-1'')" by (intro valid_utf8_ascii) (simp add: ascii_def)
  moreover have "address_from_str (lit ''p2p#-1/-1'') =
      Inr \<lparr>domain = lit ''p2p'', zone = -1, net = -1, node = -1, point = 0\<rparr>" by code_simp
  ultimately show ?thesis using address_text_exact by blast
qed

section \<open>The order on addresses\<close>

text \<open>
  \<open>Ord::cmp\<close> compares the bytes of the domains, then the numbers: the lexicographic order on
  this key, instantiated below so that \<open>sort\<close> is the \<open>sort\<close> of the standard library.
\<close>

definition address_key :: "'a address_scheme \<Rightarrow> str \<times> int \<times> int \<times> int \<times> u16 \<times> 'a" where
  "address_key a = (domain a, zone a, net a, node a, point a, address.more a)"

lemma address_key_inject: "address_key a = address_key b \<longleftrightarrow> a = b"
  by (cases a; cases b) (auto simp: address_key_def)

instantiation address_ext :: (linorder) linorder
begin

definition less_eq_address_ext :: "'a address_scheme \<Rightarrow> 'a address_scheme \<Rightarrow> bool" where
  "less_eq_address_ext a b \<longleftrightarrow> address_key a \<le> address_key b"

definition less_address_ext :: "'a address_scheme \<Rightarrow> 'a address_scheme \<Rightarrow> bool" where
  "less_address_ext a b \<longleftrightarrow> address_key a < address_key b"

instance
proof
  fix x y z :: "'a address_scheme"
  show "x < y \<longleftrightarrow> x \<le> y \<and> \<not> y \<le> x"
    by (auto simp: less_eq_address_ext_def less_address_ext_def)
  show "x \<le> x" by (simp add: less_eq_address_ext_def)
  show "x \<le> y \<Longrightarrow> y \<le> z \<Longrightarrow> x \<le> z" unfolding less_eq_address_ext_def by (rule order_trans)
  show "x \<le> y \<Longrightarrow> y \<le> x \<Longrightarrow> x = y"
    unfolding less_eq_address_ext_def by (metis address_key_inject order_antisym)
  show "x \<le> y \<or> y \<le> x" unfolding less_eq_address_ext_def by (rule linear)
qed

end

section \<open>Trimmed lists and collections\<close>

definition append_after_net :: "str \<Rightarrow> address \<Rightarrow> str" where
  "append_after_net output a =
     output
     @ (if node a \<noteq> default_node (zone a) then 47 # show_int (node a) else [])
     @ (if point a \<noteq> 0 then 46 # show_nat (unat (point a)) else [])"

definition append_after_zone :: "str \<Rightarrow> address \<Rightarrow> str" where
  "append_after_zone output a =
     append_after_net (output @ (if net a \<noteq> zone a then 58 # show_int (net a) else [])) a"

text \<open>One iteration of the loop of \<open>format_trimmed_list\<close>.\<close>

definition push_trimmed :: "str \<Rightarrow> address option \<Rightarrow> address \<Rightarrow> str" where
  "push_trimmed output previous a =
     (case previous of
        None \<Rightarrow> output @ address_to_string a
      | Some prior \<Rightarrow>
          if domain prior \<noteq> domain a then output @ address_to_string a
          else if zone prior \<noteq> zone a then append_after_zone (output @ 35 # show_int (zone a)) a
          else if net prior \<noteq> net a then append_after_net (output @ 58 # show_int (net a)) a
          else if node prior \<noteq> node a then
            output @ 47 # show_int (node a) @ (if point a \<noteq> 0 then 46 # show_nat (unat (point a)) else [])
          else if point prior \<noteq> point a then output @ 46 # show_nat (unat (point a))
          else output @ address_to_string a)"

fun format_trimmed_loop :: "str \<Rightarrow> address option \<Rightarrow> address list \<Rightarrow> str" where
  "format_trimmed_loop output previous [] = output"
| "format_trimmed_loop output previous (a # as) =
     format_trimmed_loop
       (push_trimmed (if output \<noteq> [] then output @ [44] else output) previous a) (Some a) as"

definition format_trimmed_list :: "address list \<Rightarrow> str" where
  "format_trimmed_list addresses = format_trimmed_loop [] None addresses"

definition format_trimmed_collection :: "address list \<Rightarrow> str" where
  "format_trimmed_collection addresses = format_trimmed_list (remdups_adj (sort addresses))"

definition parse_trimmed_number :: "str \<Rightarrow> bool \<Rightarrow> address_error + int" where
  "parse_trimmed_number text allow_negative_one =
     (if text = lit ''0'' then Inr 0 else parse_number text allow_negative_one)"

text \<open>The body of the loop of \<open>parse_trimmed_element\<close> up to the separator.\<close>

definition set_trimmed ::
    "int \<times> int \<times> int \<times> u16 \<Rightarrow> nat \<Rightarrow> str \<Rightarrow> address_error + int \<times> int \<times> int \<times> u16" where
  "set_trimmed st order text =
     (case st of (z, n, f, p) \<Rightarrow>
        if order = 0 then
          and_then (parse_trimmed_number text True) (\<lambda>z'. Inr (z', z', default_node z', p))
        else if order = 1 then
          and_then (parse_trimmed_number text True) (\<lambda>n'. Inr (z, n', default_node z, p))
        else if order = 2 then
          and_then (parse_trimmed_number text True) (\<lambda>f'. Inr (z, n, f', p))
        else
          and_then (parse_trimmed_number text False) (\<lambda>v.
          and_then (to_u16 v) (\<lambda>p'. Inr (z, n, f, p'))))"

function trimmed_loop ::
    "int \<times> int \<times> int \<times> u16 \<Rightarrow> nat \<Rightarrow> str \<Rightarrow> address_error + int \<times> int \<times> int \<times> u16" where
  "trimmed_loop st order rest =
     (let (text, rest') = take_component terminator rest in
      and_then (set_trimmed st order text) (\<lambda>st'.
      case rest' of
        [] \<Rightarrow> Inr st'
      | separator # rest'' \<Rightarrow>
          let following = prefix_order separator in
          if following \<le> order then Inl InvalidOrder else trimmed_loop st' following rest''))"
  by pat_completeness auto
termination
  by (relation "measure (\<lambda>(_, _, rest). length rest)")
     (auto dest!: take_component_shorter [OF sym])

declare trimmed_loop.simps [simp del]

definition parse_trimmed_element :: "str \<Rightarrow> address option \<Rightarrow> address_error + address" where
  "parse_trimmed_element element previous =
     (case element of
        [] \<Rightarrow> Inl InvalidNumber
      | prefix # rest \<Rightarrow>
          if prefix \<notin> {35, 58, 47, 46} then address_from_str element
          else
            and_then (ok_or InvalidOrder previous) (\<lambda>prior.
            and_then
              (trimmed_loop (zone prior, net prior, node prior, 0)
                 (if prefix = 35 then 0 else prefix_order prefix) rest)
              (\<lambda>(z, n, f, p). address_new (domain prior) z n f p)))"

fun expand_elements :: "address list \<Rightarrow> str list \<Rightarrow> address_error + address list" where
  "expand_elements addresses [] = Inr addresses"
| "expand_elements addresses (element # elements) =
     and_then (parse_trimmed_element element (if addresses = [] then None else Some (last addresses)))
       (\<lambda>a. expand_elements (addresses @ [a]) elements)"

definition expand_trimmed :: "str \<Rightarrow> address_error + address list" where
  "expand_trimmed v = (if v = [] then Inr [] else expand_elements [] (split_at 44 v))"

definition parse_trimmed_list :: "str \<Rightarrow> address_error + address list" where
  "parse_trimmed_list v =
     and_then (expand_trimmed v) (\<lambda>addresses.
     if format_trimmed_list addresses \<noteq> v then Inl NonCanonicalAddress else Inr addresses)"

definition parse_trimmed_collection :: "str \<Rightarrow> address_error + address list" where
  "parse_trimmed_collection v =
     and_then (expand_trimmed v) (\<lambda>addresses.
     if format_trimmed_collection addresses \<noteq> v then Inl NonCanonicalAddress else Inr addresses)"

section \<open>Trimmed text\<close>

text \<open>
  A domain that begins with \<open>':'\<close>, \<open>'/'\<close> or \<open>'.'\<close> is valid, but the trimmed parser takes its
  first character for a component prefix.  \<open>plain_domain\<close> excludes those.
\<close>

definition plain_domain :: "address \<Rightarrow> bool" where
  "plain_domain a \<longleftrightarrow> \<not> terminator (hd (domain a))"

fun trimmed_texts :: "address option \<Rightarrow> address list \<Rightarrow> str list" where
  "trimmed_texts prev [] = []"
| "trimmed_texts prev (a # as) = push_trimmed [] prev a # trimmed_texts (Some a) as"

lemma push_trimmed_append: "push_trimmed out prev a = out @ push_trimmed [] prev a"
  by (simp add: push_trimmed_def append_after_zone_def append_after_net_def split: option.split)

lemma push_trimmed_not_Nil [simp]: "push_trimmed out prev a \<noteq> []"
  by (simp add: push_trimmed_def append_after_zone_def append_after_net_def address_to_string_def
      split: option.split)

lemma format_trimmed_loop_texts:
  "out \<noteq> [] \<Longrightarrow>
   format_trimmed_loop out prev as = out @ concat (map (\<lambda>t. 44 # t) (trimmed_texts prev as))"
proof (induction as arbitrary: out prev)
  case (Cons a as)
  show ?case
    using Cons.prems Cons.IH [of "push_trimmed (out @ [44]) prev a" "Some a"]
    by (simp add: push_trimmed_append [of "out @ [44]"])
qed simp

lemma join_with_concat: "join_with c (t # ts) = t @ concat (map (\<lambda>t. c # t) ts)"
  by (induction ts arbitrary: t) auto

lemma format_trimmed_list_join:
  "format_trimmed_list as = join_with 44 (trimmed_texts None as)"
proof (cases as)
  case (Cons a as')
  then show ?thesis
    using format_trimmed_loop_texts [of "push_trimmed [] None a" "Some a" as']
    by (simp add: format_trimmed_list_def join_with_concat)
qed (simp add: format_trimmed_list_def)

lemma parse_trimmed_number_show:
  "neg \<and> v = -1 \<or> 0 \<le> v \<and> v \<le> i32_max \<Longrightarrow> parse_trimmed_number (show_int v) neg = Inr v"
proof -
  assume v: "neg \<and> v = -1 \<or> 0 \<le> v \<and> v \<le> i32_max"
  show ?thesis
  proof (cases "v = 0")
    case True
    then show ?thesis by (simp add: parse_trimmed_number_def show_int_def show_nat.simps)
  next
    case False
    then have "parse_number (show_int v) neg = Inr v" using v by (auto simp: parse_number_iff)
    moreover have "show_int v \<noteq> lit ''0''"
      using calculation by (auto simp: parse_number_def)
    ultimately show ?thesis by (simp add: parse_trimmed_number_def)
  qed
qed

lemma uint_u16_le: "uint (p :: u16) \<le> i32_max"
proof -
  have "int (unat p) \<le> 65535" using u16_less [of p] by linarith
  then show ?thesis by (simp add: i32_max_def)
qed

lemma address_to_string_head: "wf_address a \<Longrightarrow> hd (address_to_string a) = hd (domain a)"
  using validate_domain_bytes(1) by (auto simp: address_to_string_def wf_address_iff)

lemma parse_element_full:
  assumes "wf_address a" and "plain_domain a"
  shows "parse_trimmed_element (address_to_string a) prev = Inr a"
proof -
  have "hd (domain a) \<in> set (domain a)" and "hd (domain a) \<noteq> 35"
    using assms(1) validate_domain_bytes [of "domain a"] by (auto simp: wf_address_iff)
  moreover obtain c cs where "address_to_string a = c # cs"
    by (cases "address_to_string a") (auto simp: address_to_string_def)
  ultimately show ?thesis
    using assms address_to_string_head [OF assms(1)] address_from_str_show [OF assms(1)]
    by (simp add: parse_trimmed_element_def plain_domain_def terminator_def)
qed

lemma to_u16_uint [simp]: "to_u16 (uint p) = Inr p"
  by (simp add: to_u16_iff)

lemma trimmed_point:
  "trimmed_loop (z, n, f, 0) 3 (show_nat (unat p)) = Inr (z, n, f, p)"
  by (simp add: trimmed_loop.simps set_trimmed_def show_nat_int parse_trimmed_number_show uint_u16_le)

lemma trimmed_node:
  assumes "f = -1 \<or> 0 \<le> f \<and> f \<le> i32_max"
  shows "trimmed_loop (z, n, f0, 0) 2
    (show_int f @ (if p \<noteq> 0 then 46 # show_nat (unat p) else [])) = Inr (z, n, f, p)"
  using assms trimmed_point [of z n f p]
  by (simp add: trimmed_loop.simps [of _ 2] set_trimmed_def parse_trimmed_number_show prefix_order_def)

lemma trimmed_net:
  assumes "f = -1 \<or> 0 \<le> f \<and> f \<le> i32_max" and "n = -1 \<or> 0 \<le> n \<and> n \<le> i32_max"
  shows "trimmed_loop (z, n0, f0, 0) 1
    (show_int n @ (if f \<noteq> default_node z then 47 # show_int f else [])
      @ (if p \<noteq> 0 then 46 # show_nat (unat p) else [])) = Inr (z, n, f, p)"
  using assms trimmed_point [of z n f p] trimmed_node [OF assms(1), of z n "default_node z" p]
  by (cases "f = default_node z"; cases "p = 0")
     (simp_all add: trimmed_loop.simps [of _ "Suc 0"] set_trimmed_def parse_trimmed_number_show prefix_order_def)

lemma trimmed_zone:
  assumes "f = -1 \<or> 0 \<le> f \<and> f \<le> i32_max" and "n = -1 \<or> 0 \<le> n \<and> n \<le> i32_max"
    and "z = -1 \<or> 0 \<le> z \<and> z \<le> i32_max"
  shows "trimmed_loop (z0, n0, f0, 0) 0
    (show_int z @ (if n \<noteq> z then 58 # show_int n else [])
      @ (if f \<noteq> default_node z then 47 # show_int f else [])
      @ (if p \<noteq> 0 then 46 # show_nat (unat p) else [])) = Inr (z, n, f, p)"
  using assms trimmed_point [of z z f p] trimmed_node [OF assms(1), of z z "default_node z" p]
    trimmed_net [OF assms(1,2), of z z "default_node z" p]
  by (cases "n = z"; cases "f = default_node z"; cases "p = 0")
     (simp_all add: trimmed_loop.simps [of _ 0] set_trimmed_def parse_trimmed_number_show prefix_order_def)

lemma parse_element_trimmed:
  assumes "wf_address a" and "plain_domain a" and "\<And>p. prev = Some p \<Longrightarrow> wf_address p"
  shows "parse_trimmed_element (push_trimmed [] prev a) prev = Inr a"
proof (cases prev)
  case None
  then show ?thesis using parse_element_full [OF assms(1,2)] by (simp add: push_trimmed_def)
next
  case (Some q)
  have bounds: "node a = -1 \<or> 0 \<le> node a \<and> node a \<le> i32_max" "net a = -1 \<or> 0 \<le> net a \<and> net a \<le> i32_max"
    "zone a = -1 \<or> 0 \<le> zone a \<and> zone a \<le> i32_max"
    using assms(1) by (auto simp: wf_address_iff i32_max_def)
  have new: "address_new (domain a) (zone a) (net a) (node a) (point a) = Inr a"
    using assms(1) by (simp add: wf_address_def)
  consider "domain q \<noteq> domain a \<or> q = a" | "domain q = domain a" "zone q \<noteq> zone a"
    | "domain q = domain a" "zone q = zone a" "net q \<noteq> net a"
    | "domain q = domain a" "zone q = zone a" "net q = net a" "node q \<noteq> node a"
    | "domain q = domain a" "zone q = zone a" "net q = net a" "node q = node a" "point q \<noteq> point a"
    by (cases q; cases a) auto
  then show ?thesis
  proof cases
    case 1
    then show ?thesis using parse_element_full [OF assms(1,2)] Some by (auto simp: push_trimmed_def)
  next
    case 2
    then show ?thesis using trimmed_zone [OF bounds] new Some
      by (simp add: push_trimmed_def append_after_zone_def append_after_net_def parse_trimmed_element_def)
  next
    case 3
    then show ?thesis using trimmed_net [OF bounds(1,2), of "zone a"] new Some
      by (simp add: push_trimmed_def append_after_net_def parse_trimmed_element_def prefix_order_def)
  next
    case 4
    then show ?thesis using trimmed_node [OF bounds(1), of "zone a"] new Some
      by (simp add: push_trimmed_def parse_trimmed_element_def prefix_order_def)
  next
    case 5
    then show ?thesis using trimmed_point new Some
      by (simp add: push_trimmed_def parse_trimmed_element_def prefix_order_def)
  qed
qed

text \<open>What the trimmed forms carry: addresses the constructor accepts, with plain domains.\<close>

abbreviation trimmable :: "address \<Rightarrow> bool" where
  "trimmable a \<equiv> wf_address a \<and> plain_domain a"

lemma expand_texts:
  "list_all trimmable as \<Longrightarrow> list_all wf_address acc \<Longrightarrow>
   expand_elements acc (trimmed_texts (if acc = [] then None else Some (last acc)) as) = Inr (acc @ as)"
proof (induction as arbitrary: acc)
  case (Cons a as)
  have "parse_trimmed_element (push_trimmed [] prev a) prev = Inr a"
    if "prev = (if acc = [] then None else Some (last acc))" for prev
    using Cons.prems that by (intro parse_element_trimmed) (auto simp: list_all_iff split: if_splits)
  moreover have "trimmed_texts (Some a) as =
      trimmed_texts (if acc @ [a] = [] then None else Some (last (acc @ [a]))) as" by simp
  ultimately show ?case using Cons.prems Cons.IH [of "acc @ [a]"] by simp
qed simp

lemma address_to_string_no_comma: "wf_address a \<Longrightarrow> 44 \<notin> set (address_to_string a)"
  using validate_domain_bytes(2) [of "domain a" 44] show_int_bytes [of 44] show_nat_digits [of 44]
  by (auto simp: address_to_string_def wf_address_iff is_digit_def)

lemma push_trimmed_no_comma: "wf_address a \<Longrightarrow> 44 \<notin> set (push_trimmed [] prev a)"
  using address_to_string_no_comma [of a] show_int_bytes [of 44] show_nat_digits [of 44]
  by (auto simp: push_trimmed_def append_after_zone_def append_after_net_def is_digit_def
      split: option.split)

lemma trimmed_texts_no_comma: "list_all wf_address as \<Longrightarrow> t \<in> set (trimmed_texts prev as) \<Longrightarrow> 44 \<notin> set t"
  by (induction as arbitrary: prev) (auto simp: push_trimmed_no_comma)

lemma expand_format: "list_all trimmable as \<Longrightarrow> expand_trimmed (format_trimmed_list as) = Inr as"
proof (cases as)
  case (Cons a as')
  assume as: "list_all trimmable as"
  then have wf: "list_all wf_address as" by (auto simp: list_all_iff)
  have "split_at 44 (format_trimmed_list as) = trimmed_texts None as"
    unfolding format_trimmed_list_join using Cons trimmed_texts_no_comma [OF wf]
    by (intro split_at_join) auto
  moreover have "format_trimmed_list as \<noteq> []"
    by (simp add: format_trimmed_list_join Cons join_with_concat)
  ultimately show ?thesis using expand_texts [OF as, of "[]"] by (simp add: expand_trimmed_def)
qed (simp add: format_trimmed_list_def expand_trimmed_def)

lemma split_at_valid: "valid_utf8 s \<Longrightarrow> unat c < 128 \<Longrightarrow> p \<in> set (split_at c s) \<Longrightarrow> valid_utf8 p"
proof (induction "length s" arbitrary: s rule: less_induct)
  case less
  show ?case
  proof (cases "c \<in> set s")
    case False
    then show ?thesis using less.prems by (simp add: split_at_none)
  next
    case True
    then obtain a b where s: "s = a @ c # b" and "c \<notin> set a" by (metis split_list_first)
    with less.prems less.hyps [of b] show ?thesis
      using valid_utf8_split [of a c b] by (auto simp: split_at_append)
  qed
qed

lemma address_to_string_not_Nil [simp]: "address_to_string a \<noteq> []"
  by (simp add: address_to_string_def)

lemma address_text_domain:
  assumes "address_from_str s = Inr a" and "valid_utf8 s"
  shows "wf_address a \<and> hd (domain a) = hd s"
  using address_from_str_sound [OF assms] address_to_string_head [of a]
  by auto

lemma parse_element_trimmable:
  assumes "parse_trimmed_element e prev = Inr a" and "valid_utf8 e"
    and "\<And>p. prev = Some p \<Longrightarrow> trimmable p"
  shows "trimmable a"
proof (cases e)
  case Nil
  with assms(1) show ?thesis by (simp add: parse_trimmed_element_def)
next
  case (Cons c cs)
  show ?thesis
  proof (cases "c \<in> {35, 58, 47, 46}")
    case True
    with assms(1) Cons obtain p z n f pt where "prev = Some p" "address_new (domain p) z n f pt = Inr a"
      by (auto simp: parse_trimmed_element_def result_simps)
    moreover from this have "trimmable p" using assms(3) by blast
    ultimately show ?thesis
      by (auto simp: address_new_eq_Inr wf_address_iff plain_domain_def)
  next
    case False
    with assms(1) Cons have "address_from_str e = Inr a" by (simp add: parse_trimmed_element_def)
    with assms(2) Cons False show ?thesis
      using address_text_domain by (auto simp: plain_domain_def terminator_def)
  qed
qed

lemma expand_elements_trimmable:
  "expand_elements acc es = Inr as \<Longrightarrow> list_all trimmable acc \<Longrightarrow> list_all valid_utf8 es \<Longrightarrow>
   list_all trimmable as"
proof (induction acc es rule: expand_elements.induct)
  case (2 acc e es)
  from "2.prems"(1) obtain a where a: "parse_trimmed_element e (if acc = [] then None else Some (last acc)) = Inr a"
    and rec: "expand_elements (acc @ [a]) es = Inr as" by (auto simp: and_then_eq_Inr)
  have "trimmable a"
    using "2.prems"(2,3) by (intro parse_element_trimmable [OF a]) (auto simp: list_all_iff split: if_splits)
  then show ?case using "2.IH" [OF a rec] "2.prems"(2,3) by simp
qed simp

lemma expand_trimmable:
  "expand_trimmed v = Inr as \<Longrightarrow> valid_utf8 v \<Longrightarrow> list_all trimmable as"
  using expand_elements_trimmable [of "[]" "split_at 44 v" as] split_at_valid [of v 44]
  by (auto simp: expand_trimmed_def list_all_iff split: if_splits)

text \<open>
  Trimmed lists are exact: \<open>parse_trimmed_list\<close> accepts a UTF-8 string precisely when it is
  the trimmed text of a list of valid addresses whose domains do not begin with a component
  prefix, and returns that list.  In particular every such list survives formatting and parsing,
  with each element inheriting exactly the components its text leaves out.
\<close>

theorem trimmed_list_exact:
  assumes "valid_utf8 v"
  shows "parse_trimmed_list v = Inr as \<longleftrightarrow> list_all trimmable as \<and> v = format_trimmed_list as"
  using expand_trimmable [OF _ assms] expand_format
  by (auto simp: parse_trimmed_list_def and_then_eq_Inr)

text \<open>The first zone, another net in it, and a node below that.\<close>

theorem trimmed_list_exact_witness:
  "parse_trimmed_list (lit ''fido#885,:1,/7.3'') =
     Inr [\<lparr>domain = lit ''fido'', zone = 885, net = 885, node = 0, point = 0\<rparr>,
          \<lparr>domain = lit ''fido'', zone = 885, net = 1, node = 0, point = 0\<rparr>,
          \<lparr>domain = lit ''fido'', zone = 885, net = 1, node = 7, point = 3\<rparr>]"
proof -
  have "valid_utf8 (lit ''fido#885,:1,/7.3'')" by code_simp
  moreover have "list_all trimmable [\<lparr>domain = lit ''fido'', zone = 885, net = 885, node = 0, point = 0\<rparr>,
          \<lparr>domain = lit ''fido'', zone = 885, net = 1, node = 0, point = 0\<rparr>,
          \<lparr>domain = lit ''fido'', zone = 885, net = 1, node = 7, point = 3\<rparr>]" by code_simp
  moreover have "lit ''fido#885,:1,/7.3'' =
    format_trimmed_list [\<lparr>domain = lit ''fido'', zone = 885, net = 885, node = 0, point = 0\<rparr>,
          \<lparr>domain = lit ''fido'', zone = 885, net = 1, node = 0, point = 0\<rparr>,
          \<lparr>domain = lit ''fido'', zone = 885, net = 1, node = 7, point = 3\<rparr>]" by code_simp
  ultimately show ?thesis using trimmed_list_exact by blast
qed

lemma sorted_distinct_remdups_adj: "sorted (xs :: 'a :: linorder list) \<Longrightarrow> distinct (remdups_adj xs)"
  by (induction xs rule: remdups_adj.induct) auto

lemma sort_dedup: "remdups_adj (sort as) = sorted_list_of_set (set as)"
  by (rule sorted_distinct_set_unique) (simp_all add: sorted_distinct_remdups_adj)

text \<open>
  C26.  Trimmed collections are canonical sets: \<open>parse_trimmed_collection\<close> accepts a UTF-8 string
  precisely when it is the trimmed text of a strictly ascending list of valid addresses whose
  domains do not begin with a component prefix, and returns that list; and the text \<open>format_trimmed_collection\<close> writes is that of the sorted set of
  its argument, whatever order and repetitions the argument had.
\<close>

theorem trimmed_collection_exact:
  assumes "valid_utf8 v"
  shows "(parse_trimmed_collection v = Inr as \<longleftrightarrow>
      list_all trimmable as \<and> sorted_wrt (<) as \<and> v = format_trimmed_list as) \<and>
    format_trimmed_collection bs = format_trimmed_list (sorted_list_of_set (set bs))"
proof (intro conjI iffI)
  let ?ss = "sorted_list_of_set (set as)"
  assume "parse_trimmed_collection v = Inr as"
  then have ex: "expand_trimmed v = Inr as" and v: "format_trimmed_list ?ss = v"
    by (auto simp: parse_trimmed_collection_def and_then_eq_Inr format_trimmed_collection_def sort_dedup
        split: if_splits)
  have ok: "list_all trimmable as" by (rule expand_trimmable [OF ex assms])
  then have "list_all trimmable ?ss" by (simp add: list_all_iff)
  from expand_format [OF this] ex v have "as = ?ss" by simp
  moreover have "sorted_wrt (<) ?ss" by simp
  ultimately show "list_all trimmable as" "sorted_wrt (<) as" "v = format_trimmed_list as"
    using ok v by simp_all
next
  assume "list_all trimmable as \<and> sorted_wrt (<) as \<and> v = format_trimmed_list as"
  moreover from this have "remdups_adj (sort as) = as"
    by (simp add: sort_dedup strict_sorted_iff sorted_list_of_set.idem_if_sorted_distinct)
  ultimately show "parse_trimmed_collection v = Inr as"
    by (simp add: parse_trimmed_collection_def expand_format format_trimmed_collection_def)
qed (simp add: format_trimmed_collection_def sort_dedup)

text \<open>A collection given out of order and with a repetition.\<close>

theorem trimmed_collection_exact_witness:
  "parse_trimmed_collection (lit ''fido#1,#2'') =
     Inr [\<lparr>domain = lit ''fido'', zone = 1, net = 1, node = 0, point = 0\<rparr>,
          \<lparr>domain = lit ''fido'', zone = 2, net = 2, node = 0, point = 0\<rparr>]"
proof -
  let ?as = "[\<lparr>domain = lit ''fido'', zone = 1, net = 1, node = 0, point = 0\<rparr>,
          \<lparr>domain = lit ''fido'', zone = 2, net = 2, node = 0, point = 0\<rparr>] :: address list"
  have "valid_utf8 (lit ''fido#1,#2'')" by code_simp
  moreover have "list_all trimmable ?as" by code_simp
  moreover have "sorted_wrt (<) ?as" by code_simp
  moreover have "lit ''fido#1,#2'' = format_trimmed_list ?as" by code_simp
  ultimately show ?thesis using trimmed_collection_exact by blast
qed

text \<open>
  C28.  The trimmed text of a single address whose domain begins with \<open>':'\<close>, \<open>'/'\<close> or \<open>'.'\<close> ---
  which \<open>Address::new\<close> accepts --- is rejected by \<open>parse_trimmed_list\<close>: it is not the inverse of
  \<open>format_trimmed_list\<close> that its documentation promises.
\<close>

theorem trimmed_prefix_domain_rejected:
  assumes "wf_address a" and "terminator (hd (domain a))"
  shows "parse_trimmed_list (format_trimmed_list [a]) = Inl InvalidOrder"
proof -
  have "format_trimmed_list [a] = address_to_string a"
    by (simp add: format_trimmed_list_def push_trimmed_def)
  moreover obtain c cs where "address_to_string a = c # cs" "terminator c"
    using assms address_to_string_head [OF assms(1)] by (cases "address_to_string a") auto
  ultimately show ?thesis
    using split_at_none [OF address_to_string_no_comma [OF assms(1)]]
    by (auto simp: parse_trimmed_list_def expand_trimmed_def parse_trimmed_element_def terminator_def)
qed

text \<open>The address \<open>:net#1\<close>.\<close>

theorem trimmed_prefix_domain_rejected_witness:
  "parse_trimmed_list (format_trimmed_list
     [\<lparr>domain = lit '':net'', zone = 1, net = 1, node = 0, point = 0\<rparr>]) = Inl InvalidOrder"
proof -
  have "wf_address \<lparr>domain = lit '':net'', zone = 1, net = 1, node = 0, point = 0\<rparr>" by code_simp
  then show ?thesis
    using trimmed_prefix_domain_rejected
      [of "\<lparr>domain = lit '':net'', zone = 1, net = 1, node = 0, point = 0\<rparr>"]
    by (simp add: terminator_def)
qed

section \<open>Address patterns\<close>

datatype domain_pattern = DomainAny | DomainExact str | DomainList "str list"

datatype number_pattern = NumberAny | NumberExact int | NumberList "(int \<times> int) list"

record address_pattern =
  pat_domain :: domain_pattern
  pat_zone :: number_pattern
  pat_net :: number_pattern
  pat_node :: number_pattern
  pat_point :: number_pattern

fun match_domain :: "domain_pattern \<Rightarrow> str \<Rightarrow> bool" where
  "match_domain DomainAny v \<longleftrightarrow> True"
| "match_domain (DomainExact expected) v \<longleftrightarrow> expected = v"
| "match_domain (DomainList vs) v \<longleftrightarrow> list_ex (\<lambda>expected. expected = v) vs"

fun match_number :: "number_pattern \<Rightarrow> int \<Rightarrow> bool" where
  "match_number NumberAny v \<longleftrightarrow> v \<noteq> -1"
| "match_number (NumberExact expected) v \<longleftrightarrow> expected = v"
| "match_number (NumberList ranges) v \<longleftrightarrow> list_ex (\<lambda>(lo, hi). lo \<le> v \<and> v \<le> hi) ranges"

definition pattern_matches :: "address_pattern \<Rightarrow> address \<Rightarrow> bool" where
  "pattern_matches pat a \<longleftrightarrow>
     match_domain (pat_domain pat) (domain a) \<and> match_number (pat_zone pat) (zone a) \<and>
     match_number (pat_net pat) (net a) \<and> match_number (pat_node pat) (node a) \<and>
     match_number (pat_point pat) (int (unat (point a)))"

text \<open>\<open>text.strip_prefix('<').and_then(|value| value.strip_suffix('>'))\<close>\<close>

definition strip_angles :: "str \<Rightarrow> str option" where
  "strip_angles text =
     (case text of
        [] \<Rightarrow> None
      | c # rest \<Rightarrow> if c = 60 \<and> rest \<noteq> [] \<and> last rest = 62 then Some (butlast rest) else None)"

definition parse_domain_pattern :: "str \<Rightarrow> address_error + domain_pattern" where
  "parse_domain_pattern text =
     (if text = lit ''*'' then Inr DomainAny
      else case strip_angles text of
        Some inside \<Rightarrow>
          and_then (try_map (\<lambda>v. and_then (validate_domain v) (\<lambda>_. Inr v)) (split_at 44 inside))
            (\<lambda>vs. Inr (DomainList vs))
      | None \<Rightarrow> and_then (validate_domain text) (\<lambda>_. Inr (DomainExact text)))"

definition parse_pattern_number :: "str \<Rightarrow> address_error + int" where
  "parse_pattern_number text = (if text = lit ''0'' then Inr 0 else parse_number text True)"

text \<open>One element of a number list: the first \<open>'-'\<close> after the first character splits a range.\<close>

definition parse_range :: "int \<Rightarrow> int \<Rightarrow> str \<Rightarrow> address_error + int \<times> int" where
  "parse_range minimum maximum v =
     and_then
       (case find_split (\<lambda>b. b = 45) (drop 1 v) of
          (before, _ # after) \<Rightarrow>
            and_then (parse_pattern_number (take 1 v @ before)) (\<lambda>lo.
            and_then (parse_pattern_number after) (\<lambda>hi. Inr (lo, hi)))
        | (_, []) \<Rightarrow> and_then (parse_pattern_number v) (\<lambda>number. Inr (number, number)))
       (\<lambda>(lo, hi).
          if lo < minimum \<or> hi > maximum \<or> lo > hi then Inl InvalidWildcard else Inr (lo, hi))"

definition parse_number_pattern :: "str \<Rightarrow> int \<Rightarrow> int \<Rightarrow> address_error + number_pattern" where
  "parse_number_pattern text minimum maximum =
     (if text = lit ''*'' then Inr NumberAny
      else case strip_angles text of
        Some inside \<Rightarrow>
          and_then (try_map (parse_range minimum maximum) (split_at 44 inside))
            (\<lambda>ranges. Inr (NumberList ranges))
      | None \<Rightarrow>
          and_then (parse_pattern_number text) (\<lambda>number.
          if \<not> (minimum \<le> number \<and> number \<le> maximum) then Inl OutOfRange else Inr (NumberExact number)))"

definition pattern_prefix :: "u8 \<Rightarrow> bool" where
  "pattern_prefix b \<longleftrightarrow> b = 35 \<or> terminator b"

definition pattern_order :: "u8 \<Rightarrow> nat" where
  "pattern_order prefix = (if prefix = 35 then 1 else if prefix = 58 then 2 else if prefix = 47 then 3 else 4)"

fun number_wild :: "number_pattern \<Rightarrow> bool" where
  "number_wild (NumberExact _) = False"
| "number_wild _ = True"

fun domain_wild :: "domain_pattern \<Rightarrow> bool" where
  "domain_wild (DomainExact _) = False"
| "domain_wild _ = True"

definition set_pattern :: "u8 \<Rightarrow> number_pattern \<Rightarrow> address_pattern \<Rightarrow> address_pattern" where
  "set_pattern prefix parsed pat =
     (if prefix = 35 then pat\<lparr>pat_zone := parsed\<rparr>
      else if prefix = 58 then pat\<lparr>pat_net := parsed\<rparr>
      else if prefix = 47 then pat\<lparr>pat_node := parsed\<rparr>
      else pat\<lparr>pat_point := parsed\<rparr>)"

function pattern_loop ::
    "address_pattern \<Rightarrow> bool \<Rightarrow> nat \<Rightarrow> str \<Rightarrow> address_error + address_pattern \<times> bool" where
  "pattern_loop pat wildcard_seen lst [] = Inr (pat, wildcard_seen)"
| "pattern_loop pat wildcard_seen lst (prefix # rest) =
     (let order = pattern_order prefix in
      if order \<le> lst then Inl InvalidOrder
      else let (v, rest') = take_component pattern_prefix rest in
        and_then (if prefix = 46 then parse_number_pattern v 0 65535
                  else parse_number_pattern v (-1) 32767) (\<lambda>parsed.
        pattern_loop (set_pattern prefix parsed pat) (wildcard_seen \<or> number_wild parsed) order rest'))"
  by pat_completeness auto
termination
  by (relation "measure (\<lambda>(_, _, _, rest). length rest)")
     (auto dest!: take_component_shorter [OF sym])

declare pattern_loop.simps(2) [simp del]

definition pattern_from_str :: "str \<Rightarrow> address_error + address_pattern" where
  "pattern_from_str text =
     (if text = lit ''*'' then
        Inr \<lparr>pat_domain = DomainAny, pat_zone = NumberAny, pat_net = NumberAny, pat_node = NumberAny,
             pat_point = NumberAny\<rparr>
      else case find_split pattern_prefix text of
        (domain_text, []) \<Rightarrow> Inl InvalidWildcard
      | (domain_text, rest) \<Rightarrow>
          and_then (parse_domain_pattern domain_text) (\<lambda>d.
          and_then
            (pattern_loop \<lparr>pat_domain = d, pat_zone = NumberAny, pat_net = NumberAny,
               pat_node = NumberAny, pat_point = NumberAny\<rparr> (domain_wild d) 0 rest)
            (\<lambda>(pat, wildcard_seen).
               if \<not> wildcard_seen then Inl InvalidWildcard else Inr pat)))"

section \<open>What a parsed pattern is\<close>

fun number_in :: "int \<Rightarrow> int \<Rightarrow> number_pattern \<Rightarrow> bool" where
  "number_in lo hi NumberAny = True"
| "number_in lo hi (NumberExact n) = (lo \<le> n \<and> n \<le> hi)"
| "number_in lo hi (NumberList rs) = (rs \<noteq> [] \<and> list_all (\<lambda>(a, b). lo \<le> a \<and> a \<le> b \<and> b \<le> hi) rs)"

fun domain_in :: "domain_pattern \<Rightarrow> bool" where
  "domain_in DomainAny = True"
| "domain_in (DomainExact d) = (validate_domain d = Inr ())"
| "domain_in (DomainList ds) = (ds \<noteq> [] \<and> list_all (\<lambda>d. validate_domain d = Inr ()) ds)"

definition wf_pattern :: "address_pattern \<Rightarrow> bool" where
  "wf_pattern pat \<longleftrightarrow>
     domain_in (pat_domain pat) \<and> number_in (-1) 32767 (pat_zone pat) \<and>
     number_in (-1) 32767 (pat_net pat) \<and> number_in (-1) 32767 (pat_node pat) \<and>
     number_in 0 65535 (pat_point pat)"

lemma parse_number_pattern_in:
  assumes "parse_number_pattern v lo hi = Inr pat"
  shows "number_in lo hi pat"
proof (cases "strip_angles v")
  case None
  with assms show ?thesis by (auto simp: parse_number_pattern_def result_simps split: if_splits)
next
  case (Some inside)
  have range: "lo \<le> a \<and> a \<le> b \<and> b \<le> hi" if "parse_range lo hi x = Inr (a, b)" for x a b
    using that by (auto simp: parse_range_def and_then_eq_Inr split: if_splits)
  have "list_all (\<lambda>(a, b). lo \<le> a \<and> a \<le> b \<and> b \<le> hi) rs" "rs \<noteq> []"
    if "try_map (parse_range lo hi) (split_at 44 inside) = Inr rs" for rs
    using try_map_list_all [OF that, of "\<lambda>(a, b). lo \<le> a \<and> a \<le> b \<and> b \<le> hi"] range
      try_map_length [OF that] by auto
  with assms Some show ?thesis
    by (auto simp: parse_number_pattern_def and_then_eq_Inr split: if_splits)
qed

lemma parse_domain_pattern_in:
  assumes "parse_domain_pattern v = Inr pat"
  shows "domain_in pat"
proof (cases "strip_angles v")
  case None
  with assms show ?thesis by (auto simp: parse_domain_pattern_def result_simps split: if_splits)
next
  case (Some inside)
  have "list_all (\<lambda>d. validate_domain d = Inr ()) ds" "ds \<noteq> []"
    if "try_map (\<lambda>v. and_then (validate_domain v) (\<lambda>_. Inr v)) (split_at 44 inside) = Inr ds" for ds
    using try_map_list_all [OF that, of "\<lambda>d. validate_domain d = Inr ()"] try_map_length [OF that]
    by (auto simp: and_then_eq_Inr)
  with assms Some show ?thesis
    by (auto simp: parse_domain_pattern_def and_then_eq_Inr split: if_splits)
qed

lemma pattern_loop_wf:
  "pattern_loop pat seen lst s = Inr (pat', seen') \<Longrightarrow> wf_pattern pat \<Longrightarrow>
   s = [] \<or> pattern_prefix (hd s) \<Longrightarrow> wf_pattern pat'"
proof (induction pat seen lst s rule: pattern_loop.induct)
  case (2 pat seen lst c rest)
  obtain v r where v: "take_component pattern_prefix rest = (v, r)" by force
  then have r: "r = [] \<or> pattern_prefix (hd r)"
    unfolding take_component_def by (cases r) (auto dest: find_split_at)
  have ord: "\<not> pattern_order c \<le> lst"
    using "2.prems"(1) by (auto simp: pattern_loop.simps(2) Let_def)
  from "2.prems"(1) v ord obtain parsed where
    parsed: "(if c = 46 then parse_number_pattern v 0 65535
        else parse_number_pattern v (-1) 32767) = Inr parsed"
    and rec: "pattern_loop (set_pattern c parsed pat) (seen \<or> number_wild parsed) (pattern_order c) r =
        Inr (pat', seen')"
    by (auto simp: pattern_loop.simps(2) Let_def and_then_eq_Inr)
  have "number_in 0 65535 parsed" if "c = 46" using parsed that parse_number_pattern_in by simp
  moreover have "number_in (-1) 32767 parsed" if "c \<noteq> 46"
    using parsed that parse_number_pattern_in by simp
  ultimately have "wf_pattern (set_pattern c parsed pat)"
    using "2.prems"(2,3) by (auto simp: wf_pattern_def set_pattern_def pattern_prefix_def terminator_def)
  then show ?case using "2.IH" [OF refl ord v [symmetric] refl parsed rec _ r] by blast
qed simp

text \<open>
  A pattern that parses is well-formed: its domains pass \<open>validate_domain\<close>, no list is
  empty, every range is ordered, and every number lies within the bounds of its component.
\<close>

theorem pattern_from_str_wf:
  assumes "pattern_from_str s = Inr pat"
  shows "wf_pattern pat"
proof (cases "s = lit ''*''")
  case True
  with assms show ?thesis by (auto simp: pattern_from_str_def wf_pattern_def)
next
  case False
  obtain d r where split: "find_split pattern_prefix s = (d, r)" by force
  with assms False obtain c cs dp seen where r: "r = c # cs" and d: "parse_domain_pattern d = Inr dp"
    and loop: "pattern_loop \<lparr>pat_domain = dp, pat_zone = NumberAny, pat_net = NumberAny,
       pat_node = NumberAny, pat_point = NumberAny\<rparr> (domain_wild dp) 0 r = Inr (pat, seen)"
    by (cases r) (auto simp: pattern_from_str_def and_then_eq_Inr split: if_splits)
  from find_split_at [OF split [unfolded r]] r have "r = [] \<or> pattern_prefix (hd r)" by simp
  with pattern_loop_wf [OF loop] parse_domain_pattern_in [OF d] show ?thesis
    by (simp add: wf_pattern_def)
qed

text \<open>The pattern for the points of one node.\<close>

theorem pattern_from_str_wf_witness:
  "wf_pattern \<lparr>pat_domain = DomainExact (lit ''fido''), pat_zone = NumberExact 1,
     pat_net = NumberList [(2, 5), (7, 7)], pat_node = NumberExact 0, pat_point = NumberAny\<rparr>"
proof (rule pattern_from_str_wf)
  show "pattern_from_str (lit ''fido#1:<2-5,7>/0.*'') =
     Inr \<lparr>pat_domain = DomainExact (lit ''fido''), pat_zone = NumberExact 1,
       pat_net = NumberList [(2, 5), (7, 7)], pat_node = NumberExact 0, pat_point = NumberAny\<rparr>"
    by code_simp
qed

text \<open>
  Among the addresses the program can hold, the pattern \<open>*\<close> matches exactly those that are
  not anonymous.
\<close>

theorem star_pattern_matches:
  assumes "pattern_from_str (lit ''*'') = Inr pat" and "wf_address a"
  shows "pattern_matches pat a \<longleftrightarrow> \<not> is_anonymous a"
proof -
  have "uint (point a) \<noteq> -1" using uint_ge_0 [of "point a"] by linarith
  with assms show ?thesis
    unfolding pattern_from_str_def by (auto simp: pattern_matches_def is_anonymous_def wf_address_iff)
qed

text \<open>An ordinary address.\<close>

theorem star_pattern_matches_witness:
  "pattern_matches \<lparr>pat_domain = DomainAny, pat_zone = NumberAny, pat_net = NumberAny,
     pat_node = NumberAny, pat_point = NumberAny\<rparr>
     \<lparr>domain = lit ''fido'', zone = 1, net = 1, node = 0, point = 0\<rparr>"
proof -
  have "wf_address \<lparr>domain = lit ''fido'', zone = 1, net = 1, node = 0, point = 0\<rparr>" by code_simp
  moreover have "pattern_from_str (lit ''*'') = Inr \<lparr>pat_domain = DomainAny, pat_zone = NumberAny,
     pat_net = NumberAny, pat_node = NumberAny, pat_point = NumberAny\<rparr>"
    by (simp add: pattern_from_str_def)
  moreover have "\<not> is_anonymous \<lparr>domain = lit ''fido'', zone = 1, net = 1, node = 0, point = 0\<rparr>"
    by (simp add: is_anonymous_def)
  ultimately show ?thesis using star_pattern_matches by blast
qed

end
