(* ===== verification/Wire_Types.thy ===== *)
theory Wire_Types
  imports Prelude
begin

text \<open>
  The Type assignments of the wire format (\<open>types.rs\<close>, \<open>bundle_types.rs\<close> and
  \<open>item_types.rs\<close> of \<open>crates/tith-wire/src\<close>) and the two predicates over them that the
  parsers dispatch on.
\<close>

section \<open>Common values\<close>

definition ORIGIN :: u64 where
  "ORIGIN = 1"

definition SIGNATURE :: u64 where
  "SIGNATURE = 2"

definition SIGNED_DATA :: u64 where
  "SIGNED_DATA = 3"

definition SIGNED_TLV :: u64 where
  "SIGNED_TLV = 4"

definition TIMESTAMP :: u64 where
  "TIMESTAMP = 5"

definition DESTINATION :: u64 where
  "DESTINATION = 6"

definition ADDRESS :: u64 where
  "ADDRESS = 7"

definition PUBLIC_KEY :: u64 where
  "PUBLIC_KEY = 8"

definition SIGNED_ORIGIN :: u64 where
  "SIGNED_ORIGIN = 9"

section \<open>Bundle values\<close>

definition MESSAGE :: u64 where
  "MESSAGE = 64"

definition FILE :: u64 where
  "FILE = 65"

definition FILE_REQUEST :: u64 where
  "FILE_REQUEST = 66"

definition REJECTED :: u64 where
  "REJECTED = 67"

definition ACCEPTED :: u64 where
  "ACCEPTED = 68"

definition POLL_MESSAGES :: u64 where
  "POLL_MESSAGES = 69"

definition POLL_FILES :: u64 where
  "POLL_FILES = 70"

definition POLL_FILE_REQUESTS :: u64 where
  "POLL_FILE_REQUESTS = 71"

definition PUBLIC_KEY_REQUEST :: u64 where
  "PUBLIC_KEY_REQUEST = 72"

definition REJECTION_REASON :: u64 where
  "REJECTION_REASON = 73"

definition REJECTION_DESCRIPTION :: u64 where
  "REJECTION_DESCRIPTION = 74"

definition TLV_HASH :: u64 where
  "TLV_HASH = 99"

section \<open>Item values\<close>

definition FILENAME :: u64 where
  "FILENAME = 96"

definition CONTENTS :: u64 where
  "CONTENTS = 97"

definition REQUEST_IDENTIFIER :: u64 where
  "REQUEST_IDENTIFIER = 98"

definition LEGACY_ATTRIBUTES :: u64 where
  "LEGACY_ATTRIBUTES = 101"

definition TIMESTAMP_OFFSET :: u64 where
  "TIMESTAMP_OFFSET = 102"

definition TO_USER_NAME :: u64 where
  "TO_USER_NAME = 103"

definition FROM_USER_NAME :: u64 where
  "FROM_USER_NAME = 104"

definition SUBJECT :: u64 where
  "SUBJECT = 105"

definition MESSAGE_TEXT :: u64 where
  "MESSAGE_TEXT = 106"

definition AREA :: u64 where
  "AREA = 107"

definition AREA_NAME :: u64 where
  "AREA_NAME = 108"

definition AREA_DESCRIPTION :: u64 where
  "AREA_DESCRIPTION = 109"

definition TEAR_LINE :: u64 where
  "TEAR_LINE = 110"

definition ORIGIN_LINE :: u64 where
  "ORIGIN_LINE = 111"

definition SEEN_BY :: u64 where
  "SEEN_BY = 112"

definition VIA :: u64 where
  "VIA = 113"

definition MESSAGE_ID :: u64 where
  "MESSAGE_ID = 114"

definition REPLY_TO :: u64 where
  "REPLY_TO = 115"

definition ORIGINAL_CHARACTER_SET :: u64 where
  "ORIGINAL_CHARACTER_SET = 116"

definition ADDITIONAL_KLUDGE_LINE :: u64 where
  "ADDITIONAL_KLUDGE_LINE = 117"

definition SHORT_DESCRIPTION :: u64 where
  "SHORT_DESCRIPTION = 118"

definition LONG_DESCRIPTION_LINE :: u64 where
  "LONG_DESCRIPTION_LINE = 119"

definition MAGIC_WORD :: u64 where
  "MAGIC_WORD = 120"

definition REPLACES :: u64 where
  "REPLACES = 121"

section \<open>Membership\<close>

definition bundle_is_defined :: "u64 \<Rightarrow> bool" where
  "bundle_is_defined type_code \<longleftrightarrow>
     64 \<le> type_code \<and> type_code \<le> 72 \<or> type_code = REJECTION_REASON
     \<or> type_code = REJECTION_DESCRIPTION \<or> type_code = TLV_HASH"

definition is_defined :: "u64 \<Rightarrow> bool" where
  "is_defined type_code \<longleftrightarrow>
     type_code \<le> 9 \<or> 96 \<le> type_code \<and> type_code \<le> 98 \<or> 101 \<le> type_code \<and> type_code \<le> 121
     \<or> bundle_is_defined type_code"

definition is_request :: "u64 \<Rightarrow> bool" where
  "is_request type_code \<longleftrightarrow>
     type_code \<in> {MESSAGE, FILE, FILE_REQUEST, POLL_MESSAGES, POLL_FILES, POLL_FILE_REQUESTS,
                  PUBLIC_KEY_REQUEST}"

section \<open>Rewriting\<close>

lemmas type_codes =
  ORIGIN_def SIGNATURE_def SIGNED_DATA_def SIGNED_TLV_def TIMESTAMP_def DESTINATION_def
  ADDRESS_def PUBLIC_KEY_def SIGNED_ORIGIN_def MESSAGE_def FILE_def FILE_REQUEST_def
  REJECTED_def ACCEPTED_def POLL_MESSAGES_def POLL_FILES_def POLL_FILE_REQUESTS_def
  PUBLIC_KEY_REQUEST_def REJECTION_REASON_def REJECTION_DESCRIPTION_def TLV_HASH_def
  FILENAME_def CONTENTS_def REQUEST_IDENTIFIER_def LEGACY_ATTRIBUTES_def
  TIMESTAMP_OFFSET_def TO_USER_NAME_def FROM_USER_NAME_def SUBJECT_def MESSAGE_TEXT_def
  AREA_def AREA_NAME_def AREA_DESCRIPTION_def TEAR_LINE_def ORIGIN_LINE_def SEEN_BY_def
  VIA_def MESSAGE_ID_def REPLY_TO_def ORIGINAL_CHARACTER_SET_def
  ADDITIONAL_KLUDGE_LINE_def SHORT_DESCRIPTION_def LONG_DESCRIPTION_LINE_def
  MAGIC_WORD_def REPLACES_def

declare type_codes [simp]

lemma is_request_defined: "is_request t \<Longrightarrow> is_defined t"
  by (auto simp: is_request_def is_defined_def bundle_is_defined_def)

end
