(* ===== verification/Common.thy ===== *)
theory Common
  imports Tlv Address Wire_Types
begin

text \<open>
  Common values and signed containers: \<open>error.rs\<close>, \<open>identity.rs\<close> and \<open>common.rs\<close> of
  \<open>crates/tith-wire/src\<close>.

  The cryptography is libhydrogen behind \<open>crates/tith-crypto\<close>; it is a parameter here, the record
  \<open>crypto\<close> of the three operations the wire format calls.  \<open>crypto_ok\<close> states what the format
  relies on: a signature has 64 bytes and verifies under the public half of the key that made
  it, and a hash has 32 bytes.
\<close>

section \<open>Errors and identities\<close>

datatype crypto_error = Initialization | Operation | InvalidCiphertext | CryptoLengthOverflow

text \<open>\<open>Panicked\<close> is no constructor of the source: it stands for a panic of \<open>expect\<close>.\<close>

datatype bundle_error =
    BFraming framing_error
  | BAddress address_error
  | BInteger integer_error
  | BCrypto crypto_error
  | InvalidUtf8
  | Duplicate string
  | Missing string
  | Unexpected string
  | WrongLength string
  | UnknownKey address
  | InvalidSignature
  | IncorrectHeaderHash
  | Panicked

record identity =
  id_address :: address
  id_key :: bytes

definition same_system_as :: "identity \<Rightarrow> identity \<Rightarrow> bool" where
  "same_system_as a b \<longleftrightarrow>
     id_address a = id_address b \<and> (\<not> is_anonymous (id_address a) \<or> id_key a = id_key b)"

record crypto =
  sign_tlv :: "bytes \<Rightarrow> bytes \<Rightarrow> crypto_error + bytes"
  verify_tlv :: "bytes \<Rightarrow> bytes \<Rightarrow> bytes \<Rightarrow> crypto_error + bool"
  hash_tlv :: "bytes \<Rightarrow> crypto_error + bytes"

text \<open>\<open>SecretKey::public_key\<close>: libhydrogen keeps the public half at the end of the secret.\<close>

definition secret_public :: "bytes \<Rightarrow> bytes" where
  "secret_public secret = drop 32 secret"

definition crypto_ok :: "crypto \<Rightarrow> bool" where
  "crypto_ok C \<longleftrightarrow>
     (\<forall>d secret s. sign_tlv C d secret = Inr s \<longrightarrow>
        length s = 64 \<and> verify_tlv C d s (secret_public secret) = Inr True) \<and>
     (\<forall>d h. hash_tlv C d = Inr h \<longrightarrow> length h = 32)"

type_synonym key_resolver = "address \<Rightarrow> bytes option"

section \<open>Values\<close>

definition address_value :: "owned_tlv \<Rightarrow> bundle_error + address" where
  "address_value t =
     and_then (map_err (\<lambda>_. InvalidUtf8) (from_utf8 (tlv_value t))) (\<lambda>text.
     map_err BAddress (address_from_str text))"

definition public_key_value :: "owned_tlv \<Rightarrow> bundle_error + bytes" where
  "public_key_value t =
     (if length (tlv_value t) = 32 then Inr (tlv_value t) else Inl (WrongLength ''PublicKey''))"

definition signature_value :: "owned_tlv \<Rightarrow> bundle_error + bytes" where
  "signature_value t =
     (if length (tlv_value t) = 64 then Inr (tlv_value t) else Inl (WrongLength ''Signature''))"

definition identity_of ::
    "owned_tlv \<Rightarrow> owned_tlv option \<Rightarrow> key_resolver \<Rightarrow> bundle_error + identity" where
  "identity_of address_tlv public_key_tlv resolver =
     and_then (address_value address_tlv) (\<lambda>a.
     and_then
       (if is_anonymous a then
          and_then (ok_or (Missing ''PublicKey for anonymous address'') public_key_tlv) public_key_value
        else ok_or (UnknownKey a) (resolver a))
       (\<lambda>k. Inr \<lparr>id_address = a, id_key = k\<rparr>))"

section \<open>Signed containers\<close>

datatype unknown_children = Allow | Reject

text \<open>The loop over the children after the origin; the state is what was found and the stage.\<close>

fun signed_parts_loop ::
    "unknown_children \<Rightarrow> owned_tlv option \<Rightarrow> owned_tlv option \<Rightarrow> nat \<Rightarrow> owned_tlv list
     \<Rightarrow> bundle_error + owned_tlv option \<times> owned_tlv option" where
  "signed_parts_loop unknown signed_data signature stage [] = Inr (signed_data, signature)"
| "signed_parts_loop unknown signed_data signature stage (child # children) =
     (if tlv_type child = SIGNED_DATA \<and> stage = 0
      then signed_parts_loop unknown (Some child) signature 1 children
      else if tlv_type child = SIGNATURE \<and> stage = 1
      then signed_parts_loop unknown signed_data (Some child) 2 children
      else if is_defined (tlv_type child) then Inl (Unexpected ''defined SignedTLV child'')
      else if unknown = Reject then Inl (Unexpected ''unknown SignedTLV child'')
      else signed_parts_loop unknown signed_data signature stage children)"

definition nth_opt :: "'a list \<Rightarrow> nat \<Rightarrow> 'a option" where
  "nth_opt xs i = (if i < length xs then Some (xs ! i) else None)"

definition has_type :: "u64 \<Rightarrow> owned_tlv option \<Rightarrow> bool" where
  "has_type ty t \<longleftrightarrow> (case t of None \<Rightarrow> False | Some t \<Rightarrow> tlv_type t = ty)"

text \<open>The optional Origin and its conditional PublicKey, with the index after them.\<close>

definition signed_tlv_origin ::
    "owned_tlv list \<Rightarrow> bundle_error + owned_tlv option \<times> owned_tlv option \<times> nat" where
  "signed_tlv_origin children =
     (case nth_opt children 0 of
        Some origin \<Rightarrow>
          if tlv_type origin = ORIGIN then
            and_then (address_value origin) (\<lambda>a.
            let key = nth_opt children 1 in
            if is_anonymous a then
              if has_type PUBLIC_KEY key then Inr (Some origin, key, 2)
              else Inl (Missing ''PublicKey after anonymous Origin'')
            else if has_type PUBLIC_KEY key
            then Inl (Unexpected ''PublicKey after non-anonymous Origin'')
            else Inr (Some origin, None, 1))
          else Inr (None, None, 0)
      | None \<Rightarrow> Inr (None, None, 0))"

definition signed_tlv_parts ::
    "owned_tlv \<Rightarrow> unknown_children
     \<Rightarrow> bundle_error + owned_tlv option \<times> owned_tlv option \<times> owned_tlv \<times> owned_tlv" where
  "signed_tlv_parts t unknown =
     (if tlv_type t \<noteq> SIGNED_TLV then Inl (Unexpected ''non-SignedTLV'')
      else
        and_then (map_err BFraming (parse_sequence (tlv_value t))) (\<lambda>children.
        and_then (signed_tlv_origin children) (\<lambda>(origin, public_key, index).
        and_then (signed_parts_loop unknown None None 0 (drop index children))
          (\<lambda>(signed_data, signature).
        and_then (ok_or (Missing ''SignedData'') signed_data) (\<lambda>sd.
        and_then (ok_or (Missing ''Signature'') signature) (\<lambda>sig.
        Inr (origin, public_key, sd, sig)))))))"

record verified_signed_tlv =
  ver_encoded :: bytes
  ver_identity :: identity
  ver_data :: "owned_tlv list"

definition verify_signed_tlv_with_policy ::
    "crypto \<Rightarrow> owned_tlv \<Rightarrow> identity option \<Rightarrow> key_resolver \<Rightarrow> unknown_children
     \<Rightarrow> bundle_error + verified_signed_tlv" where
  "verify_signed_tlv_with_policy C t inherited resolver unknown =
     and_then (signed_tlv_parts t unknown) (\<lambda>(origin_tlv, public_key_tlv, signed_data, signature_tlv).
     and_then
       (case origin_tlv of
          Some origin \<Rightarrow> identity_of origin public_key_tlv resolver
        | None \<Rightarrow> ok_or (Missing ''applicable Origin'') inherited) (\<lambda>who.
     and_then (signature_value signature_tlv) (\<lambda>signature.
     and_then (map_err BCrypto (verify_tlv C (tlv_value signed_data) signature (id_key who))) (\<lambda>valid.
     if \<not> valid then Inl InvalidSignature
     else
       and_then (map_err (\<lambda>_. Panicked) (tlv_encode t)) (\<lambda>encoded.
       and_then (map_err BFraming (parse_sequence (tlv_value signed_data))) (\<lambda>children.
       Inr \<lparr>ver_encoded = encoded, ver_identity = who, ver_data = children\<rparr>))))))"

definition verify_signed_tlv ::
    "crypto \<Rightarrow> owned_tlv \<Rightarrow> identity option \<Rightarrow> key_resolver \<Rightarrow> bundle_error + verified_signed_tlv" where
  "verify_signed_tlv C t inherited resolver =
     verify_signed_tlv_with_policy C t inherited resolver Allow"

definition unauthenticated_signed_data :: "owned_tlv \<Rightarrow> bundle_error + owned_tlv list" where
  "unauthenticated_signed_data t =
     and_then (signed_tlv_parts t Allow) (\<lambda>(_, _, signed_data, _).
     map_err BFraming (parse_sequence (tlv_value signed_data)))"

text \<open>\<open>concatenate\<close> writes each value in turn and unwraps with \<open>expect\<close>.\<close>

fun concatenate_into :: "bytes \<Rightarrow> owned_tlv list \<Rightarrow> bundle_error + bytes" where
  "concatenate_into output [] = Inr output"
| "concatenate_into output (t # ts) =
     and_then (map_err (\<lambda>_. Panicked) (tlv_write_to t output)) (\<lambda>output'. concatenate_into output' ts)"

definition concatenate :: "owned_tlv list \<Rightarrow> bundle_error + bytes" where
  "concatenate values = concatenate_into [] values"

definition origin_children :: "identity \<Rightarrow> owned_tlv list" where
  "origin_children origin =
     \<lparr>tlv_type = ORIGIN, tlv_value = address_to_string (id_address origin)\<rparr> #
     (if is_anonymous (id_address origin)
      then [\<lparr>tlv_type = PUBLIC_KEY, tlv_value = id_key origin\<rparr>] else [])"

definition build_signed_tlv ::
    "crypto \<Rightarrow> owned_tlv list \<Rightarrow> identity option \<Rightarrow> bytes \<Rightarrow> bundle_error + owned_tlv" where
  "build_signed_tlv C data origin secret =
     and_then (concatenate data) (\<lambda>data_bytes.
     and_then (map_err BCrypto (sign_tlv C data_bytes secret)) (\<lambda>signature.
     let children =
       (case origin of None \<Rightarrow> [] | Some who \<Rightarrow> origin_children who)
       @ [\<lparr>tlv_type = SIGNED_DATA, tlv_value = data_bytes\<rparr>,
          \<lparr>tlv_type = SIGNATURE, tlv_value = signature\<rparr>]
     in and_then (concatenate children) (\<lambda>v.
        Inr \<lparr>tlv_type = SIGNED_TLV, tlv_value = v\<rparr>)))"

section \<open>Lemmas\<close>

lemma concatenate_into_eq:
  "concatenate_into out ts =
     (if list_all (\<lambda>t. tlv_type t \<noteq> 0) ts then Inr (out @ seq_bytes ts) else Inl Panicked)"
  by (induction ts arbitrary: out) (auto simp: tlv_write_to_eq)

lemma concatenate_eq:
  "concatenate ts = (if list_all (\<lambda>t. tlv_type t \<noteq> 0) ts then Inr (seq_bytes ts) else Inl Panicked)"
  by (simp add: concatenate_def concatenate_into_eq)

lemma show_nat_ascii: "ascii (show_nat n)"
  using show_nat_digits [of _ n] digit_not_terminator by (auto simp: ascii_def list_all_iff)

lemma show_int_ascii: "ascii (show_int i)"
  using show_nat_ascii by (auto simp: show_int_def ascii_def)

lemma address_to_string_valid: "wf_address a \<Longrightarrow> valid_utf8 (address_to_string a)"
  using show_int_ascii show_nat_ascii
  by (auto simp: address_to_string_def wf_address_iff valid_utf8_append ascii_def intro!: valid_utf8_ascii)

lemma address_value_show [simp]:
  "wf_address a \<Longrightarrow> address_value \<lparr>tlv_type = ty, tlv_value = address_to_string a\<rparr> = Inr a"
  by (simp add: address_value_def from_utf8_def address_to_string_valid address_from_str_show)

lemma address_value_wf: "address_value t = Inr a \<Longrightarrow> wf_address a"
  using address_from_str_sound by (auto simp: address_value_def result_simps)

text \<open>An identity the program can hold: a valid address, a key of 32 bytes, text that fits a \<open>String\<close>.\<close>

definition wf_identity :: "identity \<Rightarrow> bool" where
  "wf_identity who \<longleftrightarrow> wf_address (id_address who) \<and> length (id_key who) = 32 \<and>
     length (address_to_string (id_address who)) < vec_limit"

text \<open>A resolver that answers with an identity's key where the wire format does not carry it.\<close>

definition resolves :: "key_resolver \<Rightarrow> identity \<Rightarrow> bool" where
  "resolves resolver who \<longleftrightarrow>
     is_anonymous (id_address who) \<or> resolver (id_address who) = Some (id_key who)"


lemma vec_limit_less: "n < vec_limit \<Longrightarrow> n < 18446744073709551616"
  by (simp add: vec_limit_def)

lemma identity_of_origin:
  assumes "wf_identity who" and "resolves resolver who"
  shows "identity_of \<lparr>tlv_type = ty, tlv_value = address_to_string (id_address who)\<rparr>
     (if is_anonymous (id_address who) then Some \<lparr>tlv_type = PUBLIC_KEY, tlv_value = id_key who\<rparr> else None)
     resolver = Inr who"
  using assms by (auto simp: identity_of_def wf_identity_def resolves_def public_key_value_def)

lemma origin_children_wf: "wf_identity who \<Longrightarrow> list_all wf_tlv (origin_children who)"
  by (auto simp: origin_children_def wf_tlv_def wf_identity_def dest: vec_limit_less)

lemma signed_tlv_origin_children:
  assumes "wf_identity who" and "tlv_type t = SIGNED_DATA"
  shows "signed_tlv_origin (origin_children who @ t # ts) =
    Inr (Some \<lparr>tlv_type = ORIGIN, tlv_value = address_to_string (id_address who)\<rparr>,
         if is_anonymous (id_address who) then Some \<lparr>tlv_type = PUBLIC_KEY, tlv_value = id_key who\<rparr> else None,
         length (origin_children who))"
  using assms
  by (auto simp: signed_tlv_origin_def origin_children_def nth_opt_def has_type_def wf_identity_def Let_def)

lemma signed_tlv_parts_built:
  assumes "list_all wf_tlv os" and "wf_tlv sd" and "wf_tlv sig"
    and "tlv_type sd = SIGNED_DATA" and "tlv_type sig = SIGNATURE"
    and "signed_tlv_origin (os @ [sd, sig]) = Inr (origin, key, length os)"
  shows "signed_tlv_parts \<lparr>tlv_type = SIGNED_TLV, tlv_value = seq_bytes (os @ [sd, sig])\<rparr> unknown =
    Inr (origin, key, sd, sig)"
  using assms parse_sequence_bytes [of "os @ [sd, sig]"] by (simp add: signed_tlv_parts_def)

lemma build_signed_tlv_eq:
  assumes "build_signed_tlv C data origin secret = Inr t"
  obtains signature where "list_all (\<lambda>t. tlv_type t \<noteq> 0) data"
    and "sign_tlv C (seq_bytes data) secret = Inr signature"
    and "t = \<lparr>tlv_type = SIGNED_TLV, tlv_value =
           seq_bytes ((case origin of None \<Rightarrow> [] | Some who \<Rightarrow> origin_children who)
             @ [\<lparr>tlv_type = SIGNED_DATA, tlv_value = seq_bytes data\<rparr>,
                \<lparr>tlv_type = SIGNATURE, tlv_value = signature\<rparr>])\<rparr>"
  using assms
  by (auto simp: build_signed_tlv_def result_simps concatenate_eq Let_def split: if_splits)

lemma verify_built:
  assumes "crypto_ok C" and "build_signed_tlv C data origin secret = Inr t"
    and "list_all wf_tlv data" and "length (seq_bytes data) < vec_limit"
    and "wf_identity who" and "id_key who = secret_public secret" and "resolves resolver who"
    and "origin = Some who \<or> origin = None \<and> inherited = Some who"
  shows "verify_signed_tlv_with_policy C t inherited resolver unknown =
    Inr \<lparr>ver_encoded = tlv_bytes t, ver_identity = who, ver_data = data\<rparr>"
proof -
  obtain signature where sign: "sign_tlv C (seq_bytes data) secret = Inr signature"
    and t: "t = \<lparr>tlv_type = SIGNED_TLV, tlv_value =
           seq_bytes ((case origin of None \<Rightarrow> [] | Some who \<Rightarrow> origin_children who)
             @ [\<lparr>tlv_type = SIGNED_DATA, tlv_value = seq_bytes data\<rparr>,
                \<lparr>tlv_type = SIGNATURE, tlv_value = signature\<rparr>])\<rparr>"
    using build_signed_tlv_eq [OF assms(2)] by blast
  let ?sd = "\<lparr>tlv_type = SIGNED_DATA, tlv_value = seq_bytes data\<rparr>"
  let ?sig = "\<lparr>tlv_type = SIGNATURE, tlv_value = signature\<rparr>"
  have sig: "length signature = 64" "verify_tlv C (seq_bytes data) signature (secret_public secret) = Inr True"
    using assms(1) sign unfolding crypto_ok_def by blast+
  have wf: "wf_tlv ?sd" "wf_tlv ?sig"
    using assms(4) sig(1) by (auto simp: wf_tlv_def dest: vec_limit_less)
  have enc: "tlv_encode t = Inr (tlv_bytes t)" by (simp add: t tlv_encode_eq)
  have parsed: "parse_sequence (seq_bytes data) = Inr data"
    by (rule parse_sequence_bytes [OF assms(3)])
  note facts = signature_value_def sig assms(6) enc parsed
  show ?thesis
  proof (cases origin)
    case None
    have "signed_tlv_parts t unknown = Inr (None, None, ?sd, ?sig)"
      unfolding t None using wf
      by (intro signed_tlv_parts_built) (auto simp: signed_tlv_origin_def nth_opt_def)
    then show ?thesis using assms(8) None by (simp add: verify_signed_tlv_with_policy_def facts)
  next
    case (Some who')
    then have [simp]: "who' = who" using assms(8) by simp
    have "signed_tlv_parts t unknown =
        Inr (Some \<lparr>tlv_type = ORIGIN, tlv_value = address_to_string (id_address who)\<rparr>,
          if is_anonymous (id_address who) then Some \<lparr>tlv_type = PUBLIC_KEY, tlv_value = id_key who\<rparr> else None,
          ?sd, ?sig)"
      unfolding t Some using wf origin_children_wf [OF assms(5)] signed_tlv_origin_children [OF assms(5)]
      by (intro signed_tlv_parts_built) auto
    then show ?thesis
      using identity_of_origin [OF assms(5,7)] by (simp add: verify_signed_tlv_with_policy_def facts)
  qed
qed

text \<open>
  What is signed verifies.  For data of well-formed values, a SignedTLV built by
  \<open>build_signed_tlv\<close> --- with an Origin, or without one under an inherited identity --- is accepted
  by \<open>verify_signed_tlv\<close> under any policy for unknown children, and yields the signing identity,
  the data as given and the exact encoding, whenever the key is the signer's and the resolver
  knows it.
\<close>

theorem signed_tlv_roundtrip:
  assumes "crypto_ok C" and "build_signed_tlv C data origin secret = Inr t"
    and "list_all wf_tlv data" and "length (seq_bytes data) < vec_limit"
    and "wf_identity who" and "id_key who = secret_public secret" and "resolves resolver who"
    and "origin = Some who \<or> origin = None \<and> inherited = Some who"
  shows "verify_signed_tlv_with_policy C t inherited resolver unknown =
    Inr \<lparr>ver_encoded = tlv_bytes t, ver_identity = who, ver_data = data\<rparr>"
  using assms by (rule verify_built)

text \<open>A concrete instance of the parameter, which the witnesses use: the key, the data, padding.\<close>

definition sample_crypto :: crypto where
  "sample_crypto =
     \<lparr>sign_tlv = (\<lambda>d secret. Inr (take 64 (secret_public secret @ d @ replicate 64 0))),
      verify_tlv = (\<lambda>d s key. Inr (s = take 64 (key @ d @ replicate 64 0))),
      hash_tlv = (\<lambda>d. Inr (take 32 (d @ replicate 32 0)))\<rparr>"

lemma sample_crypto_ok: "crypto_ok sample_crypto"
  by (auto simp: crypto_ok_def sample_crypto_def)

definition sample_identity :: identity where
  "sample_identity =
     \<lparr>id_address = \<lparr>domain = lit ''fido'', zone = 1, net = 2, node = 3, point = 0\<rparr>,
      id_key = replicate 32 7\<rparr>"

lemma sample_identity_wf: "wf_identity sample_identity"
proof -
  have "wf_address (id_address sample_identity)" by code_simp
  moreover have "address_to_string (id_address sample_identity) = lit ''fido#1:2/3''" by code_simp
  ultimately show ?thesis by (simp add: wf_identity_def sample_identity_def vec_limit_def)
qed

definition sample_secret :: bytes where
  "sample_secret = replicate 64 7"

lemma sample_identity_key: "id_key sample_identity = secret_public sample_secret"
  by (simp add: sample_identity_def sample_secret_def secret_public_def)

definition sample_resolver :: key_resolver where
  "sample_resolver a = (if a = id_address sample_identity then Some (id_key sample_identity) else None)"

lemma sample_resolves: "resolves sample_resolver sample_identity"
  by (simp add: resolves_def sample_resolver_def)

lemma sample_data_fits: "length (seq_bytes [\<lparr>tlv_type = 5, tlv_value = [1]\<rparr>]) < vec_limit"
proof -
  have "encode_u64 5 = [5]" "encode_u64 1 = [1]" by code_simp+
  then show ?thesis by (simp add: tlv_bytes_def vec_limit_def)
qed

lemma sample_built:
  "\<exists>t. build_signed_tlv sample_crypto [\<lparr>tlv_type = 5, tlv_value = [1]\<rparr>] (Some sample_identity) sample_secret = Inr t"
proof (rule not_isl)
  show "\<not> isl (build_signed_tlv sample_crypto [\<lparr>tlv_type = 5, tlv_value = [1]\<rparr>]
      (Some sample_identity) sample_secret)" by code_simp
qed

text \<open>One value signed by a node and verified with the key its resolver knows.\<close>

theorem signed_tlv_roundtrip_witness:
  "\<exists>t. build_signed_tlv sample_crypto [\<lparr>tlv_type = 5, tlv_value = [1]\<rparr>] (Some sample_identity) sample_secret = Inr t \<and>
     verify_signed_tlv_with_policy sample_crypto t None sample_resolver Reject =
       Inr \<lparr>ver_encoded = tlv_bytes t, ver_identity = sample_identity,
            ver_data = [\<lparr>tlv_type = 5, tlv_value = [1]\<rparr>]\<rparr>"
proof -
  obtain t where t: "build_signed_tlv sample_crypto [\<lparr>tlv_type = 5, tlv_value = [1]\<rparr>]
      (Some sample_identity) sample_secret = Inr t"
    using sample_built by blast
  from signed_tlv_roundtrip [OF sample_crypto_ok t _ sample_data_fits sample_identity_wf
      sample_identity_key sample_resolves, of None Reject] t
  show ?thesis by (simp add: wf_tlv_def)
qed

lemma sample_verifies:
  "\<exists>t v. verify_signed_tlv_with_policy sample_crypto t None sample_resolver u = Inr v"
proof -
  obtain t where t: "build_signed_tlv sample_crypto [\<lparr>tlv_type = 5, tlv_value = [1]\<rparr>]
      (Some sample_identity) sample_secret = Inr t"
    using sample_built by blast
  from verify_built [OF sample_crypto_ok t _ sample_data_fits sample_identity_wf
      sample_identity_key sample_resolves, of None u]
  show ?thesis by (simp add: wf_tlv_def) blast
qed

lemma signed_tlv_parts_sound:
  assumes "signed_tlv_parts t unknown = Inr (origin, key, sd, sig)"
  shows "tlv_type t = SIGNED_TLV \<and>
    (\<exists>children. parse_sequence (tlv_value t) = Inr children \<and> sd \<in> set children \<and> sig \<in> set children) \<and>
    tlv_type sd = SIGNED_DATA \<and> tlv_type sig = SIGNATURE"
proof -
  have found: "(d' = d \<or> (\<exists>c\<in>set cs. d' = Some c \<and> tlv_type c = SIGNED_DATA)) \<and>
      (s' = s \<or> (\<exists>c\<in>set cs. s' = Some c \<and> tlv_type c = SIGNATURE))"
    if "signed_parts_loop u d s n cs = Inr (d', s')" for u d s n cs d' s'
    using that by (induction u d s n cs rule: signed_parts_loop.induct) (auto split: if_splits)
  from assms obtain children i where "tlv_type t = SIGNED_TLV"
    and "parse_sequence (tlv_value t) = Inr children"
    and "signed_parts_loop unknown None None 0 (drop i children) = Inr (Some sd, Some sig)"
    by (auto simp: signed_tlv_parts_def result_simps split: if_splits)
  with found [OF this(3)] show ?thesis by (auto dest: in_set_dropD)
qed

text \<open>
  C5.  Nothing unverified is accepted.  Whatever \<open>verify_signed_tlv\<close> accepts is a SignedTLV whose
  SignedData verifies under the Signature it carries and the key of the identity reported; the
  data reported is the parsed SignedData and the encoding reported is that of the value itself.
  The identity is the inherited one when there is no Origin; otherwise its address is the
  Origin's and its key is the one the resolver has for that address, or for an anonymous address
  the 32 bytes of the PublicKey carried inline.
\<close>

theorem signed_tlv_soundness:
  assumes "verify_signed_tlv C t inherited resolver = Inr v"
  shows "\<exists>origin key sd sig. signed_tlv_parts t Allow = Inr (origin, key, sd, sig) \<and>
    verify_tlv C (tlv_value sd) (tlv_value sig) (id_key (ver_identity v)) = Inr True \<and>
    length (tlv_value sig) = 64 \<and>
    parse_sequence (tlv_value sd) = Inr (ver_data v) \<and>
    ver_encoded v = tlv_bytes t \<and>
    (case origin of
       None \<Rightarrow> inherited = Some (ver_identity v)
     | Some ot \<Rightarrow> address_value ot = Inr (id_address (ver_identity v)) \<and>
         (if is_anonymous (id_address (ver_identity v))
          then (\<exists>kt. key = Some kt \<and> tlv_value kt = id_key (ver_identity v) \<and> length (tlv_value kt) = 32)
          else resolver (id_address (ver_identity v)) = Some (id_key (ver_identity v))))"
proof -
  from assms obtain origin key sd sig where
    parts: "signed_tlv_parts t Allow = Inr (origin, key, sd, sig)"
    and who: "(case origin of Some ot \<Rightarrow> identity_of ot key resolver
        | None \<Rightarrow> ok_or (Missing ''applicable Origin'') inherited) = Inr (ver_identity v)"
    and rest: "length (tlv_value sig) = 64"
      "verify_tlv C (tlv_value sd) (tlv_value sig) (id_key (ver_identity v)) = Inr True"
      "parse_sequence (tlv_value sd) = Inr (ver_data v)" "tlv_encode t = Inr (ver_encoded v)"
    by (auto simp: verify_signed_tlv_def verify_signed_tlv_with_policy_def result_simps signature_value_def
        split: if_splits)
  have "ver_encoded v = tlv_bytes t" using rest(4) by (auto simp: tlv_encode_eq split: if_splits)
  moreover have "case origin of
       None \<Rightarrow> inherited = Some (ver_identity v)
     | Some ot \<Rightarrow> address_value ot = Inr (id_address (ver_identity v)) \<and>
         (if is_anonymous (id_address (ver_identity v))
          then (\<exists>kt. key = Some kt \<and> tlv_value kt = id_key (ver_identity v) \<and> length (tlv_value kt) = 32)
          else resolver (id_address (ver_identity v)) = Some (id_key (ver_identity v)))"
    using who
    by (cases "ver_identity v") (auto simp: identity_of_def result_simps public_key_value_def split: option.splits if_splits)
  ultimately show ?thesis using parts rest by blast
qed

text \<open>The value signed above, verified under the key the resolver knows.\<close>

theorem signed_tlv_soundness_witness:
  "\<exists>t v (sd :: owned_tlv) (sig :: owned_tlv). verify_signed_tlv sample_crypto t None sample_resolver = Inr v \<and>
     verify_tlv sample_crypto (tlv_value sd) (tlv_value sig) (id_key (ver_identity v)) = Inr True \<and>
     parse_sequence (tlv_value sd) = Inr (ver_data v)"
proof -
  obtain t v where v: "verify_signed_tlv sample_crypto t None sample_resolver = Inr v"
    using sample_verifies unfolding verify_signed_tlv_def by blast
  from signed_tlv_soundness [OF v] obtain sd sig :: owned_tlv where
    "verify_tlv sample_crypto (tlv_value sd) (tlv_value sig) (id_key (ver_identity v)) = Inr True"
    "parse_sequence (tlv_value sd) = Inr (ver_data v)" by blast
  with v show ?thesis by (intro exI [of _ t] exI [of _ v] exI [of _ sd] exI [of _ sig]) simp
qed

end
