(* ===== verification/Item_Format.thy ===== *)
theory Item_Format
  imports Common
begin

text \<open>
  Carrier-independent item data: \<open>crates/tith-wire/src/item_format.rs\<close>.  The data records of
  messages and files, the filename rules, and the \<open>Replaces\<close> matcher with its equivalence to
  the declarative reading of the pattern.
\<close>

section \<open>Data\<close>

record area_data =
  area_name :: str
  area_description :: "str option"

record attachment_data =
  att_filename :: "str option"
  att_timestamp :: "u64 option"
  att_contents :: bytes
  att_short_description :: "str option"
  att_long_description_lines :: "str list"
  att_tear_line :: "str option"
  att_magic_word :: "str option"
  att_replaces :: "str option"

record message_data =
  msg_destination :: "identity option"
  msg_timestamp :: u64
  msg_to_user :: str
  msg_from_user :: str
  msg_subject :: str
  msg_text :: str
  msg_area :: "area_data option"
  msg_attachments :: "attachment_data list"
  msg_legacy_attributes :: "u64 option"
  msg_timestamp_offset :: "int option"
  msg_tear_line :: "str option"
  msg_origin_line :: "str option"
  msg_message_id :: "str option"
  msg_reply_to :: "(address \<times> str) option"
  msg_original_character_set :: "str option"
  msg_additional_kludge_lines :: "str list"

record standalone_file_data =
  file_filename :: "str option"
  file_timestamp :: "u64 option"
  file_contents :: bytes
  file_area :: "area_data option"
  file_short_description :: "str option"
  file_long_description_lines :: "str list"
  file_tear_line :: "str option"
  file_magic_word :: "str option"
  file_replaces :: "str option"

datatype signed_item_kind = SignedMessage | SignedFile

datatype item_model_kind = ModelMessage | ModelStandaloneFile | ModelFileRequest

record item_model =
  model_kind :: item_model_kind
  model_children :: "owned_tlv list"

definition encode_value :: "item_model \<Rightarrow> bundle_error + bytes" where
  "encode_value m = concatenate (model_children m)"

section \<open>Filenames\<close>

definition filename_is_portable :: "str \<Rightarrow> bool" where
  "filename_is_portable v \<longleftrightarrow>
     \<not> list_ex (\<lambda>c. c \<le> 0x1f \<or> c \<in> {0x7f, 34, 42, 47, 58, 60, 62, 63, 92, 124}) (chars v)"

definition filename_has_path_component :: "str \<Rightarrow> bool" where
  "filename_has_path_component v \<longleftrightarrow> list_ex (\<lambda>c. c = 47 \<or> c = 92) (chars v)"

section \<open>Replaces patterns\<close>

text \<open>
  The backtracking loop over indices: pattern position, filename position, the position of the
  last star and the filename position to retry from.  \<open>None\<close> is the early \<open>return false\<close>.
\<close>

type_synonym glob_state = "nat \<times> nat \<times> nat option \<times> nat"

fun glob_inv :: "glob_state \<Rightarrow> bool" where
  "glob_inv (pi, fi, None, retry) = True"
| "glob_inv (pi, fi, Some s, retry) = (s < pi \<and> retry \<le> fi)"

function glob_loop :: "nat list \<Rightarrow> nat list \<Rightarrow> glob_state \<Rightarrow> nat option" where
  "glob_loop pattern filename (pi, fi, star, retry) =
     (if fi < length filename then
        if pi < length pattern \<and> (pattern ! pi = 63 \<or> pattern ! pi = filename ! fi)
        then glob_loop pattern filename (pi + 1, fi + 1, star, retry)
        else if pi < length pattern \<and> pattern ! pi = 42
        then glob_loop pattern filename (pi + 1, fi, Some pi, fi)
        else (case star of
                Some s \<Rightarrow> glob_loop pattern filename (s + 1, retry + 1, star, retry + 1)
              | None \<Rightarrow> None)
      else Some pi)"
  by pat_completeness auto
termination
proof (relation "measures [\<lambda>(p, f, st). if glob_inv st then 0 else 1,
    \<lambda>(p, f, pi, fi, star, retry). (case star of None \<Rightarrow> Suc (length p) | Some s \<Rightarrow> length p - s),
    \<lambda>(p, f, pi, fi, star, retry). length f - retry,
    \<lambda>(p, f, pi, fi, star, retry). length f - fi]", goal_cases)
  case (2 pattern filename pi fi star retry)
  then show ?case by (cases star) auto
next
  case (3 pattern filename pi fi star retry)
  then show ?case by (cases star) auto
next
  case (4 pattern filename pi fi star retry s)
  then show ?case by auto
qed simp

declare glob_loop.simps [simp del]

function skip_stars :: "nat list \<Rightarrow> nat \<Rightarrow> nat" where
  "skip_stars pattern pi =
     (if pi < length pattern \<and> pattern ! pi = 42 then skip_stars pattern (pi + 1) else pi)"
  by pat_completeness auto
termination
  by (relation "measure (\<lambda>(p, pi). length p - pi)") auto

declare skip_stars.simps [simp del]

definition replaces_matches :: "str \<Rightarrow> str \<Rightarrow> bool" where
  "replaces_matches pattern filename =
     (let p = chars pattern; f = chars filename in
      case glob_loop p f (0, 0, None, 0) of
        None \<Rightarrow> False
      | Some pi \<Rightarrow> skip_stars p pi = length p)"

text \<open>The declarative reading: \<open>?\<close> is any one character, \<open>*\<close> any run of them, the rest literal.\<close>

fun glob :: "nat list \<Rightarrow> nat list \<Rightarrow> bool" where
  "glob [] f \<longleftrightarrow> f = []"
| "glob (c # p) f \<longleftrightarrow>
     (if c = 42 then (\<exists>k\<le>length f. glob p (drop k f))
      else f \<noteq> [] \<and> (c = 63 \<or> c = hd f) \<and> glob p (tl f))"

section \<open>The matcher and the pattern\<close>

lemma glob_segment:
  "42 \<notin> set seg \<Longrightarrow> glob (seg @ p) f \<Longrightarrow> length seg \<le> length f \<and> glob p (drop (length seg) f)"
proof (induction seg arbitrary: f)
  case (Cons c seg)
  then have "f \<noteq> []" "glob (seg @ p) (tl f)" by auto
  with Cons show ?case by (cases f) auto
qed simp

lemma glob_star: "glob (42 # p) (drop i f) \<longleftrightarrow> (\<exists>k\<ge>i. k \<le> length f \<and> glob p (drop k f))"
  if "i \<le> length f"
proof
  assume "glob (42 # p) (drop i f)"
  then obtain k where "k \<le> length f - i" "glob p (drop (k + i) f)" by (auto simp: add.commute)
  then show "\<exists>k\<ge>i. k \<le> length f \<and> glob p (drop k f)" using that by (intro exI [of _ "k + i"]) auto
next
  assume "\<exists>k\<ge>i. k \<le> length f \<and> glob p (drop k f)"
  then obtain k where "i \<le> k" "k \<le> length f" "glob p (drop k f)" by blast
  then show "glob (42 # p) (drop i f)" by (auto intro!: exI [of _ "k - i"])
qed

lemma skip_stars_end: "pi \<le> length p \<Longrightarrow> skip_stars p pi = length p \<longleftrightarrow> glob (drop pi p) []"
proof (induction p pi rule: skip_stars.induct)
  case (1 p pi)
  show ?case
  proof (cases "pi < length p")
    case True
    then have "drop pi p = p ! pi # drop (Suc pi) p" by (simp add: Cons_nth_drop_Suc)
    then show ?thesis using 1 True by (simp add: skip_stars.simps [of p pi])
  next
    case False
    then show ?thesis using "1.prems" by (simp add: skip_stars.simps [of p "length p"])
  qed
qed

text \<open>
  What holds at the head of the loop: after the last star only literal characters and question
  marks were used, one per filename character since the position to retry from.
\<close>

fun glob_head :: "nat list \<Rightarrow> nat list \<Rightarrow> glob_state \<Rightarrow> bool" where
  "glob_head p f (pi, fi, None, retry) = (pi \<le> length p \<and> fi \<le> length f)"
| "glob_head p f (pi, fi, Some s, retry) =
     (pi \<le> length p \<and> fi \<le> length f \<and> s < pi \<and> retry \<le> fi \<and> fi - retry = pi - Suc s \<and>
      42 \<notin> set (take (pi - Suc s) (drop (Suc s) p)))"

text \<open>Whether the rest can still match, now or after retrying from a later position.\<close>

fun glob_answer :: "nat list \<Rightarrow> nat list \<Rightarrow> glob_state \<Rightarrow> bool" where
  "glob_answer p f (pi, fi, None, retry) = glob (drop pi p) (drop fi f)"
| "glob_answer p f (pi, fi, Some s, retry) =
     (glob (drop pi p) (drop fi f) \<or> (\<exists>k>retry. k \<le> length f \<and> glob (drop (Suc s) p) (drop k f)))"

lemma glob_later:
  assumes "glob_head p f (pi, fi, Some s, retry)" and "retry < k" and "k \<le> length f"
    and "glob (drop (Suc s) p) (drop k f)"
  shows "k + (pi - Suc s) \<le> length f \<and> glob (drop pi p) (drop (k + (pi - Suc s)) f)"
proof -
  let ?seg = "take (pi - Suc s) (drop (Suc s) p)"
  have len: "length ?seg = pi - Suc s" using assms(1) by auto
  have "drop (Suc s) p = ?seg @ drop pi p"
    using assms(1) by (metis append_take_drop_id drop_drop glob_head.simps(2) le_add_diff_inverse2 less_eq_Suc_le)
  then have "length ?seg \<le> length (drop k f) \<and> glob (drop pi p) (drop (length ?seg) (drop k f))"
    using assms glob_segment [of ?seg "drop pi p" "drop k f"] by simp
  then show ?thesis using len assms(3) by (auto simp: add.commute)
qed

lemma ex_greater_Suc:
  assumes "Suc r \<le> n"
  shows "(\<exists>k>r. k \<le> n \<and> Q k) \<longleftrightarrow> Q (Suc r) \<or> (\<exists>k>Suc r. k \<le> n \<and> Q k)"
proof
  assume "\<exists>k>r. k \<le> n \<and> Q k"
  then obtain k where "r < k" "k \<le> n" "Q k" by blast
  then show "Q (Suc r) \<or> (\<exists>k>Suc r. k \<le> n \<and> Q k)" by (cases "k = Suc r") auto
next
  assume "Q (Suc r) \<or> (\<exists>k>Suc r. k \<le> n \<and> Q k)"
  then show "\<exists>k>r. k \<le> n \<and> Q k" using assms by (auto intro: Suc_lessD)
qed

lemma glob_loop_correct:
  assumes "42 \<notin> set f" and "glob_head p f st"
  shows "(case glob_loop p f st of None \<Rightarrow> False | Some pi \<Rightarrow> skip_stars p pi = length p) \<longleftrightarrow>
    glob_answer p f st"
  using assms
proof (induction p f st rule: glob_loop.induct)
  case (1 p f pi fi star retry)
  have bounds: "pi \<le> length p" "fi \<le> length f" using "1.prems"(2) by (cases star; simp)+
  show ?case
  proof (cases "fi < length f")
    case False
    then have fi: "fi = length f" using bounds by simp
    have "\<not> (\<exists>k>retry. k \<le> length f \<and> glob (drop (Suc s) p) (drop k f))" if "star = Some s" for s
      using glob_later [of p f pi fi s retry] "1.prems"(2) that fi by fastforce
    moreover have "glob_loop p f (pi, fi, star, retry) = Some pi"
      using False by (subst glob_loop.simps) simp
    ultimately show ?thesis using fi bounds by (cases star) (auto simp: skip_stars_end)
  next
    case more: True
    have f: "drop fi f = f ! fi # drop (Suc fi) f" using more by (simp add: Cons_nth_drop_Suc)
    have p: "drop pi p = p ! pi # drop (Suc pi) p" if "pi < length p"
      using that by (simp add: Cons_nth_drop_Suc)
    consider (match) "pi < length p" "p ! pi = 63 \<or> p ! pi = f ! fi"
      | (star) "pi < length p" "p ! pi = 42" "\<not> (p ! pi = 63 \<or> p ! pi = f ! fi)"
      | (retry) "\<not> (pi < length p \<and> (p ! pi = 63 \<or> p ! pi = f ! fi))" "\<not> (pi < length p \<and> p ! pi = 42)"
      by blast
    then show ?thesis
    proof cases
      case match
      have lit: "p ! pi \<noteq> 42" using match(2) nth_mem [OF more] "1.prems"(1) by auto
      have seg: "take (pi - s) (drop (Suc s) p) = take (pi - Suc s) (drop (Suc s) p) @ [p ! pi]" if "s < pi" for s
        using that match(1) take_Suc_conv_app_nth [of "pi - Suc s" "drop (Suc s) p"]
        by (simp add: Suc_diff_Suc)
      have head: "glob_head p f (pi + 1, fi + 1, star, retry)"
        using "1.prems"(2) match(1) more lit seg by (cases star) auto
      have "glob_answer p f (pi + 1, fi + 1, star, retry) = glob_answer p f (pi, fi, star, retry)"
        using lit match(2) by (cases star) (auto simp: p [OF match(1)] f)
      moreover have "glob_loop p f (pi, fi, star, retry) = glob_loop p f (pi + 1, fi + 1, star, retry)"
        using match more by (subst glob_loop.simps) simp
      ultimately show ?thesis using "1.IH"(1) [OF more _ "1.prems"(1) head] match by simp
    next
      case star
      have head: "glob_head p f (pi + 1, fi, Some pi, fi)" using bounds star by simp
      have drop: "drop pi p = 42 # drop (Suc pi) p" using p star by simp
      have now: "glob_answer p f (pi + 1, fi, Some pi, fi) \<longleftrightarrow> glob (drop pi p) (drop fi f)"
        unfolding drop glob_star [OF bounds(2)]
        using bounds(2) by (auto simp: nat_less_le)
      have "glob (drop pi p) (drop fi f)"
        if "star = Some s" "retry < k" "k \<le> length f" "glob (drop (Suc s) p) (drop k f)" for s k
      proof -
        have "fi \<le> k + (pi - Suc s)" using that "1.prems"(2) by auto
        moreover have "glob_head p f (pi, fi, Some s, retry)" using "1.prems"(2) that(1) by simp
        ultimately have "\<exists>j\<ge>fi. j \<le> length f \<and> glob (drop pi p) (drop j f)"
          using glob_later [of p f pi fi s retry k] that by blast
        then obtain j where j: "fi \<le> j" "j \<le> length f" "glob (42 # drop (Suc pi) p) (drop j f)"
          unfolding drop by blast
        from j(3) obtain i where "j \<le> i" "i \<le> length f" "glob (drop (Suc pi) p) (drop i f)"
          unfolding glob_star [OF j(2)] by blast
        with j(1) show ?thesis unfolding drop glob_star [OF bounds(2)] by (meson le_trans)
      qed
      then have "glob_answer p f (pi + 1, fi, Some pi, fi) = glob_answer p f (pi, fi, star, retry)"
        unfolding now by (cases star) auto
      moreover have "glob_loop p f (pi, fi, star, retry) = glob_loop p f (pi + 1, fi, Some pi, fi)"
        using star more by (subst glob_loop.simps) simp
      ultimately show ?thesis using "1.IH"(2) [OF more _ _ "1.prems"(1) head] star by simp
    next
      case retry
      have no: "\<not> glob (drop pi p) (drop fi f)"
        using retry by (cases "pi < length p") (auto simp: p f)
      show ?thesis
      proof (cases star)
        case None
        moreover have "glob_loop p f (pi, fi, star, retry) = None"
          using retry more None by (subst glob_loop.simps) auto
        ultimately show ?thesis using no by simp
      next
        case (Some s)
        have head: "glob_head p f (s + 1, retry + 1, Some s, retry + 1)"
          using "1.prems"(2) Some more by auto
        have "(\<exists>k>retry. k \<le> length f \<and> glob (drop (Suc s) p) (drop k f)) \<longleftrightarrow>
            glob (drop (Suc s) p) (drop (Suc retry) f) \<or>
            (\<exists>k>Suc retry. k \<le> length f \<and> glob (drop (Suc s) p) (drop k f))"
          using "1.prems"(2) Some more by (intro ex_greater_Suc) simp
        then have "glob_answer p f (s + 1, retry + 1, Some s, retry + 1) = glob_answer p f (pi, fi, star, retry)"
          using no Some by simp
        moreover have "glob_loop p f (pi, fi, star, retry) = glob_loop p f (s + 1, retry + 1, star, retry + 1)"
          using retry more Some by (subst glob_loop.simps) auto
        ultimately show ?thesis using "1.IH"(3) [OF more retry Some "1.prems"(1)] head Some by simp
      qed
    qed
  qed
qed

lemma glob_plain: "42 \<notin> set p \<Longrightarrow> 63 \<notin> set p \<Longrightarrow> glob p f \<longleftrightarrow> f = p"
proof (induction p arbitrary: f)
  case (Cons c p)
  then show ?case by (cases f) auto
qed simp

text \<open>Without a star to return to, and with a literal rest of the pattern, the loop compares.\<close>

lemma glob_loop_literal:
  assumes "42 \<notin> set (drop pi p)" and "63 \<notin> set (drop pi p)" and "pi \<le> length p" and "fi \<le> length f"
  shows "(case glob_loop p f (pi, fi, None, retry) of None \<Rightarrow> False | Some i \<Rightarrow> skip_stars p i = length p) \<longleftrightarrow>
    drop fi f = drop pi p"
  using assms
proof (induction "length f - fi" arbitrary: pi fi)
  case 0
  then have "glob_loop p f (pi, fi, None, retry) = Some pi" by (subst glob_loop.simps) simp
  with 0 show ?case by (auto simp: skip_stars_end glob_plain)
next
  case (Suc n)
  then have more: "fi < length f" by simp
  have f: "drop fi f = f ! fi # drop (Suc fi) f" using more by (simp add: Cons_nth_drop_Suc)
  show ?case
  proof (cases "pi < length p")
    case False
    then have "glob_loop p f (pi, fi, None, retry) = None" using more by (subst glob_loop.simps) simp
    with False f show ?thesis by simp
  next
    case True
    then have p: "drop pi p = p ! pi # drop (Suc pi) p" by (simp add: Cons_nth_drop_Suc)
    show ?thesis
    proof (cases "p ! pi = f ! fi")
      case eq: True
      then have "glob_loop p f (pi, fi, None, retry) = glob_loop p f (Suc pi, Suc fi, None, retry)"
        using more True by (subst glob_loop.simps) simp
      with Suc.hyps(1) [of "Suc fi" "Suc pi"] Suc.hyps(2) Suc.prems more True eq p f show ?thesis by simp
    next
      case False
      then have "glob_loop p f (pi, fi, None, retry) = None"
        using more Suc.prems(1,2) p by (subst glob_loop.simps) auto
      with False p f show ?thesis by simp
    qed
  qed
qed

lemma chars_star: "valid_utf8 s \<Longrightarrow> chars (42 # s) = 42 # chars s"
  by (auto simp: valid_utf8_def chars_def chars_of_ascii_Cons)

text \<open>
  C31.  What the matcher of Replaces patterns decides.  For every filename without a literal \<open>*\<close>, the
  backtracking matcher terminates and decides exactly the declarative reading of the pattern over
  Unicode characters: \<open>*\<close> stands for any run of characters, \<open>?\<close> for one, everything else for itself.
  A filename that begins with a literal \<open>*\<close> is matched against another pattern than the one written:
  the comparison with the filename character is tried before the star, which is consumed as a literal
  and never retried.  So a star followed by literal text matches only the filename that is the same
  text, where the reading as a pattern admits every filename that ends in the text.
\<close>

theorem replaces_matches_exact:
  "(42 \<notin> set (chars filename) \<longrightarrow>
      (replaces_matches pattern filename \<longleftrightarrow> glob (chars pattern) (chars filename))) \<and>
   (valid_utf8 literal \<and> valid_utf8 name \<and> 42 \<notin> set (chars literal) \<and> 63 \<notin> set (chars literal) \<longrightarrow>
      (replaces_matches (42 # literal) (42 # name) \<longleftrightarrow> chars name = chars literal) \<and>
      (glob (chars (42 # literal)) (chars (42 # name)) \<longleftrightarrow> (\<exists>start. 42 # chars name = start @ chars literal)))"
proof (intro conjI impI)
  assume "42 \<notin> set (chars filename)"
  then show "replaces_matches pattern filename \<longleftrightarrow> glob (chars pattern) (chars filename)"
    using glob_loop_correct [of "chars filename" "chars pattern" "(0, 0, None, 0)"]
    by (simp add: replaces_matches_def Let_def)
next
  assume a: "valid_utf8 literal \<and> valid_utf8 name \<and> 42 \<notin> set (chars literal) \<and> 63 \<notin> set (chars literal)"
  let ?p = "42 # chars literal" and ?f = "42 # chars name"
  have "glob_loop ?p ?f (0, 0, None, 0) = glob_loop ?p ?f (1, 1, None, 0)" by (subst glob_loop.simps) simp
  with glob_loop_literal [of 1 ?p 1 ?f 0] a show "replaces_matches (42 # literal) (42 # name) \<longleftrightarrow> chars name = chars literal"
    by (simp add: replaces_matches_def chars_star)
  have "(\<exists>k \<le> length ?f. drop k ?f = chars literal) \<longleftrightarrow> (\<exists>start. ?f = start @ chars literal)"
    by (metis append_eq_conv_conj append_take_drop_id length_append le_add1)
  with a show "glob (chars (42 # literal)) (chars (42 # name)) \<longleftrightarrow> (\<exists>start. 42 # chars name = start @ chars literal)"
    by (simp add: chars_star glob_plain)
qed

text \<open>A pattern with two stars that needs backtracking, and a literal star.\<close>

theorem replaces_matches_exact_witness:
  "replaces_matches (lit ''*a?.t*'') (lit ''baab.txt'') \<and>
   \<not> replaces_matches (lit ''*x'') (lit ''*ax'') \<and> glob (chars (lit ''*x'')) (chars (lit ''*ax''))"
proof -
  have "42 \<notin> set (chars (lit ''baab.txt''))" "glob (chars (lit ''*a?.t*'')) (chars (lit ''baab.txt''))" by code_simp+
  moreover have "lit ''*x'' = 42 # lit ''x''" "lit ''*ax'' = 42 # lit ''ax''" by (simp_all add: lit_def)
  moreover have "chars (lit ''x'') = [120]" "chars (lit ''ax'') = [97, 120]" "valid_utf8 (lit ''x'')" "valid_utf8 (lit ''ax'')"
    by code_simp+
  ultimately show ?thesis
    using replaces_matches_exact [of "lit ''baab.txt''" "lit ''*a?.t*''" "lit ''x''" "lit ''ax''"]
    by (auto simp: Cons_eq_append_conv simp del: lit_Cons)
qed

end
