(* ===== verification/Cursor.thy ===== *)
theory Cursor
  imports Item_Format
begin

text \<open>
  The \<open>Cursor\<close> of \<open>crates/tith-wire/src/item_format_impl.rs\<close>: a position in a list of child
  values that passes over values of undefined types, and the small value parsers the item
  readers are made of.  A reader is a \<open>step\<close>: it takes the cursor and returns a value with the
  advanced cursor, or an error.
\<close>

section \<open>The cursor\<close>

record cursor =
  cur_values :: "owned_tlv list"
  cur_index :: nat

definition cursor_new :: "owned_tlv list \<Rightarrow> cursor" where
  "cursor_new values = \<lparr>cur_values = values, cur_index = 0\<rparr>"

function next_defined :: "cursor \<Rightarrow> (nat \<times> owned_tlv) option \<times> cursor" where
  "next_defined c =
     (case nth_opt (cur_values c) (cur_index c) of
        None \<Rightarrow> (None, c)
      | Some v \<Rightarrow>
          let c' = c\<lparr>cur_index := cur_index c + 1\<rparr> in
          if is_defined (tlv_type v) then (Some (cur_index c, v), c') else next_defined c')"
  by pat_completeness auto
termination
  by (relation "measure (\<lambda>c. length (cur_values c) - cur_index c)")
     (auto simp: nth_opt_def split: if_splits)

declare next_defined.simps [simp del]

definition peek_type :: "cursor \<Rightarrow> u64 option" where
  "peek_type c = map_option (\<lambda>(_, v). tlv_type v) (fst (next_defined c))"

definition take_value :: "u64 \<Rightarrow> string \<Rightarrow> cursor \<Rightarrow> bundle_error + (nat \<times> owned_tlv) \<times> cursor" where
  "take_value expected name c =
     (case next_defined c of
        (Some (index, v), c') \<Rightarrow> if tlv_type v = expected then Inr ((index, v), c') else Inl (Missing name)
      | (None, c') \<Rightarrow> Inl (Missing name))"

definition optional_value :: "u64 \<Rightarrow> cursor \<Rightarrow> (nat \<times> owned_tlv) option \<times> cursor" where
  "optional_value expected c =
     (if peek_type c = Some expected then next_defined c else (None, c))"

lemma next_defined_progress:
  "next_defined c = (Some iv, c') \<Longrightarrow>
   cur_values c' = cur_values c \<and> cur_index c < cur_index c' \<and> cur_index c' \<le> length (cur_values c)"
proof (induction c rule: next_defined.induct)
  case (1 c)
  let ?c = "c\<lparr>cur_index := cur_index c + 1\<rparr>"
  from "1.prems" obtain v where v: "nth_opt (cur_values c) (cur_index c) = Some v"
    by (cases "nth_opt (cur_values c) (cur_index c)") (simp_all add: next_defined.simps [of c])
  then have len: "cur_index c < length (cur_values c)" by (simp add: nth_opt_def split: if_splits)
  show ?case
  proof (cases "is_defined (tlv_type v)")
    case True
    with "1.prems" v len show ?thesis by (auto simp: next_defined.simps [of c])
  next
    case False
    then have "next_defined ?c = (Some iv, c')" using "1.prems" v by (simp add: next_defined.simps [of c])
    from "1.IH" [OF v refl False this] show ?thesis by simp
  qed
qed

text \<open>In \<open>repeated\<close> the \<open>expect\<close> follows a successful peek, so the last branch is never taken.\<close>

function repeated_values :: "u64 \<Rightarrow> cursor \<Rightarrow> (nat \<times> owned_tlv) list \<times> cursor" where
  "repeated_values expected c =
     (if peek_type c = Some expected then
        (case next_defined c of
           (Some iv, c') \<Rightarrow> let (vs, c'') = repeated_values expected c' in (iv # vs, c'')
         | (None, c') \<Rightarrow> ([], c'))
      else ([], c))"
  by pat_completeness auto
termination
  by (relation "measure (\<lambda>(_, c). length (cur_values c) - cur_index c)")
     (auto dest!: next_defined_progress [OF sym])

declare repeated_values.simps [simp del]

definition cursor_finish :: "cursor \<Rightarrow> bundle_error + unit" where
  "cursor_finish c =
     (if fst (next_defined c) \<noteq> None then Inl (Unexpected ''defined child value'') else Inr ())"

section \<open>Steps\<close>

type_synonym 'a step = "cursor \<Rightarrow> bundle_error + 'a \<times> cursor"

definition cbind :: "'a step \<Rightarrow> ('a \<Rightarrow> 'b step) \<Rightarrow> 'b step" where
  "cbind m k c = and_then (m c) (\<lambda>(x, c'). k x c')"

definition creturn :: "'a \<Rightarrow> 'a step" where
  "creturn x c = Inr (x, c)"

text \<open>An operation that does not touch the cursor.\<close>

definition clift :: "bundle_error + 'a \<Rightarrow> 'a step" where
  "clift r c = and_then r (\<lambda>x. Inr (x, c))"

definition ctake :: "u64 \<Rightarrow> string \<Rightarrow> owned_tlv step" where
  "ctake expected name c = and_then (take_value expected name c) (\<lambda>((_, v), c'). Inr (v, c'))"

definition copt_at :: "u64 \<Rightarrow> (nat \<times> owned_tlv) option step" where
  "copt_at expected c = Inr (optional_value expected c)"

definition copt :: "u64 \<Rightarrow> owned_tlv option step" where
  "copt expected c = (case optional_value expected c of (v, c') \<Rightarrow> Inr (map_option snd v, c'))"

definition crep :: "u64 \<Rightarrow> owned_tlv list step" where
  "crep expected c = (case repeated_values expected c of (vs, c') \<Rightarrow> Inr (map snd vs, c'))"

definition cfinish :: "unit step" where
  "cfinish c = and_then (cursor_finish c) (\<lambda>_. Inr ((), c))"

definition run_step :: "'a step \<Rightarrow> owned_tlv list \<Rightarrow> bundle_error + 'a" where
  "run_step m values = and_then (m (cursor_new values)) (\<lambda>(x, _). Inr x)"

section \<open>Value parsers\<close>

definition tlv_text :: "owned_tlv \<Rightarrow> bundle_error + str" where
  "tlv_text t = map_err (\<lambda>_. InvalidUtf8) (from_utf8 (tlv_value t))"

definition parse_address :: "owned_tlv \<Rightarrow> bundle_error + address" where
  "parse_address t = and_then (tlv_text t) (\<lambda>s. map_err BAddress (address_from_str s))"

definition parse_public_key :: "owned_tlv \<Rightarrow> bundle_error + bytes" where
  "parse_public_key t =
     (if length (tlv_value t) = 32 then Inr (tlv_value t) else Inl (WrongLength ''PublicKey''))"

definition parse_signature :: "owned_tlv \<Rightarrow> bundle_error + bytes" where
  "parse_signature t =
     (if length (tlv_value t) = 64 then Inr (tlv_value t) else Inl (WrongLength ''Signature''))"

definition value_u64 :: "owned_tlv \<Rightarrow> bundle_error + u64" where
  "value_u64 t = map_err BInteger (decode_u64 (tlv_value t))"

definition value_i64 :: "owned_tlv \<Rightarrow> bundle_error + int" where
  "value_i64 t = map_err BInteger (decode_i64 (tlv_value t))"

definition children_of :: "owned_tlv \<Rightarrow> bundle_error + owned_tlv list" where
  "children_of t = map_err BFraming (parse_sequence (tlv_value t))"

definition parse_identity ::
    "owned_tlv \<Rightarrow> owned_tlv option \<Rightarrow> key_resolver \<Rightarrow> bundle_error + identity" where
  "parse_identity origin public_key resolver =
     and_then (parse_address origin) (\<lambda>a.
     and_then
       (if is_anonymous a then
          and_then (ok_or (Missing ''anonymous PublicKey'') public_key) parse_public_key
        else if public_key \<noteq> None then Inl (Unexpected ''non-anonymous PublicKey'')
        else ok_or (UnknownKey a) (resolver a))
       (\<lambda>k. Inr \<lparr>id_address = a, id_key = k\<rparr>))"

definition conditional_public_key :: "address \<Rightarrow> owned_tlv option step" where
  "conditional_public_key a c =
     (let found = nth_opt (cur_values c) (cur_index c);
          v = (if has_type PUBLIC_KEY found then found else None);
          c' = (if v \<noteq> None then c\<lparr>cur_index := cur_index c + 1\<rparr> else c)
      in if is_anonymous a \<and> v = None then Inl (Missing ''PublicKey after anonymous address'')
         else if \<not> is_anonymous a \<and> v \<noteq> None
         then Inl (Unexpected ''PublicKey after non-anonymous address'')
         else Inr (v, c'))"

text \<open>\<open>&values[..end]\<close> panics when \<open>end\<close> is out of range; the readers pass indices they were given.\<close>

definition encoded_prefix :: "owned_tlv list \<Rightarrow> nat \<Rightarrow> bundle_error + bytes" where
  "encoded_prefix values stop =
     (if stop \<le> length values then concatenate (take stop values) else Inl Panicked)"

definition take_encoded_tlv :: "bytes \<Rightarrow> bundle_error + owned_tlv \<times> nat" where
  "take_encoded_tlv bs =
     and_then (map_err BInteger (decode_u64_prefix bs)) (\<lambda>(type_code, type_bytes).
     and_then (map_err BInteger (decode_u64_prefix (drop type_bytes bs))) (\<lambda>(len, length_bytes).
     let n = unat len; header = type_bytes + length_bytes; stop = header + n in
     if stop > usize_max then Inl (BFraming LengthOverflow)
     else if stop > length bs
     then Inl (BFraming (TruncatedValue (of_nat n) (of_nat (length bs - header))))
     else
       and_then (map_err BFraming (tlv_new type_code (take n (drop header bs)))) (\<lambda>t.
       Inr (t, stop))))"


section \<open>Reading a known list\<close>

text \<open>
  \<open>runs vs m rest x rest'\<close>: on the values \<open>vs\<close>, from a position where \<open>rest\<close> remains, \<open>m\<close>
  succeeds with \<open>x\<close> and leaves \<open>rest'\<close>.  The rules below let a reader be evaluated over a list
  that is given as a concatenation of its parts.
\<close>

definition runs :: "owned_tlv list \<Rightarrow> 'a step \<Rightarrow> owned_tlv list \<Rightarrow> 'a \<Rightarrow> owned_tlv list \<Rightarrow> bool" where
  "runs vs m rest x rest' \<longleftrightarrow>
     (\<forall>i. i \<le> length vs \<and> drop i vs = rest \<longrightarrow>
        (\<exists>j\<le>length vs. drop j vs = rest' \<and>
           m \<lparr>cur_values = vs, cur_index = i\<rparr> = Inr (x, \<lparr>cur_values = vs, cur_index = j\<rparr>)))"

lemma runs_bind:
  "runs vs m rest x rest' \<Longrightarrow> runs vs (k x) rest' y rest'' \<Longrightarrow> runs vs (cbind m k) rest y rest''"
  unfolding runs_def cbind_def by fastforce

lemma runs_return: "runs vs (creturn x) rest x rest"
  by (auto simp: runs_def creturn_def)

lemma runs_lift: "r = Inr x \<Longrightarrow> runs vs (clift r) rest x rest"
  by (auto simp: runs_def clift_def)

lemma run_step_runs: "runs vs m vs x rest \<Longrightarrow> run_step m vs = Inr x"
  unfolding runs_def run_step_def cursor_new_def by fastforce

lemma drop_Cons_index:
  assumes "drop i vs = t # rest"
  shows "i < length vs" and "vs ! i = t" and "drop (Suc i) vs = rest" and "i = length vs - Suc (length rest)"
proof -
  show i: "i < length vs" using assms by (metis drop_all list.distinct(1) not_le)
  then show "vs ! i = t" "drop (Suc i) vs = rest" using assms by (metis Cons_nth_drop_Suc list.inject)+
  have "length (drop i vs) = Suc (length rest)" using assms by simp
  then show "i = length vs - Suc (length rest)" using i by simp
qed

lemma next_defined_hit:
  assumes "drop i vs = t # rest" and "is_defined (tlv_type t)"
  shows "next_defined \<lparr>cur_values = vs, cur_index = i\<rparr> =
    (Some (i, t), \<lparr>cur_values = vs, cur_index = Suc i\<rparr>)"
  using drop_Cons_index [OF assms(1)] assms(2)
  by (subst next_defined.simps) (simp add: nth_opt_def Let_def)

lemma next_defined_eof:
  assumes "drop i vs = []"
  shows "next_defined \<lparr>cur_values = vs, cur_index = i\<rparr> = (None, \<lparr>cur_values = vs, cur_index = i\<rparr>)"
  using assms by (subst next_defined.simps) (simp add: nth_opt_def)

text \<open>Below, all remaining values have defined types.\<close>

abbreviation all_defined :: "owned_tlv list \<Rightarrow> bool" where
  "all_defined ts \<equiv> list_all (\<lambda>t. is_defined (tlv_type t)) ts"

definition head_type :: "owned_tlv list \<Rightarrow> u64 option" where
  "head_type ts = (case ts of [] \<Rightarrow> None | t # _ \<Rightarrow> Some (tlv_type t))"

lemma peek_type_head:
  assumes "drop i vs = rest" and "all_defined rest"
  shows "peek_type \<lparr>cur_values = vs, cur_index = i\<rparr> = head_type rest"
  using assms
  by (cases rest) (simp_all add: peek_type_def head_type_def next_defined_hit next_defined_eof)

lemma runs_take:
  "tlv_type t = ty \<Longrightarrow> is_defined ty \<Longrightarrow> runs vs (ctake ty name) (t # rest) t rest"
  unfolding runs_def ctake_def take_value_def
  by (auto simp: next_defined_hit dest: drop_Cons_index(1,3))

lemma runs_opt_at_hit:
  assumes "tlv_type t = ty" and "is_defined ty"
  shows "runs vs (copt_at ty) (t # rest) (Some (length vs - Suc (length rest), t)) rest"
  unfolding runs_def
proof (intro allI impI)
  fix i assume i: "i \<le> length vs \<and> drop i vs = t # rest"
  then have d: "drop i vs = t # rest" by blast
  have "i = length vs - Suc (length rest)" by (rule drop_Cons_index(4) [OF d])
  then show "\<exists>j\<le>length vs. drop j vs = rest \<and> copt_at ty \<lparr>cur_values = vs, cur_index = i\<rparr> =
      Inr (Some (length vs - Suc (length rest), t), \<lparr>cur_values = vs, cur_index = j\<rparr>)"
    using next_defined_hit [OF d] drop_Cons_index(1,3) [OF d] assms
    by (intro exI [of _ "Suc i"]) (simp add: copt_at_def optional_value_def peek_type_def)
qed

lemma runs_opt_at_miss:
  "all_defined rest \<Longrightarrow> head_type rest \<noteq> Some ty \<Longrightarrow> runs vs (copt_at ty) rest None rest"
  unfolding runs_def copt_at_def optional_value_def by (auto simp: peek_type_head)

lemma runs_opt_hit:
  "tlv_type t = ty \<Longrightarrow> is_defined ty \<Longrightarrow> runs vs (copt ty) (t # rest) (Some t) rest"
  unfolding runs_def copt_def optional_value_def peek_type_def
  by (auto simp: next_defined_hit dest: drop_Cons_index(1,3))

lemma runs_opt_miss:
  "all_defined rest \<Longrightarrow> head_type rest \<noteq> Some ty \<Longrightarrow> runs vs (copt ty) rest None rest"
  unfolding runs_def copt_def optional_value_def by (auto simp: peek_type_head)

lemma runs_rep:
  assumes "list_all (\<lambda>t. tlv_type t = ty) ts" and "is_defined ty"
    and "all_defined rest" and "head_type rest \<noteq> Some ty"
  shows "runs vs (crep ty) (ts @ rest) ts rest"
  unfolding runs_def
proof (intro allI impI)
  fix i assume "i \<le> length vs \<and> drop i vs = ts @ rest"
  with assms(1) show "\<exists>j\<le>length vs. drop j vs = rest \<and>
      crep ty \<lparr>cur_values = vs, cur_index = i\<rparr> = Inr (ts, \<lparr>cur_values = vs, cur_index = j\<rparr>)"
  proof (induction ts arbitrary: i)
    case Nil
    then have "peek_type \<lparr>cur_values = vs, cur_index = i\<rparr> \<noteq> Some ty"
      using assms(3,4) peek_type_head [of i vs rest] by simp
    then show ?case using Nil by (auto simp: crep_def repeated_values.simps)
  next
    case (Cons t ts)
    have t: "drop i vs = t # ts @ rest" "tlv_type t = ty" using Cons.prems by simp_all
    note next_i = next_defined_hit [OF t(1)] drop_Cons_index [OF t(1)]
    from Cons.IH [of "Suc i"] Cons.prems next_i obtain j where j: "j \<le> length vs" "drop j vs = rest"
      "crep ty \<lparr>cur_values = vs, cur_index = Suc i\<rparr> = Inr (ts, \<lparr>cur_values = vs, cur_index = j\<rparr>)"
      by auto
    have "peek_type \<lparr>cur_values = vs, cur_index = i\<rparr> = Some ty"
      using next_i(1) t(2) assms(2) by (simp add: peek_type_def)
    then have "crep ty \<lparr>cur_values = vs, cur_index = i\<rparr> = Inr (t # ts, \<lparr>cur_values = vs, cur_index = j\<rparr>)"
      using j(3) next_i(1) t(2) assms(2)
      by (simp add: crep_def repeated_values.simps [of ty "\<lparr>cur_values = vs, cur_index = i\<rparr>"]
          split: prod.splits)
    with j show ?case by blast
  qed
qed

lemma runs_finish: "runs vs cfinish [] () []"
  unfolding runs_def cfinish_def cursor_finish_def by (auto simp: next_defined_eof)

lemma runs_key_hit:
  "is_anonymous a \<Longrightarrow> tlv_type t = PUBLIC_KEY \<Longrightarrow> runs vs (conditional_public_key a) (t # rest) (Some t) rest"
  unfolding runs_def conditional_public_key_def
  by (auto simp: nth_opt_def has_type_def Let_def dest: drop_Cons_index)

lemma runs_key_miss:
  "\<not> is_anonymous a \<Longrightarrow> head_type rest \<noteq> Some PUBLIC_KEY \<Longrightarrow>
   runs vs (conditional_public_key a) rest None rest"
  unfolding runs_def conditional_public_key_def
  by (cases rest) (auto simp: nth_opt_def has_type_def Let_def head_type_def dest: drop_Cons_index)

end
