(* ===== verification/Item_Build.thy ===== *)
theory Item_Build
  imports Cursor
begin

text \<open>
  Building items: the producers of \<open>crates/tith-wire/src/item_format_impl.rs\<close>.  A message or
  file is a signed run of children followed by a Signature and an unsigned routing suffix.
\<close>

section \<open>Types\<close>

datatype item_kind =
    NetMail | EchoMail | FileItem | FileRequest | Accepted | Rejected
  | PollMessages | PollFiles | PollFileRequests | PublicKeyRequest

datatype item_authentication =
    Unsigned | SignedOriginInvalid | SignedOriginValid | OriginInvalid | OriginValid | Transport

record signed_item_identity =
  sii_kind :: signed_item_kind
  sii_signer :: identity
  sii_signature :: bytes

record item_provenance =
  prov_origin :: address
  prov_signer :: "identity option"

datatype rejection_reason = Permanent | ConditionUnmet | Temporary

definition rejection_from_code :: "u64 \<Rightarrow> rejection_reason option" where
  "rejection_from_code code =
     (if code = 1 then Some Permanent
      else if code = 2 then Some ConditionUnmet
      else if code = 3 then Some Temporary
      else None)"

text \<open>\<open>RejectionReason\<close> is \<open>repr(u64)\<close>: the cast gives the discriminant.\<close>

fun rejection_code :: "rejection_reason \<Rightarrow> u64" where
  "rejection_code Permanent = 1"
| "rejection_code ConditionUnmet = 2"
| "rejection_code Temporary = 3"

record rejection =
  rej_reason :: rejection_reason
  rej_retry_after :: "u64 option"
  rej_description :: str

record validated_item =
  vi_kind :: item_kind
  vi_request_identifier :: u64
  vi_duplicate_identity :: "signed_item_identity option"
  vi_authentication :: "item_authentication option"
  vi_response_to :: "bytes option"
  vi_response_public_key :: "bytes option"
  vi_rejection :: "rejection option"
  vi_provenance :: "item_provenance option"
  vi_destination :: "identity option"
  vi_area :: "str option"
  vi_raw :: owned_tlv

record via_data =
  via_address :: address
  via_public_key :: "bytes option"
  via_timestamp :: u64
  via_software :: str

record message_suffix =
  suf_existing_vias :: "via_data list"
  suf_local_via :: identity
  suf_request_identifier :: u64
  suf_via_timestamp :: u64
  suf_software :: str
  suf_seen_by :: "address list"

definition LEGACY_ATTRIBUTE_FILE_ATTACHED :: u64 where
  "LEGACY_ATTRIBUTE_FILE_ATTACHED = push_bit 4 1"

definition LEGACY_ATTRIBUTES_SIGNED_MASK :: u64 where
  "LEGACY_ATTRIBUTES_SIGNED_MASK =
     push_bit 0 1 OR push_bit 1 1 OR push_bit 12 1 OR push_bit 13 1 OR push_bit 14 1"

section \<open>Value rules\<close>

definition validate_legacy_attributes :: "u64 \<Rightarrow> bundle_error + unit" where
  "validate_legacy_attributes v =
     (if v = 0 then Inl (Unexpected ''zero LegacyAttributes'')
      else if v AND LEGACY_ATTRIBUTE_FILE_ATTACHED \<noteq> 0
      then Inl (Unexpected ''LegacyAttributes bit 4, which the File children carry'')
      else if v AND NOT LEGACY_ATTRIBUTES_SIGNED_MASK \<noteq> 0
      then Inl (Unexpected ''non-persistent LegacyAttributes bits'')
      else Inr ())"

definition validate_timestamp_offset :: "int \<Rightarrow> bundle_error + unit" where
  "validate_timestamp_offset v =
     (if v = 0 then Inl (Unexpected ''zero TimestampOffset'') else Inr ())"

definition validate_message_text :: "str \<Rightarrow> bundle_error + unit" where
  "validate_message_text v =
     (if 13 \<in> set v then Inl (Unexpected ''U+000D in MessageText'')
      else if v \<noteq> [] \<and> last v \<noteq> 10
      then Inl (Unexpected ''a MessageText whose final paragraph is unterminated'')
      else Inr ())"

definition validate_originated_message_data :: "message_data \<Rightarrow> bundle_error + unit" where
  "validate_originated_message_data data =
     (if (msg_destination data \<noteq> None) = (msg_area data \<noteq> None)
      then Inl (Unexpected ''Message Destination/Area combination'')
      else
        and_then (map_transpose validate_legacy_attributes (msg_legacy_attributes data)) (\<lambda>_.
        and_then (map_transpose validate_timestamp_offset (msg_timestamp_offset data)) (\<lambda>_.
        if msg_area data = None \<and> (msg_tear_line data \<noteq> None \<or> msg_origin_line data \<noteq> None)
        then Inl (Unexpected ''a NetMail TearLine or OriginLine'')
        else validate_message_text (msg_text data))))"

definition validate_produced_filename :: "str \<Rightarrow> bundle_error + unit" where
  "validate_produced_filename v =
     (if filename_has_path_component v then Inl (Unexpected ''Filename path component'')
      else if \<not> filename_is_portable v
      then Inl (Unexpected ''Filename code point discouraged for production'')
      else Inr ())"

section \<open>Pieces\<close>

definition assigned_tlv :: "u64 \<Rightarrow> bytes \<Rightarrow> owned_tlv" where
  "assigned_tlv type_code v = \<lparr>tlv_type = type_code, tlv_value = v\<rparr>"

text \<open>\<open>if let Some(value) = value \<dots> push\<close>\<close>

definition opt_tlv :: "u64 \<Rightarrow> bytes option \<Rightarrow> owned_tlv list" where
  "opt_tlv type_code v = (case v of None \<Rightarrow> [] | Some b \<Rightarrow> [assigned_tlv type_code b])"

definition push_identity :: "owned_tlv list \<Rightarrow> u64 \<Rightarrow> identity \<Rightarrow> owned_tlv list" where
  "push_identity output type_code who =
     output @ assigned_tlv type_code (address_to_string (id_address who)) #
     (if is_anonymous (id_address who) then [assigned_tlv PUBLIC_KEY (id_key who)] else [])"

definition push_provenance ::
    "owned_tlv list \<Rightarrow> item_provenance \<Rightarrow> bundle_error + owned_tlv list" where
  "push_provenance output prov =
     and_then (ok_or (Missing ''item signing identity'') (prov_signer prov)) (\<lambda>signer.
     if prov_origin prov = id_address signer then Inr (push_identity output ORIGIN signer)
     else if is_anonymous (prov_origin prov)
     then Inl (Unexpected ''anonymous Origin without its own PublicKey'')
     else Inr (push_identity
       (output @ [assigned_tlv ORIGIN (address_to_string (prov_origin prov))]) SIGNED_ORIGIN signer))"

definition area_value :: "area_data \<Rightarrow> bundle_error + owned_tlv" where
  "area_value area =
     and_then
       (concatenate (assigned_tlv AREA_NAME (area_name area) #
          opt_tlv AREA_DESCRIPTION (area_description area)))
       (\<lambda>v. Inr (assigned_tlv AREA v))"

definition push_filename :: "owned_tlv list \<Rightarrow> str option \<Rightarrow> bundle_error + owned_tlv list" where
  "push_filename output v =
     (case v of
        None \<Rightarrow> Inr output
      | Some name \<Rightarrow>
          and_then (validate_produced_filename name) (\<lambda>_. Inr (output @ [assigned_tlv FILENAME name])))"

definition has_newline :: "str \<Rightarrow> bool" where
  "has_newline v \<longleftrightarrow> 13 \<in> set v \<or> 10 \<in> set v"

definition push_file_metadata ::
    "owned_tlv list \<Rightarrow> str option \<Rightarrow> str list \<Rightarrow> str option \<Rightarrow> str option \<Rightarrow> str option
     \<Rightarrow> bundle_error + owned_tlv list" where
  "push_file_metadata output short long tear magic repl =
     and_then
       (case short of
          None \<Rightarrow> Inr output
        | Some v \<Rightarrow>
            if has_newline v then Inl (Unexpected ''newline in ShortDescription'')
            else Inr (output @ [assigned_tlv SHORT_DESCRIPTION v])) (\<lambda>output1.
     and_then
       (try_map (\<lambda>v.
          if has_newline v then Inl (Unexpected ''newline in LongDescriptionLine'')
          else Inr (assigned_tlv LONG_DESCRIPTION_LINE v)) long) (\<lambda>lines.
     Inr (output1 @ lines @ opt_tlv TEAR_LINE tear @ opt_tlv MAGIC_WORD magic @ opt_tlv REPLACES repl)))"

definition seen_by_value :: "address list \<Rightarrow> owned_tlv option" where
  "seen_by_value addresses =
     (if addresses = [] then None
      else Some (assigned_tlv SEEN_BY (format_trimmed_collection addresses)))"

definition via_value :: "identity \<Rightarrow> u64 \<Rightarrow> str \<Rightarrow> bundle_error + owned_tlv" where
  "via_value who timestamp software =
     and_then
       (concatenate
         (assigned_tlv ADDRESS (address_to_string (id_address who)) #
          (if is_anonymous (id_address who) then [assigned_tlv PUBLIC_KEY (id_key who)] else [])
          @ [assigned_tlv TIMESTAMP (encode_u64 timestamp)]))
       (\<lambda>v. Inr (assigned_tlv VIA (v @ software)))"

section \<open>Messages\<close>

definition attachment_value :: "attachment_data \<Rightarrow> bundle_error + owned_tlv" where
  "attachment_value a =
     and_then (push_filename [] (att_filename a)) (\<lambda>children.
     and_then
       (push_file_metadata
         (children @ opt_tlv TIMESTAMP (map_option encode_u64 (att_timestamp a))
          @ [assigned_tlv CONTENTS (att_contents a)])
         (att_short_description a) (att_long_description_lines a) (att_tear_line a)
         (att_magic_word a) (att_replaces a)) (\<lambda>children'.
     and_then (concatenate children') (\<lambda>v. Inr (assigned_tlv FILE v))))"

definition reply_to_value :: "address \<times> str \<Rightarrow> bundle_error + owned_tlv" where
  "reply_to_value r =
     (case r of (a, identifier) \<Rightarrow>
        and_then (map_err (\<lambda>_. Panicked) (tlv_encode (assigned_tlv ADDRESS (address_to_string a)))) (\<lambda>v.
        Inr (assigned_tlv REPLY_TO (v @ identifier))))"

definition message_signed_children ::
    "message_data \<Rightarrow> item_provenance \<Rightarrow> bundle_error + owned_tlv list" where
  "message_signed_children data prov =
     and_then (push_provenance [] prov) (\<lambda>signed0.
     let signed1 =
       (case msg_destination data of
          None \<Rightarrow> signed0
        | Some destination \<Rightarrow> push_identity signed0 DESTINATION destination)
       @ [assigned_tlv TIMESTAMP (encode_u64 (msg_timestamp data)),
          assigned_tlv TO_USER_NAME (msg_to_user data),
          assigned_tlv FROM_USER_NAME (msg_from_user data),
          assigned_tlv SUBJECT (msg_subject data),
          assigned_tlv MESSAGE_TEXT (msg_text data)] in
     and_then (map_transpose area_value (msg_area data)) (\<lambda>area.
     and_then (try_map attachment_value (msg_attachments data)) (\<lambda>attachments.
     and_then (map_transpose reply_to_value (msg_reply_to data)) (\<lambda>reply.
     Inr (signed1 @ list_of_option area @ attachments
       @ opt_tlv LEGACY_ATTRIBUTES (map_option encode_u64 (msg_legacy_attributes data))
       @ opt_tlv TIMESTAMP_OFFSET (map_option encode_i64 (msg_timestamp_offset data))
       @ opt_tlv TEAR_LINE (msg_tear_line data)
       @ opt_tlv ORIGIN_LINE (msg_origin_line data)
       @ opt_tlv MESSAGE_ID (msg_message_id data)
       @ list_of_option reply
       @ opt_tlv ORIGINAL_CHARACTER_SET (msg_original_character_set data))))))"

text \<open>One earlier Via of a reconstructed message; the key is carried only by an anonymous one.\<close>

definition existing_via :: "identity \<Rightarrow> via_data \<Rightarrow> bundle_error + owned_tlv" where
  "existing_via local_via via =
     and_then
       (if is_anonymous (via_address via)
        then and_then (ok_or (Missing ''anonymous Via PublicKey'') (via_public_key via)) (\<lambda>k. Inr (Some k))
        else if via_public_key via \<noteq> None then Inl (Unexpected ''non-anonymous Via PublicKey'')
        else Inr None) (\<lambda>key.
     via_value
       \<lparr>id_address = via_address via,
        id_key = (case key of Some k \<Rightarrow> k | None \<Rightarrow> id_key local_via)\<rparr>
       (via_timestamp via) (via_software via))"

definition kludge_value :: "str \<Rightarrow> bundle_error + owned_tlv" where
  "kludge_value v =
     (if 1 \<in> set v then Inl (Unexpected ''Control-A in AdditionalKludgeLine'')
      else Inr (assigned_tlv ADDITIONAL_KLUDGE_LINE v))"

definition finish_message ::
    "message_data \<Rightarrow> owned_tlv list \<Rightarrow> message_suffix \<Rightarrow> bundle_error + owned_tlv" where
  "finish_message data body suffix =
     and_then (try_map (existing_via (suf_local_via suffix)) (suf_existing_vias suffix)) (\<lambda>vias.
     and_then (via_value (suf_local_via suffix) (suf_via_timestamp suffix) (suf_software suffix)) (\<lambda>via.
     and_then (try_map kludge_value (msg_additional_kludge_lines data)) (\<lambda>kludges.
     and_then
       (concatenate
         (body @ assigned_tlv REQUEST_IDENTIFIER (encode_u64 (suf_request_identifier suffix)) #
          vias @ via # list_of_option (seen_by_value (suf_seen_by suffix)) @ kludges)) (\<lambda>v.
     Inr (assigned_tlv MESSAGE v)))))"

definition build_originated_message_for_delivery ::
    "crypto \<Rightarrow> message_data \<Rightarrow> item_provenance \<Rightarrow> bytes \<Rightarrow> identity \<Rightarrow> u64 \<Rightarrow> u64 \<Rightarrow> str
     \<Rightarrow> address list \<Rightarrow> bundle_error + owned_tlv" where
  "build_originated_message_for_delivery C data prov secret local_via request_identifier
       via_time software seen_by =
     and_then (validate_originated_message_data data) (\<lambda>_.
     and_then (message_signed_children data prov) (\<lambda>body.
     and_then (concatenate body) (\<lambda>region.
     and_then (map_err BCrypto (sign_tlv C region secret)) (\<lambda>signature.
     finish_message data (body @ [assigned_tlv SIGNATURE signature])
       \<lparr>suf_existing_vias = [], suf_local_via = local_via, suf_request_identifier = request_identifier,
        suf_via_timestamp = via_time, suf_software = software, suf_seen_by = seen_by\<rparr>))))"

definition build_originated_message ::
    "crypto \<Rightarrow> message_data \<Rightarrow> item_provenance \<Rightarrow> bytes \<Rightarrow> u64 \<Rightarrow> u64 \<Rightarrow> str \<Rightarrow> address list
     \<Rightarrow> bundle_error + owned_tlv" where
  "build_originated_message C data prov secret request_identifier via_time software seen_by =
     and_then (ok_or (Missing ''Message signing identity'') (prov_signer prov)) (\<lambda>effective_signer.
     build_originated_message_for_delivery C data prov secret effective_signer request_identifier
       via_time software seen_by)"

definition build_retained_message ::
    "crypto \<Rightarrow> message_data \<Rightarrow> item_provenance \<Rightarrow> bytes \<Rightarrow> message_suffix \<Rightarrow> bundle_error + owned_tlv" where
  "build_retained_message C data prov signature suffix =
     and_then (ok_or (Missing ''Message signing identity'') (prov_signer prov)) (\<lambda>effective_signer.
     and_then (validate_originated_message_data data) (\<lambda>_.
     and_then (message_signed_children data prov) (\<lambda>body.
     and_then (concatenate body) (\<lambda>region.
     and_then (map_err BCrypto (verify_tlv C region signature (id_key effective_signer)))
       (\<lambda>authenticated.
     if \<not> authenticated then Inl (Unexpected ''retained Message Signature does not verify'')
     else finish_message data (body @ [assigned_tlv SIGNATURE signature]) suffix)))))"

section \<open>Files and requests\<close>

definition build_originated_file ::
    "crypto \<Rightarrow> standalone_file_data \<Rightarrow> item_provenance \<Rightarrow> bytes \<Rightarrow> u64 \<Rightarrow> u64 \<Rightarrow> str \<Rightarrow> address list
     \<Rightarrow> bundle_error + owned_tlv" where
  "build_originated_file C data prov secret request_identifier via_time software seen_by =
     and_then (ok_or (Missing ''File signing identity'') (prov_signer prov)) (\<lambda>effective_signer.
     and_then (push_filename [] (file_filename data)) (\<lambda>signed0.
     and_then (map_transpose area_value (file_area data)) (\<lambda>area.
     and_then
       (push_provenance
         (signed0 @ opt_tlv TIMESTAMP (map_option encode_u64 (file_timestamp data))
          @ [assigned_tlv CONTENTS (file_contents data)] @ list_of_option area) prov) (\<lambda>signed1.
     and_then
       (push_file_metadata signed1 (file_short_description data) (file_long_description_lines data)
         (file_tear_line data) (file_magic_word data) (file_replaces data)) (\<lambda>body.
     and_then (concatenate body) (\<lambda>region.
     and_then (map_err BCrypto (sign_tlv C region secret)) (\<lambda>signature.
     and_then
       (if file_area data \<noteq> None
        then and_then (via_value effective_signer via_time software) (\<lambda>via.
             Inr (via # map (\<lambda>a. assigned_tlv SEEN_BY (address_to_string a)) seen_by))
        else Inr []) (\<lambda>route.
     and_then
       (concatenate (body @ [assigned_tlv SIGNATURE signature,
          assigned_tlv REQUEST_IDENTIFIER (encode_u64 request_identifier)] @ route)) (\<lambda>v.
     Inr (assigned_tlv FILE v))))))))))"

definition build_file_request :: "str \<Rightarrow> u64 option \<Rightarrow> u64 \<Rightarrow> bundle_error + owned_tlv" where
  "build_file_request filename newer_than request_identifier =
     and_then (validate_produced_filename filename) (\<lambda>_.
     and_then
       (concatenate
         (assigned_tlv FILENAME filename # opt_tlv TIMESTAMP (map_option encode_u64 newer_than)
          @ [assigned_tlv REQUEST_IDENTIFIER (encode_u64 request_identifier)])) (\<lambda>v.
     Inr (assigned_tlv FILE_REQUEST v)))"

text \<open>
  \<open>forward_item\<close> keeps the children up to the Signature, replaces the request identifier and the
  seen-by values, and appends its own Via.
\<close>

definition forward_item ::
    "owned_tlv \<Rightarrow> identity \<Rightarrow> u64 \<Rightarrow> u64 \<Rightarrow> str \<Rightarrow> address list \<Rightarrow> bundle_error + owned_tlv" where
  "forward_item item receiving request_identifier via_time software seen_by =
     (if tlv_type item \<noteq> MESSAGE \<and> tlv_type item \<noteq> FILE then Inl (Unexpected ''forward item kind'')
      else
        and_then (map_err BFraming (parse_sequence (tlv_value item))) (\<lambda>children.
        and_then (ok_or (Missing ''Signature'') (position (\<lambda>t. tlv_type t = SIGNATURE) children)) (\<lambda>signature.
        let suffix = drop (signature + 1) children in
        and_then (via_value receiving via_time software) (\<lambda>via.
        and_then
          (concatenate
            (take (signature + 1) children
             @ assigned_tlv REQUEST_IDENTIFIER (encode_u64 request_identifier) #
             filter (\<lambda>t. tlv_type t = VIA \<or> \<not> is_defined (tlv_type t)) suffix
             @ via #
             (if tlv_type item = MESSAGE then list_of_option (seen_by_value seen_by)
              else map (\<lambda>a. assigned_tlv SEEN_BY (address_to_string a)) seen_by)
             @ filter (\<lambda>t. tlv_type t = ADDITIONAL_KLUDGE_LINE) suffix)) (\<lambda>v.
        Inr (assigned_tlv (tlv_type item) v))))))"

end
