(* ===== verification/Item_Read.thy ===== *)
theory Item_Read
  imports Item_Build
begin

text \<open>
  Reading items: the validators and readers of \<open>crates/tith-wire/src/item_format_impl.rs\<close>.  Each
  follows its function statement by statement in the \<open>step\<close> monad of the cursor; the \<open>expect\<close>
  calls are branches to \<open>Panicked\<close>.
\<close>

section \<open>Provenance\<close>

definition parse_provenance ::
    "owned_tlv \<Rightarrow> owned_tlv option \<Rightarrow> (owned_tlv \<times> owned_tlv option) option \<Rightarrow> key_resolver
     \<Rightarrow> bundle_error + item_provenance" where
  "parse_provenance origin origin_key signed_origin resolver =
     and_then (parse_address origin) (\<lambda>origin_address.
     and_then
       (if is_anonymous origin_address then
          and_then (ok_or (Missing ''anonymous Origin PublicKey'') origin_key) (\<lambda>k.
          and_then (parse_public_key k) (\<lambda>k. Inr (Some k)))
        else if origin_key \<noteq> None then Inl (Unexpected ''non-anonymous Origin PublicKey'')
        else Inr (resolver origin_address)) (\<lambda>origin_public_key.
     and_then
       (map_transpose (\<lambda>(v, key).
          and_then (parse_address v) (\<lambda>a.
          and_then (map_transpose parse_public_key key) (\<lambda>inline_key. Inr (v, key))))
          signed_origin) (\<lambda>signed_parts.
     and_then
       (case origin_public_key of
          Some k \<Rightarrow> Inr \<lparr>id_address = origin_address, id_key = k\<rparr>
        | None \<Rightarrow>
            and_then (ok_or (UnknownKey origin_address) signed_parts) (\<lambda>(v, key).
            parse_identity v key resolver)) (\<lambda>signer.
     Inr \<lparr>prov_origin = origin_address, prov_signer = Some signer\<rparr>))))"

definition item_authentication_of ::
    "item_provenance \<Rightarrow> bool \<Rightarrow> bundle_error + item_authentication" where
  "item_authentication_of prov authenticated =
     and_then (ok_or Panicked (prov_signer prov)) (\<lambda>signer.
     Inr (if id_address signer = prov_origin prov
          then (if authenticated then OriginValid else OriginInvalid)
          else (if authenticated then SignedOriginValid else SignedOriginInvalid)))"

section \<open>Structured values\<close>

text \<open>\<open>cursor.optional(\<dots>).map(|(_, value)| text(value).map(str::to_owned)).transpose()?\<close>\<close>

definition copt_text :: "u64 \<Rightarrow> str option step" where
  "copt_text type_code = cbind (copt type_code) (\<lambda>v. clift (map_transpose tlv_text v))"

definition ctake_text :: "u64 \<Rightarrow> string \<Rightarrow> str step" where
  "ctake_text type_code name = cbind (ctake type_code name) (\<lambda>v. clift (tlv_text v))"

definition ctake_u64 :: "u64 \<Rightarrow> string \<Rightarrow> u64 step" where
  "ctake_u64 type_code name = cbind (ctake type_code name) (\<lambda>v. clift (value_u64 v))"

definition validate_area :: "owned_tlv \<Rightarrow> bundle_error + area_data" where
  "validate_area t =
     and_then (children_of t) (run_step
       (cbind (ctake_text AREA_NAME ''AreaName'') (\<lambda>name.
        cbind (copt_text AREA_DESCRIPTION) (\<lambda>description.
        cbind cfinish (\<lambda>_.
        creturn \<lparr>area_name = name, area_description = description\<rparr>)))))"

definition seen_by_addresses :: "owned_tlv \<Rightarrow> bundle_error + address list" where
  "seen_by_addresses t =
     and_then (tlv_text t) (\<lambda>v.
     map_err (\<lambda>_. Unexpected ''SeenBy is not a Trimmed Collection of addresses'')
       (parse_trimmed_collection v))"

definition read_via :: "owned_tlv \<Rightarrow> bundle_error + via_data" where
  "read_via t =
     and_then (take_encoded_tlv (tlv_value t)) (\<lambda>(address_tlv, address_bytes).
     if tlv_type address_tlv \<noteq> ADDRESS then Inl (Missing ''Via Address'')
     else and_then (parse_address address_tlv) (\<lambda>a.
     and_then (take_encoded_tlv (drop address_bytes (tlv_value t))) (\<lambda>(nxt, next_bytes).
     and_then
       (if is_anonymous a then
          if tlv_type nxt \<noteq> PUBLIC_KEY then Inl (Missing ''PublicKey after anonymous Via Address'')
          else and_then (parse_public_key nxt) (\<lambda>k. Inr (Some k, address_bytes + next_bytes))
        else if tlv_type nxt = PUBLIC_KEY
        then Inl (Unexpected ''PublicKey after non-anonymous Via Address'')
        else Inr (None, address_bytes)) (\<lambda>(key, offset).
     and_then
       (if is_anonymous a then take_encoded_tlv (drop offset (tlv_value t)) else Inr (nxt, next_bytes))
       (\<lambda>(timestamp, timestamp_bytes).
     if tlv_type timestamp \<noteq> TIMESTAMP then Inl (Missing ''Via Timestamp'')
     else and_then (value_u64 timestamp) (\<lambda>time.
     and_then (map_err (\<lambda>_. InvalidUtf8) (from_utf8 (drop (offset + timestamp_bytes) (tlv_value t))))
       (\<lambda>software.
     Inr \<lparr>via_address = a, via_public_key = key, via_timestamp = time, via_software = software\<rparr>)))))))"

definition item_vias :: "owned_tlv \<Rightarrow> bundle_error + via_data list" where
  "item_vias item =
     and_then (children_of item) (\<lambda>children.
     try_map read_via (filter (\<lambda>t. tlv_type t = VIA) children))"

definition read_reply_to :: "owned_tlv \<Rightarrow> bundle_error + address \<times> str" where
  "read_reply_to t =
     and_then (take_encoded_tlv (tlv_value t)) (\<lambda>(address_tlv, used).
     if tlv_type address_tlv \<noteq> ADDRESS then Inl (Missing ''ReplyTo Address'')
     else and_then (parse_address address_tlv) (\<lambda>a.
     and_then (map_err (\<lambda>_. InvalidUtf8) (from_utf8 (drop used (tlv_value t)))) (\<lambda>identifier.
     Inr (a, identifier))))"

section \<open>Files\<close>

definition opt_signed_origin :: "(owned_tlv \<times> owned_tlv option) option step" where
  "opt_signed_origin =
     cbind (copt SIGNED_ORIGIN) (\<lambda>v.
     case v of
       None \<Rightarrow> creturn None
     | Some t \<Rightarrow>
         cbind (clift (parse_address t)) (\<lambda>a.
         cbind (conditional_public_key a) (\<lambda>key.
         creturn (Some (t, key)))))"

type_synonym provenance_parts =
  "owned_tlv \<times> address \<times> owned_tlv option \<times> (owned_tlv \<times> owned_tlv option) option"

definition file_provenance_parts :: "bool \<Rightarrow> provenance_parts option step" where
  "file_provenance_parts standalone =
     cbind (copt ORIGIN) (\<lambda>origin.
     case origin of
       None \<Rightarrow>
         if standalone then clift (Inl (Missing ''standalone File Origin'')) else creturn None
     | Some t \<Rightarrow>
         cbind (clift (parse_address t)) (\<lambda>a.
         cbind (conditional_public_key a) (\<lambda>key.
         cbind opt_signed_origin (\<lambda>signed_origin.
         creturn (Some (t, a, key, signed_origin))))))"

text \<open>
  Checking the signature of an item against the encoded children before it: the signer, the
  authentication, and whether it verified.
\<close>

definition check_signature ::
    "crypto \<Rightarrow> owned_tlv list \<Rightarrow> item_provenance \<Rightarrow> nat \<Rightarrow> bytes
     \<Rightarrow> bundle_error + identity \<times> item_authentication \<times> bool" where
  "check_signature C children prov index signature =
     and_then (ok_or Panicked (prov_signer prov)) (\<lambda>signer.
     and_then (encoded_prefix children index) (\<lambda>region.
     and_then (map_err BCrypto (verify_tlv C region signature (id_key signer))) (\<lambda>authenticated.
     and_then (item_authentication_of prov authenticated) (\<lambda>authentication.
     Inr (signer, authentication, authenticated)))))"

definition file_signature ::
    "crypto \<Rightarrow> key_resolver \<Rightarrow> owned_tlv list \<Rightarrow> provenance_parts option \<Rightarrow> (nat \<times> owned_tlv) option
     \<Rightarrow> bundle_error + item_provenance option \<times> item_authentication option \<times> (bytes \<times> bool) option" where
  "file_signature C resolver children parts entry =
     (case entry of
        Some (index, signature_tlv) \<Rightarrow>
          and_then (parse_signature signature_tlv) (\<lambda>signature.
          and_then (ok_or Panicked parts) (\<lambda>(origin, _, key, signed_origin).
          and_then (parse_provenance origin key signed_origin resolver) (\<lambda>prov.
          and_then (check_signature C children prov index signature)
            (\<lambda>(signer, authentication, authenticated).
          Inr (Some prov, Some authentication, Some (signature, authenticated))))))
      | None \<Rightarrow>
          and_then
            (map_transpose (\<lambda>(_, origin, _, signed_origin).
               if signed_origin \<noteq> None then Inl (Unexpected ''SignedOrigin without Signature'')
               else Inr \<lparr>prov_origin = origin, prov_signer = None\<rparr>) parts) (\<lambda>prov.
          Inr (prov, map_option (\<lambda>_. Unsigned) prov, None)))"

definition file_description :: "string \<Rightarrow> owned_tlv \<Rightarrow> bundle_error + unit" where
  "file_description what t =
     and_then (tlv_text t) (\<lambda>v. if has_newline v then Inl (Unexpected what) else Inr ())"

definition file_name_rule :: "owned_tlv \<Rightarrow> bundle_error + unit" where
  "file_name_rule t =
     and_then (tlv_text t) (\<lambda>v.
     if filename_has_path_component v then Inl (Unexpected ''Filename path component'') else Inr ())"

text \<open>The duplicate identity of a file whose signature verified; both \<open>expect\<close> calls are branches.\<close>

definition file_duplicate ::
    "item_provenance option \<Rightarrow> (bytes \<times> bool) option \<Rightarrow> bundle_error + signed_item_identity option" where
  "file_duplicate prov signature =
     (case signature of
        Some (s, True) \<Rightarrow>
          and_then (ok_or Panicked prov) (\<lambda>p.
          and_then (ok_or Panicked (prov_signer p)) (\<lambda>signer.
          Inr (Some \<lparr>sii_kind = SignedFile, sii_signer = signer, sii_signature = s\<rparr>)))
      | _ \<Rightarrow> Inr None)"

definition attached_provenance :: "owned_tlv list \<Rightarrow> bool" where
  "attached_provenance children \<longleftrightarrow>
     list_ex (\<lambda>t. tlv_type t \<in> {ORIGIN, PUBLIC_KEY, SIGNED_ORIGIN, SIGNATURE}) children"

definition validate_file ::
    "crypto \<Rightarrow> owned_tlv \<Rightarrow> bool \<Rightarrow> key_resolver \<Rightarrow> bundle_error + validated_item option" where
  "validate_file C t standalone resolver =
     and_then (children_of t) (\<lambda>children. run_step
       (cbind (copt FILENAME) (\<lambda>filename.
        cbind (clift (map_transpose file_name_rule filename)) (\<lambda>_.
        cbind (copt TIMESTAMP) (\<lambda>timestamp.
        cbind (clift (map_transpose value_u64 timestamp)) (\<lambda>_.
        cbind (ctake CONTENTS ''File Contents'') (\<lambda>_.
        cbind (clift (if \<not> standalone \<and> attached_provenance children
                      then Inl (Unexpected ''attached File provenance'') else Inr ())) (\<lambda>_.
        cbind (copt AREA) (\<lambda>area_tlv.
        cbind (clift (map_transpose validate_area area_tlv)) (\<lambda>area.
        cbind (clift (if \<not> standalone \<and> area \<noteq> None
                      then Inl (Unexpected ''attached File Area'') else Inr ())) (\<lambda>_.
        cbind (file_provenance_parts standalone) (\<lambda>parts.
        cbind (copt SHORT_DESCRIPTION) (\<lambda>short.
        cbind (clift (map_transpose (file_description ''newline in ShortDescription'') short)) (\<lambda>_.
        cbind (crep LONG_DESCRIPTION_LINE) (\<lambda>long.
        cbind (clift (try_map (file_description ''newline in LongDescriptionLine'') long)) (\<lambda>_.
        cbind (copt_text TEAR_LINE) (\<lambda>_.
        cbind (copt_text MAGIC_WORD) (\<lambda>_.
        cbind (copt_text REPLACES) (\<lambda>_.
        cbind (copt_at SIGNATURE) (\<lambda>entry.
        cbind (clift (file_signature C resolver children parts entry))
          (\<lambda>(prov, authentication, signature).
        cbind (if standalone
               then cbind (ctake_u64 REQUEST_IDENTIFIER ''File RequestIdentifier'') (\<lambda>i. creturn (Some i))
               else creturn None) (\<lambda>request_identifier.
        cbind (crep VIA) (\<lambda>vias.
        cbind (crep SEEN_BY) (\<lambda>seen_by.
        cbind (clift (if area \<noteq> None \<and> (vias = [] \<or> seen_by = [])
                      then Inl (Missing ''distribution File Via/SeenBy'')
                      else if area = None \<and> (vias \<noteq> [] \<or> seen_by \<noteq> [])
                      then Inl (Unexpected ''non-distribution File Via/SeenBy'') else Inr ())) (\<lambda>_.
        cbind (clift (try_map read_via vias)) (\<lambda>_.
        cbind (clift (try_map seen_by_addresses seen_by)) (\<lambda>_.
        cbind cfinish (\<lambda>_.
        case request_identifier of
          None \<Rightarrow> creturn None
        | Some i \<Rightarrow>
            cbind (clift (file_duplicate prov signature)) (\<lambda>duplicate.
            creturn (Some
              \<lparr>vi_kind = FileItem, vi_request_identifier = i, vi_duplicate_identity = duplicate,
               vi_authentication = authentication, vi_response_to = None, vi_response_public_key = None,
               vi_rejection = None, vi_provenance = prov, vi_destination = None,
               vi_area = map_option area_name area, vi_raw = t\<rparr>)))))))))))))))))))))))))))))
       children)"

definition validate_file_request :: "owned_tlv \<Rightarrow> bundle_error + validated_item" where
  "validate_file_request t =
     and_then (children_of t) (run_step
       (cbind (ctake FILENAME ''Filename'') (\<lambda>filename.
        cbind (clift (file_name_rule filename)) (\<lambda>_.
        cbind (copt TIMESTAMP) (\<lambda>timestamp.
        cbind (clift (map_transpose value_u64 timestamp)) (\<lambda>_.
        cbind (ctake_u64 REQUEST_IDENTIFIER ''RequestIdentifier'') (\<lambda>request_identifier.
        cbind cfinish (\<lambda>_.
        creturn
          \<lparr>vi_kind = FileRequest, vi_request_identifier = request_identifier,
           vi_duplicate_identity = None, vi_authentication = Some Transport, vi_response_to = None,
           vi_response_public_key = None, vi_rejection = None, vi_provenance = None,
           vi_destination = None, vi_area = None, vi_raw = t\<rparr>))))))))"

section \<open>Messages\<close>

text \<open>The optional Destination with its conditional key, as both message functions read it.\<close>

definition opt_destination :: "key_resolver \<Rightarrow> identity option step" where
  "opt_destination resolver c =
     (if peek_type c = Some DESTINATION then
        cbind (ctake DESTINATION ''Destination'') (\<lambda>t.
        cbind (clift (parse_address t)) (\<lambda>a.
        cbind (conditional_public_key a) (\<lambda>key.
        cbind (clift (parse_identity t key resolver)) (\<lambda>who.
        creturn (Some who))))) c
      else creturn None c)"

text \<open>Provenance, authentication and duplicate identity of a message.\<close>

definition message_signature ::
    "crypto \<Rightarrow> key_resolver \<Rightarrow> owned_tlv list \<Rightarrow> owned_tlv \<Rightarrow> address \<Rightarrow> owned_tlv option
     \<Rightarrow> (owned_tlv \<times> owned_tlv option) option \<Rightarrow> (nat \<times> owned_tlv) option
     \<Rightarrow> bundle_error + item_provenance \<times> item_authentication \<times> signed_item_identity option" where
  "message_signature C resolver children origin_tlv origin_address origin_key signed_origin entry =
     (case entry of
        Some (index, signature_tlv) \<Rightarrow>
          and_then (parse_provenance origin_tlv origin_key signed_origin resolver) (\<lambda>prov.
          and_then (parse_signature signature_tlv) (\<lambda>signature.
          and_then (check_signature C children prov index signature)
            (\<lambda>(signer, authentication, authenticated).
          Inr (prov, authentication,
               if authenticated
               then Some \<lparr>sii_kind = SignedMessage, sii_signer = signer, sii_signature = signature\<rparr>
               else None))))
      | None \<Rightarrow>
          if signed_origin \<noteq> None then Inl (Unexpected ''SignedOrigin without Signature'')
          else Inr (\<lparr>prov_origin = origin_address, prov_signer = None\<rparr>, Unsigned, None))"

definition kludge_rule :: "owned_tlv \<Rightarrow> bundle_error + unit" where
  "kludge_rule t =
     and_then (tlv_text t) (\<lambda>v.
     if 1 \<in> set v then Inl (Unexpected ''Control-A in AdditionalKludgeLine'') else Inr ())"

definition validate_message ::
    "crypto \<Rightarrow> owned_tlv \<Rightarrow> key_resolver \<Rightarrow> bundle_error + validated_item" where
  "validate_message C t resolver =
     and_then (children_of t) (\<lambda>children.
     if \<not> has_type ORIGIN (nth_opt children 0) then Inl (Missing ''initial Message Origin'')
     else run_step
       (cbind (ctake ORIGIN ''Message Origin'') (\<lambda>origin_tlv.
        cbind (clift (parse_address origin_tlv)) (\<lambda>origin_address.
        cbind (conditional_public_key origin_address) (\<lambda>origin_key.
        cbind opt_signed_origin (\<lambda>signed_origin.
        cbind (opt_destination resolver) (\<lambda>destination.
        cbind (ctake_u64 TIMESTAMP ''Message Timestamp'') (\<lambda>_.
        cbind (ctake_text TO_USER_NAME ''ToUserName'') (\<lambda>_.
        cbind (ctake_text FROM_USER_NAME ''FromUserName'') (\<lambda>_.
        cbind (ctake_text SUBJECT ''Subject'') (\<lambda>_.
        cbind (ctake_text MESSAGE_TEXT ''MessageText'') (\<lambda>message_text.
        cbind (clift (validate_message_text message_text)) (\<lambda>_.
        cbind (copt AREA) (\<lambda>area_tlv.
        cbind (clift (map_transpose validate_area area_tlv)) (\<lambda>area.
        cbind (clift (if (destination \<noteq> None) = (area \<noteq> None)
                      then Inl (Unexpected ''Message Destination/Area combination'') else Inr ())) (\<lambda>_.
        cbind (crep FILE) (\<lambda>files.
        cbind (clift (try_map (\<lambda>file. validate_file C file False resolver) files)) (\<lambda>_.
        cbind (copt LEGACY_ATTRIBUTES) (\<lambda>legacy.
        cbind (clift (map_transpose (\<lambda>v. and_then (value_u64 v) validate_legacy_attributes) legacy)) (\<lambda>_.
        cbind (copt TIMESTAMP_OFFSET) (\<lambda>offset.
        cbind (clift (map_transpose (\<lambda>v. and_then (value_i64 v) validate_timestamp_offset) offset)) (\<lambda>_.
        cbind (copt_text TEAR_LINE) (\<lambda>tear_line.
        cbind (copt_text ORIGIN_LINE) (\<lambda>origin_line.
        cbind (copt_text MESSAGE_ID) (\<lambda>_.
        cbind (clift (if destination \<noteq> None \<and> (tear_line \<noteq> None \<or> origin_line \<noteq> None)
                      then Inl (Unexpected ''a NetMail TearLine or OriginLine'') else Inr ())) (\<lambda>_.
        cbind (copt REPLY_TO) (\<lambda>reply.
        cbind (clift (map_transpose read_reply_to reply)) (\<lambda>_.
        cbind (copt_text ORIGINAL_CHARACTER_SET) (\<lambda>_.
        cbind (copt_at SIGNATURE) (\<lambda>entry.
        cbind (clift (message_signature C resolver children origin_tlv origin_address origin_key
                        signed_origin entry)) (\<lambda>signed_result.
        cbind (ctake_u64 REQUEST_IDENTIFIER ''Message RequestIdentifier'') (\<lambda>request_identifier.
        cbind (crep VIA) (\<lambda>vias.
        cbind (clift (if vias = [] then Inl (Missing ''Message Via'') else Inr ())) (\<lambda>_.
        cbind (clift (try_map read_via vias)) (\<lambda>_.
        cbind (copt SEEN_BY) (\<lambda>seen_by.
        cbind (clift (map_transpose seen_by_addresses seen_by)) (\<lambda>_.
        cbind (crep ADDITIONAL_KLUDGE_LINE) (\<lambda>kludges.
        cbind (clift (try_map kludge_rule kludges)) (\<lambda>_.
        cbind cfinish (\<lambda>_.
        creturn
          \<lparr>vi_kind = (if destination \<noteq> None then NetMail else EchoMail),
           vi_request_identifier = request_identifier,
           vi_duplicate_identity = snd (snd signed_result),
           vi_authentication = Some (fst (snd signed_result)),
           vi_response_to = None, vi_response_public_key = None, vi_rejection = None,
           vi_provenance = Some (fst signed_result), vi_destination = destination,
           vi_area = map_option area_name area, vi_raw = t\<rparr>)))))))))))))))))))))))))))))))))))))))
       children)"

section \<open>Item models\<close>

definition item_model_parse :: "crypto \<Rightarrow> owned_tlv \<Rightarrow> key_resolver \<Rightarrow> bundle_error + item_model" where
  "item_model_parse C t resolver =
     and_then
       (if tlv_type t = MESSAGE then and_then (validate_message C t resolver) (\<lambda>_. Inr ModelMessage)
        else if tlv_type t = FILE
        then and_then (validate_file C t True resolver) (\<lambda>_. Inr ModelStandaloneFile)
        else if tlv_type t = FILE_REQUEST
        then and_then (validate_file_request t) (\<lambda>_. Inr ModelFileRequest)
        else Inl (Unexpected ''ItemModel item kind'')) (\<lambda>kind.
     and_then (children_of t) (\<lambda>children.
     Inr \<lparr>model_kind = kind, model_children = children\<rparr>))"

fun model_type :: "item_model_kind \<Rightarrow> u64" where
  "model_type ModelMessage = MESSAGE"
| "model_type ModelStandaloneFile = FILE"
| "model_type ModelFileRequest = FILE_REQUEST"

definition item_model_to_tlv :: "item_model \<Rightarrow> bundle_error + owned_tlv" where
  "item_model_to_tlv m =
     and_then (encode_value m) (\<lambda>v. Inr (assigned_tlv (model_type (model_kind m)) v))"

definition message_model_parse :: "crypto \<Rightarrow> owned_tlv \<Rightarrow> key_resolver \<Rightarrow> bundle_error + item_model" where
  "message_model_parse C t resolver =
     and_then (item_model_parse C t resolver) (\<lambda>m.
     if model_kind m \<noteq> ModelMessage then Inl (Unexpected ''MessageModel item kind'') else Inr m)"

section \<open>Readers\<close>

record item_signing =
  sign_origin :: address
  sign_origin_key :: "bytes option"
  sign_signed_origin :: "address option"
  sign_signed_origin_key :: "bytes option"
  sign_signature :: "bytes option"
  sign_region :: bytes
  sign_signed_origin_encoding :: bytes

record read_message_result =
  rm_data :: message_data
  rm_signing :: item_signing
  rm_request_identifier :: u64
  rm_vias :: "via_data list"
  rm_seen_by :: "address list"

record read_file_result =
  rf_data :: standalone_file_data
  rf_signing :: item_signing
  rf_request_identifier :: u64
  rf_vias :: "via_data list"
  rf_seen_by :: "address list"

record read_file_request_result =
  rq_filename :: str
  rq_timestamp :: "u64 option"
  rq_request_identifier :: u64

record signed_origin_parts =
  sop_address :: "address option"
  sop_key :: "bytes option"
  sop_encoding :: bytes

definition read_signed_origin :: "signed_origin_parts step" where
  "read_signed_origin =
     cbind (copt SIGNED_ORIGIN) (\<lambda>v.
     case v of
       None \<Rightarrow> creturn \<lparr>sop_address = None, sop_key = None, sop_encoding = []\<rparr>
     | Some t \<Rightarrow>
         cbind (clift (parse_address t)) (\<lambda>a.
         cbind (clift (map_err (\<lambda>_. Panicked) (tlv_encode t))) (\<lambda>encoding.
         cbind (conditional_public_key a) (\<lambda>key.
         cbind (clift (map_transpose (\<lambda>k. map_err (\<lambda>_. Panicked) (tlv_encode k)) key)) (\<lambda>key_encoding.
         cbind (clift (map_transpose parse_public_key key)) (\<lambda>k.
         creturn \<lparr>sop_address = Some a, sop_key = k,
                  sop_encoding = encoding @ concat (list_of_option key_encoding)\<rparr>))))))"

definition read_signature :: "owned_tlv list \<Rightarrow> (bytes option \<times> bytes) step" where
  "read_signature children =
     cbind (copt_at SIGNATURE) (\<lambda>entry.
     case entry of
       Some (index, t) \<Rightarrow>
         cbind (clift (parse_signature t)) (\<lambda>signature.
         cbind (clift (encoded_prefix children index)) (\<lambda>region.
         creturn (Some signature, region)))
     | None \<Rightarrow> creturn (None, []))"

definition copt_u64 :: "u64 \<Rightarrow> u64 option step" where
  "copt_u64 type_code = cbind (copt type_code) (\<lambda>v. clift (map_transpose value_u64 v))"

definition read_attachment :: "owned_tlv \<Rightarrow> bundle_error + attachment_data" where
  "read_attachment t =
     and_then (children_of t) (run_step
       (cbind (copt_text FILENAME) (\<lambda>filename.
        cbind (copt_u64 TIMESTAMP) (\<lambda>timestamp.
        cbind (ctake CONTENTS ''attached Contents'') (\<lambda>contents.
        cbind (copt_text SHORT_DESCRIPTION) (\<lambda>short.
        cbind (crep LONG_DESCRIPTION_LINE) (\<lambda>lines.
        cbind (clift (try_map tlv_text lines)) (\<lambda>long.
        cbind (copt_text TEAR_LINE) (\<lambda>tear.
        cbind (copt_text MAGIC_WORD) (\<lambda>magic.
        cbind (copt_text REPLACES) (\<lambda>repl.
        cbind cfinish (\<lambda>_.
        creturn
          \<lparr>att_filename = filename, att_timestamp = timestamp, att_contents = tlv_value contents,
           att_short_description = short, att_long_description_lines = long, att_tear_line = tear,
           att_magic_word = magic, att_replaces = repl\<rparr>))))))))))))"

definition read_message :: "owned_tlv \<Rightarrow> key_resolver \<Rightarrow> bundle_error + read_message_result" where
  "read_message t resolver =
     (if tlv_type t \<noteq> MESSAGE then Inl (Unexpected ''read_message item kind'')
      else and_then (children_of t) (\<lambda>children. run_step
       (cbind (ctake ORIGIN ''Message Origin'') (\<lambda>origin_tlv.
        cbind (clift (parse_address origin_tlv)) (\<lambda>origin.
        cbind (conditional_public_key origin) (\<lambda>key_tlv.
        cbind (clift (map_transpose parse_public_key key_tlv)) (\<lambda>origin_key.
        cbind read_signed_origin (\<lambda>signed_origin.
        cbind (opt_destination resolver) (\<lambda>destination.
        cbind (ctake_u64 TIMESTAMP ''Message Timestamp'') (\<lambda>timestamp.
        cbind (ctake_text TO_USER_NAME ''ToUserName'') (\<lambda>to_user.
        cbind (ctake_text FROM_USER_NAME ''FromUserName'') (\<lambda>from_user.
        cbind (ctake_text SUBJECT ''Subject'') (\<lambda>subject.
        cbind (ctake_text MESSAGE_TEXT ''MessageText'') (\<lambda>message_text.
        cbind (copt AREA) (\<lambda>area_tlv.
        cbind (clift (map_transpose validate_area area_tlv)) (\<lambda>area.
        cbind (crep FILE) (\<lambda>files.
        cbind (clift (try_map read_attachment files)) (\<lambda>attachments.
        cbind (copt_u64 LEGACY_ATTRIBUTES) (\<lambda>legacy.
        cbind (copt TIMESTAMP_OFFSET) (\<lambda>offset_tlv.
        cbind (clift (map_transpose value_i64 offset_tlv)) (\<lambda>offset.
        cbind (copt_text TEAR_LINE) (\<lambda>tear_line.
        cbind (copt_text ORIGIN_LINE) (\<lambda>origin_line.
        cbind (copt_text MESSAGE_ID) (\<lambda>message_id.
        cbind (copt REPLY_TO) (\<lambda>reply_tlv.
        cbind (clift (map_transpose read_reply_to reply_tlv)) (\<lambda>reply.
        cbind (copt_text ORIGINAL_CHARACTER_SET) (\<lambda>charset.
        cbind (read_signature children) (\<lambda>signature.
        cbind (ctake_u64 REQUEST_IDENTIFIER ''Message RequestIdentifier'') (\<lambda>request_identifier.
        cbind (crep VIA) (\<lambda>via_tlvs.
        cbind (clift (try_map read_via via_tlvs)) (\<lambda>vias.
        cbind (clift (if vias = [] then Inl (Missing ''Message Via'') else Inr ())) (\<lambda>_.
        cbind (copt SEEN_BY) (\<lambda>seen_by_tlv.
        cbind (clift (case seen_by_tlv of Some v \<Rightarrow> seen_by_addresses v | None \<Rightarrow> Inr [])) (\<lambda>seen_by.
        cbind (crep ADDITIONAL_KLUDGE_LINE) (\<lambda>kludge_tlvs.
        cbind (clift (try_map tlv_text kludge_tlvs)) (\<lambda>kludges.
        cbind cfinish (\<lambda>_.
        creturn
          \<lparr>rm_data =
             \<lparr>msg_destination = destination, msg_timestamp = timestamp, msg_to_user = to_user,
              msg_from_user = from_user, msg_subject = subject, msg_text = message_text,
              msg_area = area, msg_attachments = attachments, msg_legacy_attributes = legacy,
              msg_timestamp_offset = offset, msg_tear_line = tear_line, msg_origin_line = origin_line,
              msg_message_id = message_id, msg_reply_to = reply, msg_original_character_set = charset,
              msg_additional_kludge_lines = kludges\<rparr>,
           rm_signing =
             \<lparr>sign_origin = origin, sign_origin_key = origin_key,
              sign_signed_origin = sop_address signed_origin,
              sign_signed_origin_key = sop_key signed_origin, sign_signature = fst signature,
              sign_region = snd signature, sign_signed_origin_encoding = sop_encoding signed_origin\<rparr>,
           rm_request_identifier = request_identifier, rm_vias = vias, rm_seen_by = seen_by\<rparr>)))))))))))))))))))))))))))))))))))
       children))"

definition read_standalone_file :: "owned_tlv \<Rightarrow> bundle_error + read_file_result" where
  "read_standalone_file t =
     (if tlv_type t \<noteq> FILE then Inl (Unexpected ''read_standalone_file item kind'')
      else and_then (children_of t) (\<lambda>children. run_step
       (cbind (copt_text FILENAME) (\<lambda>filename.
        cbind (copt_u64 TIMESTAMP) (\<lambda>timestamp.
        cbind (ctake CONTENTS ''File Contents'') (\<lambda>contents.
        cbind (copt AREA) (\<lambda>area_tlv.
        cbind (clift (map_transpose validate_area area_tlv)) (\<lambda>area.
        cbind (ctake ORIGIN ''standalone File Origin'') (\<lambda>origin_tlv.
        cbind (clift (parse_address origin_tlv)) (\<lambda>origin.
        cbind (conditional_public_key origin) (\<lambda>key_tlv.
        cbind (clift (map_transpose parse_public_key key_tlv)) (\<lambda>origin_key.
        cbind read_signed_origin (\<lambda>signed_origin.
        cbind (copt_text SHORT_DESCRIPTION) (\<lambda>short.
        cbind (crep LONG_DESCRIPTION_LINE) (\<lambda>lines.
        cbind (clift (try_map tlv_text lines)) (\<lambda>long.
        cbind (copt_text TEAR_LINE) (\<lambda>tear.
        cbind (copt_text MAGIC_WORD) (\<lambda>magic.
        cbind (copt_text REPLACES) (\<lambda>repl.
        cbind (read_signature children) (\<lambda>signature.
        cbind (ctake_u64 REQUEST_IDENTIFIER ''File RequestIdentifier'') (\<lambda>request_identifier.
        cbind (crep VIA) (\<lambda>via_tlvs.
        cbind (clift (try_map read_via via_tlvs)) (\<lambda>vias.
        cbind (crep SEEN_BY) (\<lambda>seen_by_tlvs.
        cbind (clift (try_map seen_by_addresses seen_by_tlvs)) (\<lambda>seen_by.
        cbind cfinish (\<lambda>_.
        creturn
          \<lparr>rf_data =
             \<lparr>file_filename = filename, file_timestamp = timestamp, file_contents = tlv_value contents,
              file_area = area, file_short_description = short, file_long_description_lines = long,
              file_tear_line = tear, file_magic_word = magic, file_replaces = repl\<rparr>,
           rf_signing =
             \<lparr>sign_origin = origin, sign_origin_key = origin_key,
              sign_signed_origin = sop_address signed_origin,
              sign_signed_origin_key = sop_key signed_origin, sign_signature = fst signature,
              sign_region = snd signature, sign_signed_origin_encoding = sop_encoding signed_origin\<rparr>,
           rf_request_identifier = request_identifier, rf_vias = vias,
           rf_seen_by = concat seen_by\<rparr>)))))))))))))))))))))))) children))"

definition read_file_request :: "owned_tlv \<Rightarrow> bundle_error + read_file_request_result" where
  "read_file_request t =
     (if tlv_type t \<noteq> FILE_REQUEST then Inl (Unexpected ''read_file_request item kind'')
      else and_then (children_of t) (run_step
       (cbind (ctake_text FILENAME ''Filename'') (\<lambda>filename.
        cbind (copt_u64 TIMESTAMP) (\<lambda>timestamp.
        cbind (ctake_u64 REQUEST_IDENTIFIER ''RequestIdentifier'') (\<lambda>request_identifier.
        cbind cfinish (\<lambda>_.
        creturn \<lparr>rq_filename = filename, rq_timestamp = timestamp,
                 rq_request_identifier = request_identifier\<rparr>)))))))"

end
