(* ===== verification/Carrier.thy ===== *)
theory Carrier
  imports Item_Read
begin

text \<open>
  Requests, responses and payload validation: \<open>crates/tith-wire/src/item_carrier.rs\<close>.
\<close>

section \<open>Requests and responses\<close>

text \<open>\<open>carrier_value\<close> unwraps the constructor with \<open>expect\<close>.\<close>

definition carrier_value :: "u64 \<Rightarrow> bytes \<Rightarrow> bundle_error + owned_tlv" where
  "carrier_value type_code v = map_err (\<lambda>_. Panicked) (tlv_new type_code v)"

definition plain_item :: "item_kind \<Rightarrow> u64 \<Rightarrow> owned_tlv \<Rightarrow> validated_item" where
  "plain_item kind request_identifier t =
     \<lparr>vi_kind = kind, vi_request_identifier = request_identifier, vi_duplicate_identity = None,
      vi_authentication = None, vi_response_to = None, vi_response_public_key = None,
      vi_rejection = None, vi_provenance = None, vi_destination = None, vi_area = None, vi_raw = t\<rparr>"

definition simple_request :: "owned_tlv \<Rightarrow> item_kind \<Rightarrow> bundle_error + validated_item" where
  "simple_request t kind =
     and_then (children_of t) (run_step
       (cbind (ctake_u64 REQUEST_IDENTIFIER ''RequestIdentifier'') (\<lambda>request_identifier.
        cbind cfinish (\<lambda>_.
        creturn (plain_item kind request_identifier t)))))"

definition validate_public_key_request :: "owned_tlv \<Rightarrow> bundle_error + validated_item" where
  "validate_public_key_request t = simple_request t PublicKeyRequest"

definition hash_value :: "string \<Rightarrow> owned_tlv \<Rightarrow> bundle_error + bytes" where
  "hash_value name t =
     (if length (tlv_value t) \<noteq> 32 then Inl (WrongLength name) else Inr (tlv_value t))"

definition validate_accepted :: "owned_tlv \<Rightarrow> bundle_error + validated_item" where
  "validate_accepted t =
     and_then (children_of t) (run_step
       (cbind (ctake_u64 REQUEST_IDENTIFIER ''Accepted RequestIdentifier'') (\<lambda>request_identifier.
        cbind (ctake TLV_HASH ''Accepted TLVHash'') (\<lambda>hash.
        cbind (clift (hash_value ''TLVHash'' hash)) (\<lambda>response_to.
        cbind (copt PUBLIC_KEY) (\<lambda>key.
        cbind (clift (map_transpose parse_public_key key)) (\<lambda>response_public_key.
        cbind cfinish (\<lambda>_.
        creturn ((plain_item Accepted request_identifier t)
          \<lparr>vi_response_to := Some response_to, vi_response_public_key := response_public_key\<rparr>)))))))))"

definition validate_rejected :: "owned_tlv \<Rightarrow> bundle_error + validated_item" where
  "validate_rejected t =
     and_then (children_of t) (run_step
       (cbind (ctake_u64 REQUEST_IDENTIFIER ''Rejected RequestIdentifier'') (\<lambda>request_identifier.
        cbind (ctake TLV_HASH ''Rejected TLVHash'') (\<lambda>hash.
        cbind (clift (hash_value ''Rejected TLVHash'' hash)) (\<lambda>response_to.
        cbind (copt_u64 TIMESTAMP) (\<lambda>retry_after.
        cbind (ctake_u64 REJECTION_REASON ''Rejected RejectionReason'') (\<lambda>code.
        cbind (clift (ok_or (Unexpected ''Rejected reason'') (rejection_from_code code))) (\<lambda>reason.
        cbind (clift (if retry_after \<noteq> None \<and> reason \<noteq> Temporary
                      then Inl (Unexpected ''Rejected Timestamp for non-temporary reason'')
                      else Inr ())) (\<lambda>_.
        cbind (copt_text REJECTION_DESCRIPTION) (\<lambda>description.
        cbind (clift (if description = Some [] then Inl (Unexpected ''empty RejectionDescription'')
                      else Inr (case description of Some d \<Rightarrow> d | None \<Rightarrow> []))) (\<lambda>description'.
        cbind cfinish (\<lambda>_.
        creturn ((plain_item Rejected request_identifier t)
          \<lparr>vi_response_to := Some response_to,
           vi_rejection := Some \<lparr>rej_reason = reason, rej_retry_after = retry_after,
                                 rej_description = description'\<rparr>\<rparr>)))))))))))))"

definition validate_response :: "owned_tlv \<Rightarrow> bool \<Rightarrow> bundle_error + validated_item" where
  "validate_response t accepted = (if accepted then validate_accepted t else validate_rejected t)"

definition accepted :: "u64 \<Rightarrow> bytes \<Rightarrow> bundle_error + owned_tlv" where
  "accepted request_identifier response_to =
     and_then (carrier_value REQUEST_IDENTIFIER (encode_u64 request_identifier)) (\<lambda>i.
     and_then (carrier_value TLV_HASH response_to) (\<lambda>h.
     and_then (encoded_prefix [i, h] 2) (\<lambda>v. carrier_value ACCEPTED v)))"

definition accepted_public_key :: "u64 \<Rightarrow> bytes \<Rightarrow> bytes \<Rightarrow> bundle_error + owned_tlv" where
  "accepted_public_key request_identifier response_to public_key =
     and_then (carrier_value REQUEST_IDENTIFIER (encode_u64 request_identifier)) (\<lambda>i.
     and_then (carrier_value TLV_HASH response_to) (\<lambda>h.
     and_then (carrier_value PUBLIC_KEY public_key) (\<lambda>k.
     and_then (encoded_prefix [i, h, k] 3) (\<lambda>v. carrier_value ACCEPTED v))))"

definition public_key_request :: "u64 \<Rightarrow> bundle_error + owned_tlv" where
  "public_key_request request_identifier =
     and_then (carrier_value REQUEST_IDENTIFIER (encode_u64 request_identifier)) (\<lambda>child.
     and_then (map_err (\<lambda>_. Panicked) (tlv_encode child)) (\<lambda>v. carrier_value PUBLIC_KEY_REQUEST v))"

text \<open>\<open>carrier_value(\<dots>).write_to(&mut value).expect(\<dots>)\<close>\<close>

definition push_carrier :: "u64 \<Rightarrow> bytes \<Rightarrow> bytes \<Rightarrow> bundle_error + bytes" where
  "push_carrier type_code v output =
     and_then (carrier_value type_code v) (\<lambda>t. map_err (\<lambda>_. Panicked) (tlv_write_to t output))"

definition rejected ::
    "u64 \<Rightarrow> bytes \<Rightarrow> u64 option \<Rightarrow> rejection_reason \<Rightarrow> str \<Rightarrow> bundle_error + owned_tlv" where
  "rejected request_identifier response_to timestamp reason description =
     (if timestamp \<noteq> None \<and> reason \<noteq> Temporary
      then Inl (Unexpected ''Rejected Timestamp for non-temporary reason'')
      else
        and_then (push_carrier REQUEST_IDENTIFIER (encode_u64 request_identifier) []) (\<lambda>v1.
        and_then (push_carrier TLV_HASH response_to v1) (\<lambda>v2.
        and_then (case timestamp of Some time \<Rightarrow> push_carrier TIMESTAMP (encode_u64 time) v2
                                  | None \<Rightarrow> Inr v2) (\<lambda>v3.
        and_then (push_carrier REJECTION_REASON (encode_u64 (rejection_code reason)) v3) (\<lambda>v4.
        and_then (if description \<noteq> [] then push_carrier REJECTION_DESCRIPTION description v4
                  else Inr v4) (\<lambda>v5.
        carrier_value REJECTED v5))))))"

section \<open>Request identifiers\<close>

definition request_identifier :: "owned_tlv \<Rightarrow> u64 option" where
  "request_identifier t =
     (case parse_sequence (tlv_value t) of
        Inl _ \<Rightarrow> None
      | Inr children \<Rightarrow>
          (case filter (\<lambda>c. tlv_type c = REQUEST_IDENTIFIER) children of
             [] \<Rightarrow> None
           | c # others \<Rightarrow>
               (case decode_u64 (tlv_value c) of
                  Inl _ \<Rightarrow> None
                | Inr identifier \<Rightarrow> if others = [] then Some identifier else None)))"

definition renumber :: "u64 \<Rightarrow> owned_tlv \<Rightarrow> owned_tlv" where
  "renumber identifier c =
     (if tlv_type c = REQUEST_IDENTIFIER then c\<lparr>tlv_value := encode_u64 identifier\<rparr> else c)"

definition set_request_identifier :: "owned_tlv \<Rightarrow> u64 \<Rightarrow> bundle_error + owned_tlv" where
  "set_request_identifier t identifier =
     and_then (children_of t) (\<lambda>children.
     let children' = map (renumber identifier) children;
         found = length (filter (\<lambda>c. tlv_type c = REQUEST_IDENTIFIER) children)
     in if found \<noteq> 1 then Inl (Missing ''exactly one RequestIdentifier'')
        else and_then (encoded_prefix children' (length children')) (\<lambda>v.
             map_err BFraming (tlv_new (tlv_type t) v)))"

section \<open>Payloads\<close>

definition validate_item ::
    "crypto \<Rightarrow> owned_tlv \<Rightarrow> key_resolver \<Rightarrow> bundle_error + validated_item option" where
  "validate_item C t resolver =
     (if tlv_type t = MESSAGE then and_then (validate_message C t resolver) (\<lambda>i. Inr (Some i))
      else if tlv_type t = FILE then validate_file C t True resolver
      else if tlv_type t = FILE_REQUEST then and_then (validate_file_request t) (\<lambda>i. Inr (Some i))
      else if tlv_type t = ACCEPTED then and_then (validate_response t True) (\<lambda>i. Inr (Some i))
      else if tlv_type t = REJECTED then and_then (validate_response t False) (\<lambda>i. Inr (Some i))
      else if tlv_type t = POLL_MESSAGES then and_then (simple_request t PollMessages) (\<lambda>i. Inr (Some i))
      else if tlv_type t = POLL_FILES then and_then (simple_request t PollFiles) (\<lambda>i. Inr (Some i))
      else if tlv_type t = POLL_FILE_REQUESTS
      then and_then (simple_request t PollFileRequests) (\<lambda>i. Inr (Some i))
      else if tlv_type t = PUBLIC_KEY_REQUEST
      then and_then (validate_public_key_request t) (\<lambda>i. Inr (Some i))
      else if tlv_type t = REJECTION_REASON \<or> tlv_type t = REJECTION_DESCRIPTION
      then Inl (Unexpected ''Rejected child outside Rejected'')
      else Inr None)"

text \<open>The loop over the items after the header hash; an error carries the item's index.\<close>

type_synonym payload_error = "nat \<times> bundle_error"

fun validate_items ::
    "crypto \<Rightarrow> key_resolver \<Rightarrow> u64 set \<Rightarrow> nat \<Rightarrow> owned_tlv list \<Rightarrow> payload_error + validated_item list" where
  "validate_items C resolver identifiers index [] = Inr []"
| "validate_items C resolver identifiers index (item # items) =
     and_then (map_err (\<lambda>e. (index, e)) (validate_item C item resolver)) (\<lambda>result.
     case result of
       None \<Rightarrow> validate_items C resolver identifiers (index + 1) items
     | Some validated \<Rightarrow>
         if is_request (tlv_type item) \<and> vi_request_identifier validated \<in> identifiers
         then Inl (index, Duplicate ''request identifier'')
         else
           and_then
             (validate_items C resolver
                (if is_request (tlv_type item)
                 then insert (vi_request_identifier validated) identifiers else identifiers)
                (index + 1) items)
             (\<lambda>rest. Inr (validated # rest)))"

definition validate_payload ::
    "crypto \<Rightarrow> verified_signed_tlv \<Rightarrow> key_resolver \<Rightarrow> payload_error + validated_item list" where
  "validate_payload C payload resolver = validate_items C resolver {} 1 (drop 1 (ver_data payload))"

end
