(* ===== verification/Bundle.thy ===== *)
theory Bundle
  imports Carrier
begin

text \<open>
  Bundles: \<open>crates/tith-wire/src/bundle.rs\<close>.  A bundle is an Origin, a signed header naming the
  destination and time, and signed payloads that each begin with the hash of the header.
\<close>

section \<open>Parsing\<close>

definition assigned :: "u64 \<Rightarrow> bytes \<Rightarrow> bundle_error + owned_tlv" where
  "assigned type_code v = map_err (\<lambda>_. Panicked) (tlv_new type_code v)"

datatype non_anonymous_origin_key = Prohibited | AnyKey | ExactKey bytes

record tith_bundle =
  bun_encoded :: bytes
  bun_origin :: identity
  bun_advertised_origin_key :: "bytes option"
  bun_destination :: identity
  bun_requested_destination_key :: "bytes option"
  bun_timestamp :: u64
  bun_header :: verified_signed_tlv
  bun_payloads :: "verified_signed_tlv list"
  bun_unknown_top_level :: "owned_tlv list"

text \<open>The free function \<open>next_defined\<close>: the value found and the index after it.\<close>

function next_defined_value :: "owned_tlv list \<Rightarrow> nat \<Rightarrow> owned_tlv option \<times> nat" where
  "next_defined_value values index =
     (case nth_opt values index of
        None \<Rightarrow> (None, index)
      | Some v \<Rightarrow>
          if is_defined (tlv_type v) then (Some v, index + 1) else next_defined_value values (index + 1))"
  by pat_completeness auto
termination
  by (relation "measure (\<lambda>(values, index). length values - index)") (auto simp: nth_opt_def split: if_splits)

declare next_defined_value.simps [simp del]

definition expect_defined ::
    "owned_tlv list \<Rightarrow> nat \<Rightarrow> u64 \<Rightarrow> string \<Rightarrow> bundle_error + owned_tlv \<times> nat" where
  "expect_defined values index type_code name =
     (case next_defined_value values index of (found, index') \<Rightarrow>
        and_then (ok_or (Missing name) (if has_type type_code found then found else None)) (\<lambda>v.
        Inr (v, index')))"

text \<open>
  The key after the Origin: the value passed on, the key a non-anonymous Origin advertises, and
  the index of what follows.
\<close>

definition origin_key ::
    "owned_tlv list \<Rightarrow> address \<Rightarrow> non_anonymous_origin_key
     \<Rightarrow> bundle_error + owned_tlv option \<times> bytes option \<times> nat" where
  "origin_key tops origin_address mode =
     (if is_anonymous origin_address then
        if has_type PUBLIC_KEY (nth_opt tops 1) then Inr (nth_opt tops 1, None, 2)
        else Inl (Missing ''Origin PublicKey'')
      else if has_type PUBLIC_KEY (nth_opt tops 1) then
        and_then (public_key_value (tops ! 1)) (\<lambda>key.
        case mode of
          Prohibited \<Rightarrow> Inl (Unexpected ''non-anonymous Origin PublicKey'')
        | AnyKey \<Rightarrow> Inr (Some (tops ! 1), Some key, 2)
        | ExactKey expected \<Rightarrow>
            if key \<noteq> expected then Inl InvalidSignature else Inr (Some (tops ! 1), Some key, 2))
      else Inr (None, None, 1))"

definition validate_header ::
    "owned_tlv list \<Rightarrow> key_resolver \<Rightarrow> bundle_error + identity \<times> bytes option \<times> u64" where
  "validate_header children resolver =
     and_then (expect_defined children 0 DESTINATION ''Destination'') (\<lambda>(destination_tlv, index).
     and_then (address_value destination_tlv) (\<lambda>a.
     and_then
       (if is_anonymous a then
          if has_type PUBLIC_KEY (nth_opt children index)
          then Inr (nth_opt children index, None, index + 1)
          else Inl (Missing ''Destination PublicKey'')
        else if has_type PUBLIC_KEY (nth_opt children index) then
          and_then (public_key_value (children ! index)) (\<lambda>key.
          Inr (Some (children ! index), Some key, index + 1))
        else Inr (None, None, index)) (\<lambda>(destination_key, requested, index').
     and_then
       (case requested of
          Some key \<Rightarrow> Inr \<lparr>id_address = a, id_key = key\<rparr>
        | None \<Rightarrow> identity_of destination_tlv destination_key resolver) (\<lambda>destination.
     and_then (expect_defined children index' TIMESTAMP ''Timestamp after Destination'')
       (\<lambda>(timestamp, index'').
     if fst (next_defined_value children index'') \<noteq> None then Inl (Unexpected ''defined Header value'')
     else
       and_then (map_err BInteger (decode_u64 (tlv_value timestamp))) (\<lambda>time.
       Inr (destination, requested, time)))))))"

text \<open>One payload: signed by or for the origin, and opening with the hash of the header.\<close>

definition parse_payload ::
    "crypto \<Rightarrow> identity \<Rightarrow> key_resolver \<Rightarrow> bytes \<Rightarrow> owned_tlv \<Rightarrow> bundle_error + verified_signed_tlv" where
  "parse_payload C origin resolver expected_hash t =
     and_then (verify_signed_tlv C t (Some origin) resolver) (\<lambda>payload.
     case ver_data payload of
       [] \<Rightarrow> Inl (Missing ''payload Header TLVHash'')
     | first # _ \<Rightarrow>
         if tlv_type first \<noteq> TLV_HASH then Inl (Missing ''initial payload Header TLVHash'')
         else if length (tlv_value first) \<noteq> 32 then Inl (WrongLength ''TLVHash'')
         else if tlv_value first \<noteq> expected_hash then Inl IncorrectHeaderHash
         else Inr payload)"

fun parse_payloads ::
    "crypto \<Rightarrow> identity \<Rightarrow> key_resolver \<Rightarrow> bytes \<Rightarrow> owned_tlv list
     \<Rightarrow> bundle_error + verified_signed_tlv list \<times> owned_tlv list" where
  "parse_payloads C origin resolver expected_hash [] = Inr ([], [])"
| "parse_payloads C origin resolver expected_hash (t # ts) =
     (if tlv_type t = SIGNED_TLV then
        and_then (parse_payload C origin resolver expected_hash t) (\<lambda>payload.
        and_then (parse_payloads C origin resolver expected_hash ts) (\<lambda>(payloads, unknown).
        Inr (payload # payloads, unknown)))
      else if is_defined (tlv_type t) then Inl (Unexpected ''defined top-level value'')
      else
        and_then (parse_payloads C origin resolver expected_hash ts) (\<lambda>(payloads, unknown).
        Inr (payloads, t # unknown)))"

definition dedicated_payload :: "u64 \<Rightarrow> verified_signed_tlv list \<Rightarrow> bool" where
  "dedicated_payload type_code payloads \<longleftrightarrow>
     (case payloads of
        [payload] \<Rightarrow> (case ver_data payload of [_, item] \<Rightarrow> tlv_type item = type_code | _ \<Rightarrow> False)
      | _ \<Rightarrow> False)"

definition contains_public_key_request :: "verified_signed_tlv list \<Rightarrow> bool" where
  "contains_public_key_request payloads \<longleftrightarrow>
     list_ex (\<lambda>payload. list_ex (\<lambda>v. tlv_type v = PUBLIC_KEY_REQUEST) (ver_data payload)) payloads"

definition parse_internal ::
    "crypto \<Rightarrow> bytes \<Rightarrow> key_resolver \<Rightarrow> non_anonymous_origin_key \<Rightarrow> bool \<Rightarrow> bundle_error + tith_bundle" where
  "parse_internal C encoded resolver mode allow_header_only =
     and_then (map_err BFraming (parse_sequence encoded)) (\<lambda>tops.
     and_then (ok_or (Missing ''Origin'') (nth_opt tops 0)) (\<lambda>origin_tlv.
     if tlv_type origin_tlv \<noteq> ORIGIN then Inl (Missing ''initial Origin'')
     else
       and_then (address_value origin_tlv) (\<lambda>origin_address.
       and_then (origin_key tops origin_address mode) (\<lambda>(origin_key_tlv, advertised, index).
       and_then
         (case advertised of
            Some key \<Rightarrow> Inr \<lparr>id_address = origin_address, id_key = key\<rparr>
          | None \<Rightarrow> identity_of origin_tlv origin_key_tlv resolver) (\<lambda>origin.
       and_then (expect_defined tops index SIGNED_TLV ''Header SignedTLV'') (\<lambda>(header_tlv, index').
       and_then (verify_signed_tlv C header_tlv (Some origin) resolver) (\<lambda>header.
       and_then (validate_header (ver_data header) resolver) (\<lambda>(destination, requested, timestamp).
       and_then (map_err BCrypto (hash_tlv C (ver_encoded header))) (\<lambda>expected_hash.
       and_then (parse_payloads C origin resolver expected_hash (drop index' tops))
         (\<lambda>(payloads, unknown).
       if (requested \<noteq> None \<or> contains_public_key_request payloads) \<and>
          \<not> (allow_header_only \<and> payloads = []) \<and>
          \<not> dedicated_payload PUBLIC_KEY_REQUEST payloads
       then Inl (Unexpected ''PublicKeyRequest outside its dedicated Bundle'')
       else Inr
         \<lparr>bun_encoded = encoded, bun_origin = origin, bun_advertised_origin_key = advertised,
          bun_destination = destination, bun_requested_destination_key = requested,
          bun_timestamp = timestamp, bun_header = header, bun_payloads = payloads,
          bun_unknown_top_level =
            filter (\<lambda>v. \<not> is_defined (tlv_type v)) (take (index' - 1 - 1) (drop 1 tops)) @ unknown\<rparr>))))))))))"

definition bundle_parse :: "crypto \<Rightarrow> bytes \<Rightarrow> key_resolver \<Rightarrow> bundle_error + tith_bundle" where
  "bundle_parse C encoded resolver = parse_internal C encoded resolver Prohibited False"

definition parse_header_prefix :: "crypto \<Rightarrow> bytes \<Rightarrow> key_resolver \<Rightarrow> bundle_error + tith_bundle" where
  "parse_header_prefix C encoded resolver = parse_internal C encoded resolver Prohibited True"

definition parse_public_key_reply ::
    "crypto \<Rightarrow> bytes \<Rightarrow> key_resolver \<Rightarrow> bytes option \<Rightarrow> bundle_error + tith_bundle" where
  "parse_public_key_reply C encoded resolver expected =
     (let mode = (case expected of None \<Rightarrow> AnyKey | Some key \<Rightarrow> ExactKey key) in
      and_then (parse_internal C encoded resolver mode False) (\<lambda>b.
      if bun_advertised_origin_key b = None \<or> \<not> dedicated_payload ACCEPTED (bun_payloads b)
      then Inl (Unexpected ''PublicKeyRequest reply grammar'')
      else
        and_then (validate_item C (ver_data (hd (bun_payloads b)) ! 1) resolver) (\<lambda>item.
        and_then (ok_or (Unexpected ''PublicKeyRequest Accepted'') item) (\<lambda>acc.
        and_then (ok_or (Missing ''Accepted current PublicKey'') (vi_response_public_key acc)) (\<lambda>current.
        if expected = None \<and> bun_advertised_origin_key b \<noteq> Some current then Inl InvalidSignature
        else Inr b)))))"

definition bundle_public_key_request :: "crypto \<Rightarrow> tith_bundle \<Rightarrow> bundle_error + (u64 \<times> bytes) option" where
  "bundle_public_key_request C b =
     (if \<not> dedicated_payload PUBLIC_KEY_REQUEST (bun_payloads b) then Inr None
      else
        and_then (validate_public_key_request (ver_data (hd (bun_payloads b)) ! 1)) (\<lambda>item.
        and_then (map_err BCrypto (hash_tlv C (ver_encoded (hd (bun_payloads b))))) (\<lambda>h.
        Inr (Some (vi_request_identifier item, h)))))"

section \<open>Building\<close>

text \<open>The Origin of a bundle; its key follows when it is anonymous, or always in a probe reply.\<close>

definition bundle_origin_values :: "bool \<Rightarrow> identity \<Rightarrow> bundle_error + owned_tlv list" where
  "bundle_origin_values always who =
     and_then (assigned ORIGIN (address_to_string (id_address who))) (\<lambda>a.
     if always \<or> is_anonymous (id_address who)
     then and_then (assigned PUBLIC_KEY (id_key who)) (\<lambda>k. Inr [a, k])
     else Inr [a])"

definition header_values :: "address \<Rightarrow> bytes option \<Rightarrow> u64 \<Rightarrow> bundle_error + owned_tlv list" where
  "header_values destination key timestamp =
     and_then (assigned DESTINATION (address_to_string destination)) (\<lambda>d.
     and_then (map_transpose (assigned PUBLIC_KEY) key) (\<lambda>k.
     and_then (assigned TIMESTAMP (encode_u64 timestamp)) (\<lambda>t.
     Inr (d # list_of_option k @ [t]))))"

definition destination_key :: "identity \<Rightarrow> bytes option" where
  "destination_key who = (if is_anonymous (id_address who) then Some (id_key who) else None)"

text \<open>The common tail of the four builders: sign the header, hash it, sign each payload.\<close>

definition signed_bundle ::
    "crypto \<Rightarrow> owned_tlv list \<Rightarrow> owned_tlv list \<Rightarrow> bytes \<Rightarrow> (bundle_error + owned_tlv list) list
     \<Rightarrow> bundle_error + bytes" where
  "signed_bundle C origin_values header_data secret payload_groups =
     and_then (build_signed_tlv C header_data None secret) (\<lambda>header.
     and_then (map_err (\<lambda>_. Panicked) (tlv_encode header)) (\<lambda>encoded.
     and_then (map_err BCrypto (hash_tlv C encoded)) (\<lambda>header_hash.
     and_then
       (try_map (\<lambda>group.
          and_then (assigned TLV_HASH header_hash) (\<lambda>h.
          and_then group (\<lambda>payload.
          build_signed_tlv C (h # payload) None secret))) payload_groups) (\<lambda>payloads.
     concatenate (origin_values @ header # payloads)))))"

definition build_bundle ::
    "crypto \<Rightarrow> identity \<Rightarrow> bytes \<Rightarrow> identity \<Rightarrow> u64 \<Rightarrow> owned_tlv list list \<Rightarrow> bundle_error + bytes" where
  "build_bundle C origin origin_secret destination timestamp payload_groups =
     and_then (bundle_origin_values False origin) (\<lambda>origin_values.
     and_then (header_values (id_address destination) (destination_key destination) timestamp)
       (\<lambda>header_data.
     signed_bundle C origin_values header_data origin_secret (map Inr payload_groups)))"

definition build_public_key_probe ::
    "crypto \<Rightarrow> identity \<Rightarrow> bytes \<Rightarrow> address \<Rightarrow> bytes option \<Rightarrow> u64 \<Rightarrow> u64 \<Rightarrow> bundle_error + bytes" where
  "build_public_key_probe C origin origin_secret destination requested_key timestamp identifier =
     (if is_anonymous destination
      then Inl (Unexpected ''PublicKeyRequest for an anonymous Destination'')
      else
        and_then (bundle_origin_values False origin) (\<lambda>origin_values.
        and_then (header_values destination requested_key timestamp) (\<lambda>header_data.
        signed_bundle C origin_values header_data origin_secret
          [and_then (public_key_request identifier) (\<lambda>request. Inr [request])])))"

definition build_public_key_reply ::
    "crypto \<Rightarrow> identity \<Rightarrow> bytes \<Rightarrow> identity \<Rightarrow> u64 \<Rightarrow> u64 \<Rightarrow> bytes \<Rightarrow> bytes \<Rightarrow> bundle_error + bytes" where
  "build_public_key_reply C signing_origin signing_secret destination timestamp identifier
       response_to current_key =
     and_then (bundle_origin_values True signing_origin) (\<lambda>origin_values.
     and_then (header_values (id_address destination) (destination_key destination) timestamp)
       (\<lambda>header_data.
     signed_bundle C origin_values header_data signing_secret
       [and_then (accepted_public_key identifier response_to current_key) (\<lambda>a. Inr [a])]))"

definition build_public_key_unavailable_reply ::
    "crypto \<Rightarrow> identity \<Rightarrow> bytes \<Rightarrow> identity \<Rightarrow> u64 \<Rightarrow> u64 \<Rightarrow> bytes \<Rightarrow> bundle_error + bytes" where
  "build_public_key_unavailable_reply C current_origin current_secret destination timestamp
       identifier response_to =
     and_then (bundle_origin_values True current_origin) (\<lambda>origin_values.
     and_then (header_values (id_address destination) (destination_key destination) timestamp)
       (\<lambda>header_data.
     signed_bundle C origin_values header_data current_secret
       [map_err (\<lambda>_. Panicked)
          (and_then (rejected identifier response_to None Permanent
             (lit ''requested predecessor private key is unavailable'')) (\<lambda>r. Inr [r]))]))"

end
