(* ===== verification/Receive.thy ===== *)
theory Receive
  imports Bundle
begin

text \<open>
  The receive policy of an exchange: \<open>error.rs\<close> and \<open>receive.rs\<close> of
  \<open>crates/tith-exchange/src\<close>.  A payload is authenticated, its request identifiers are checked
  before anything is acted on, and each item becomes a valid request, a request to refuse, or a
  response.
\<close>

datatype exchange_error =
    ECrypto crypto_error
  | EPayload payload_error
  | EBundle bundle_error
  | WrongDestination
  | WrongReplyOrigin
  | WrongReplyDestination
  | UnexpectedResponse
  | UnexpectedRequest
  | DuplicateResponse
  | DuplicateRequestIdentifier
  | InvalidRequestIdentifier
  | InvalidResponse
  | UnauthenticatedResponse
  | UnexpectedPayloadValue
  | IncompleteResponse nat nat
  | EIo io_error
  | EPanicked

text \<open>\<open>EPanicked\<close> is no constructor of the source: it stands for a panic of \<open>expect\<close>.\<close>

datatype received_request = ValidRequest validated_item | DataError u64

record received_payload =
  rp_response_to :: bytes
  rp_requests :: "received_request list"
  rp_responses :: "validated_item list"
  rp_close_after_reply :: bool

text \<open>The values after the header hash, or all of them when it is missing.\<close>

definition request_values :: "owned_tlv list \<Rightarrow> owned_tlv list" where
  "request_values data = (if has_type TLV_HASH (nth_opt data 0) then drop 1 data else data)"

fun preflight :: "u64 set \<Rightarrow> owned_tlv list \<Rightarrow> exchange_error + unit" where
  "preflight identifiers [] = Inr ()"
| "preflight identifiers (item # items) =
     (if is_request (tlv_type item) then
        and_then (ok_or InvalidRequestIdentifier (request_identifier item)) (\<lambda>identifier.
        if identifier \<in> identifiers then Inl DuplicateRequestIdentifier
        else preflight (insert identifier identifiers) items)
      else preflight identifiers items)"

definition data_error :: "owned_tlv \<Rightarrow> exchange_error + received_request" where
  "data_error item = and_then (ok_or EPanicked (request_identifier item)) (\<lambda>i. Inr (DataError i))"

definition refuse_all ::
    "bytes \<Rightarrow> owned_tlv list \<Rightarrow> bool \<Rightarrow> exchange_error + received_payload" where
  "refuse_all response_to items close =
     and_then (try_map data_error (filter (\<lambda>item. is_request (tlv_type item)) items)) (\<lambda>requests.
     Inr \<lparr>rp_response_to = response_to, rp_requests = requests, rp_responses = [],
          rp_close_after_reply = close\<rparr>)"

fun receive_items ::
    "crypto \<Rightarrow> key_resolver \<Rightarrow> owned_tlv list \<Rightarrow> exchange_error + received_request list \<times> validated_item list" where
  "receive_items C resolver [] = Inr ([], [])"
| "receive_items C resolver (item # items) =
     (if is_request (tlv_type item) then
        and_then
          (case validate_item C item resolver of
             Inr None \<Rightarrow> Inr []
           | Inr (Some validated) \<Rightarrow> Inr [ValidRequest validated]
           | Inl _ \<Rightarrow> and_then (data_error item) (\<lambda>r. Inr [r])) (\<lambda>new.
        and_then (receive_items C resolver items) (\<lambda>(requests, responses).
        Inr (new @ requests, responses)))
      else if tlv_type item = ACCEPTED \<or> tlv_type item = REJECTED then
        and_then (map_err EBundle (validate_item C item resolver)) (\<lambda>new.
        and_then (receive_items C resolver items) (\<lambda>(requests, responses).
        Inr (requests, list_of_option new @ responses)))
      else if is_defined (tlv_type item) then Inl UnexpectedPayloadValue
      else receive_items C resolver items)"

definition authenticate_payload ::
    "crypto \<Rightarrow> owned_tlv \<Rightarrow> identity \<Rightarrow> key_resolver \<Rightarrow> exchange_error + owned_tlv list \<times> bool" where
  "authenticate_payload C t origin resolver =
     (case verify_signed_tlv C t (Some origin) resolver of
        Inr payload \<Rightarrow> Inr (ver_data payload, True)
      | Inl e \<Rightarrow>
          if e = InvalidSignature
          then and_then (map_err EBundle (unauthenticated_signed_data t)) (\<lambda>data. Inr (data, False))
          else Inl (EBundle e))"

definition receive_payload ::
    "crypto \<Rightarrow> owned_tlv \<Rightarrow> identity \<Rightarrow> bytes \<Rightarrow> key_resolver \<Rightarrow> exchange_error + received_payload" where
  "receive_payload C t origin header_hash resolver =
     and_then (map_err (\<lambda>_. EPanicked) (tlv_encode t)) (\<lambda>encoded.
     and_then (map_err ECrypto (hash_tlv C encoded)) (\<lambda>response_to.
     and_then (authenticate_payload C t origin resolver) (\<lambda>(data, authenticated).
     let items = request_values data in
     and_then (preflight {} items) (\<lambda>_.
     if \<not> authenticated then
       if list_ex (\<lambda>item. tlv_type item = ACCEPTED \<or> tlv_type item = REJECTED) items
       then Inl UnauthenticatedResponse
       else refuse_all response_to items False
     else if \<not> (has_type TLV_HASH (nth_opt data 0) \<and> tlv_value (data ! 0) = header_hash)
     then refuse_all response_to items True
     else
       and_then (receive_items C resolver items) (\<lambda>(requests, responses).
       Inr \<lparr>rp_response_to = response_to, rp_requests = requests, rp_responses = responses,
            rp_close_after_reply = False\<rparr>)))))"

end
