(* ===== verification/Item_Roundtrip.thy ===== *)
theory Item_Roundtrip
  imports Carrier
begin

text \<open>
  What the item builders write, the item readers read back: the round trips between
  \<open>build_\<dots>\<close>, \<open>accepted\<close>, \<open>rejected\<close> and the validators and readers of
  \<open>item_format_impl.rs\<close> and \<open>item_carrier.rs\<close>.
\<close>

section \<open>Reading one value\<close>

named_theorems runs_rules \<open>evaluation of readers over a known list of children\<close>

declare runs_return [runs_rules] runs_finish [runs_rules] runs_take [runs_rules] runs_lift [runs_rules]

abbreviation types_of :: "owned_tlv list \<Rightarrow> u64 set" where
  "types_of ts \<equiv> tlv_type ` set ts"

lemma assigned_tlv_sel [simp]:
  "tlv_type (assigned_tlv ty v) = ty" "tlv_value (assigned_tlv ty v) = v"
  by (simp_all add: assigned_tlv_def)

lemma head_type_notin: "ty \<notin> types_of rest \<Longrightarrow> head_type rest \<noteq> Some ty"
  by (cases rest) (auto simp: head_type_def)

lemma set_opt_tlv [simp]: "types_of (opt_tlv ty v) = (if v = None then {} else {ty})"
  by (auto simp: opt_tlv_def split: option.splits)

lemma all_opt_tlv [simp]: "list_all P (opt_tlv ty v) \<longleftrightarrow> (\<forall>b. v = Some b \<longrightarrow> P (assigned_tlv ty b))"
  by (auto simp: opt_tlv_def split: option.splits)

lemma all_defined_types: "all_defined ts \<longleftrightarrow> (\<forall>ty \<in> types_of ts. is_defined ty)"
  by (auto simp: list_all_iff)

lemma runs_opt_tlv [runs_rules]:
  assumes "is_defined ty" and "all_defined rest" and "ty \<notin> types_of rest"
  shows "runs vs (copt ty) (opt_tlv ty v @ rest) (map_option (assigned_tlv ty) v) rest"
proof (cases v)
  case None
  then show ?thesis
    using runs_opt_miss [OF assms(2) head_type_notin [OF assms(3)]] by (simp add: opt_tlv_def)
next
  case (Some b)
  then show ?thesis using runs_opt_hit [of "assigned_tlv ty b" ty] assms(1) by (simp add: opt_tlv_def)
qed

lemma tlv_text_assigned: "valid_utf8 v \<Longrightarrow> tlv_text (assigned_tlv ty v) = Inr v"
  by (simp add: tlv_text_def from_utf8_def)

lemma value_u64_assigned [simp]: "value_u64 (assigned_tlv ty (encode_u64 n)) = Inr n"
  by (simp add: value_u64_def)

lemma value_i64_assigned: "i64_range n \<Longrightarrow> value_i64 (assigned_tlv ty (encode_i64 n)) = Inr n"
  by (simp add: value_i64_def decode_encode_i64)

lemma runs_take_text [runs_rules]:
  "is_defined ty \<Longrightarrow> valid_utf8 v \<Longrightarrow> runs vs (ctake_text ty name) (assigned_tlv ty v # rest) v rest"
  unfolding ctake_text_def
  by (rule runs_bind [OF runs_take]) (auto intro: runs_lift simp: tlv_text_assigned)

lemma runs_take_u64 [runs_rules]:
  "is_defined ty \<Longrightarrow> runs vs (ctake_u64 ty name) (assigned_tlv ty (encode_u64 n) # rest) n rest"
  unfolding ctake_u64_def by (rule runs_bind [OF runs_take]) (auto intro: runs_lift)

lemma map_transpose_map:
  "(\<And>x. v = Some x \<Longrightarrow> f (g x) = Inr x) \<Longrightarrow> map_transpose f (map_option g v) = Inr v"
  by (cases v) auto

lemma map_transpose_u64 [runs_rules]:
  "map_transpose value_u64 (map_option (assigned_tlv ty) (map_option encode_u64 v)) = Inr v"
  by (cases v) simp_all

lemma file_name_rule_ok [runs_rules]:
  "valid_utf8 v \<Longrightarrow> \<not> filename_has_path_component v \<Longrightarrow> file_name_rule (assigned_tlv ty v) = Inr ()"
  by (simp add: file_name_rule_def tlv_text_assigned)

lemma runs_opt_text [runs_rules]:
  assumes "is_defined ty" and "all_defined rest" and "ty \<notin> types_of rest"
    and "\<And>s. v = Some s \<Longrightarrow> valid_utf8 s"
  shows "runs vs (copt_text ty) (opt_tlv ty v @ rest) v rest"
  unfolding copt_text_def
  by (rule runs_bind [OF runs_opt_tlv [OF assms(1-3)]], rule runs_lift, rule map_transpose_map)
    (simp add: tlv_text_assigned assms(4))

lemma runs_opt_u64 [runs_rules]:
  assumes "is_defined ty" and "all_defined rest" and "ty \<notin> types_of rest"
  shows "runs vs (copt_u64 ty) (opt_tlv ty (map_option encode_u64 v) @ rest) v rest"
  unfolding copt_u64_def
  by (rule runs_bind [OF runs_opt_tlv [OF assms]], rule runs_lift) (cases v; simp)

text \<open>A value whose children are well formed and whose reader runs to the end is read.\<close>

lemma wf_assigned: "ty \<noteq> 0 \<Longrightarrow> length v < vec_limit \<Longrightarrow> wf_tlv (assigned_tlv ty v)"
  by (auto simp: wf_tlv_def dest: vec_limit_less)

lemma wf_assigned_u64: "ty \<noteq> 0 \<Longrightarrow> wf_tlv (assigned_tlv ty (encode_u64 n))"
  using encode_u64_length [of n] by (intro wf_assigned) (simp_all add: vec_limit_def)

lemma wf_opt_tlv: "ty \<noteq> 0 \<Longrightarrow> (\<And>b. v = Some b \<Longrightarrow> length b < vec_limit) \<Longrightarrow> list_all wf_tlv (opt_tlv ty v)"
  by (auto simp: opt_tlv_def wf_assigned split: option.splits)

lemma wf_opt_u64: "ty \<noteq> 0 \<Longrightarrow> list_all wf_tlv (opt_tlv ty (map_option encode_u64 v))"
  using wf_assigned_u64 [of ty] by (cases v) (simp_all add: opt_tlv_def)

lemma wf_types: "list_all wf_tlv ts \<Longrightarrow> list_all (\<lambda>t. tlv_type t \<noteq> 0) ts"
  by (auto simp: list_all_iff wf_tlv_def)

lemma children_of_built: "list_all wf_tlv ts \<Longrightarrow> children_of (assigned_tlv ty (seq_bytes ts)) = Inr ts"
  by (simp add: children_of_def parse_sequence_bytes)

lemma concatenate_wf: "list_all wf_tlv ts \<Longrightarrow> concatenate ts = Inr (seq_bytes ts)"
  by (simp add: concatenate_eq wf_types)

lemma encoded_prefix_wf:
  "list_all wf_tlv ts \<Longrightarrow> n = length ts \<Longrightarrow> encoded_prefix ts n = Inr (seq_bytes ts)"
  by (simp add: encoded_prefix_def concatenate_wf)

lemmas defined_codes = is_defined_def bundle_is_defined_def

section \<open>File requests\<close>

text \<open>
  A FileRequest round-trips: for a portable name that is a Rust string, what
  \<open>build_file_request\<close> builds is read back by \<open>read_file_request\<close> with its name, its optional
  timestamp and its identifier, and \<open>validate_item\<close> accepts it as a FileRequest authenticated by
  its transport.
\<close>

theorem file_request_roundtrip:
  assumes "valid_utf8 filename" and "length filename < vec_limit"
    and "build_file_request filename newer_than identifier = Inr t"
  shows "read_file_request t =
      Inr \<lparr>rq_filename = filename, rq_timestamp = newer_than, rq_request_identifier = identifier\<rparr> \<and>
    validate_item C t resolver =
      Inr (Some ((plain_item FileRequest identifier t)\<lparr>vi_authentication := Some Transport\<rparr>))"
proof -
  let ?ts = "assigned_tlv FILENAME filename # opt_tlv TIMESTAMP (map_option encode_u64 newer_than)
    @ [assigned_tlv REQUEST_IDENTIFIER (encode_u64 identifier)]"
  have wf: "list_all wf_tlv ?ts"
    using assms(2) wf_opt_u64 [of TIMESTAMP newer_than] by (simp add: wf_assigned wf_assigned_u64)
  have t: "t = assigned_tlv FILE_REQUEST (seq_bytes ?ts)"
    and no_path: "\<not> filename_has_path_component filename"
    using assms(3) wf
    by (auto simp: build_file_request_def result_simps concatenate_wf validate_produced_filename_def
        split: if_splits)
  note parsed = children_of_built [OF wf, of FILE_REQUEST, folded t]
  have ty: "tlv_type t = FILE_REQUEST" by (simp only: t assigned_tlv_sel)
  have "read_file_request t =
      Inr \<lparr>rq_filename = filename, rq_timestamp = newer_than, rq_request_identifier = identifier\<rparr>"
    by (simp only: read_file_request_def parsed and_then.simps ty simp_thms if_False)
      (rule run_step_runs, ((rule runs_bind runs_rules) | (simp add: defined_codes assms(1); fail))+)
  moreover have "validate_file_request t =
      Inr ((plain_item FileRequest identifier t)\<lparr>vi_authentication := Some Transport\<rparr>)"
    by (simp only: validate_file_request_def parsed and_then.simps plain_item_def validated_item.simps)
      (rule run_step_runs, ((rule runs_bind runs_rules) | (simp add: defined_codes assms(1) no_path; fail))+)
  ultimately show ?thesis by (simp add: validate_item_def ty)
qed

section \<open>Requests and responses\<close>

lemma carrier_value_eq: "ty \<noteq> 0 \<Longrightarrow> carrier_value ty v = Inr (assigned_tlv ty v)"
  by (simp add: carrier_value_def tlv_new_def assigned_tlv_def tlv_header_new_def require_defined_type_def)

lemma push_carrier_eq: "ty \<noteq> 0 \<Longrightarrow> push_carrier ty v out = Inr (out @ seq_bytes [assigned_tlv ty v])"
  by (simp add: push_carrier_def carrier_value_eq tlv_write_to_eq)

lemma hash_value_ok [runs_rules]: "length h = 32 \<Longrightarrow> hash_value name (assigned_tlv ty h) = Inr h"
  by (simp add: hash_value_def)

lemma parse_public_key_ok: "length k = 32 \<Longrightarrow> parse_public_key (assigned_tlv ty k) = Inr k"
  by (simp add: parse_public_key_def)

lemma optional_key_ok [runs_rules]:
  "(\<And>k. key = Some k \<Longrightarrow> length k = 32) \<Longrightarrow>
   map_transpose parse_public_key (map_option (assigned_tlv ty) key) = Inr key"
  by (rule map_transpose_map) (simp add: parse_public_key_ok)

text \<open>The value of an Accepted with its optional key, and of a Rejected.\<close>

definition accepted_children :: "u64 \<Rightarrow> bytes \<Rightarrow> bytes option \<Rightarrow> owned_tlv list" where
  "accepted_children identifier hash key =
     assigned_tlv REQUEST_IDENTIFIER (encode_u64 identifier) # assigned_tlv TLV_HASH hash #
     opt_tlv PUBLIC_KEY key @ []"

definition rejected_children ::
    "u64 \<Rightarrow> bytes \<Rightarrow> u64 option \<Rightarrow> rejection_reason \<Rightarrow> str \<Rightarrow> owned_tlv list" where
  "rejected_children identifier hash timestamp reason description =
     assigned_tlv REQUEST_IDENTIFIER (encode_u64 identifier) # assigned_tlv TLV_HASH hash #
     opt_tlv TIMESTAMP (map_option encode_u64 timestamp) @
     assigned_tlv REJECTION_REASON (encode_u64 (rejection_code reason)) #
     opt_tlv REJECTION_DESCRIPTION (if description = [] then None else Some description) @ []"

lemma accepted_eq:
  assumes "length hash = 32"
  shows "accepted identifier hash = Inr (assigned_tlv ACCEPTED (seq_bytes (accepted_children identifier hash None)))"
  using assms encoded_prefix_wf [of "accepted_children identifier hash None" 2]
  by (simp add: accepted_def carrier_value_eq accepted_children_def opt_tlv_def wf_assigned_u64 wf_assigned
      vec_limit_def)

lemma accepted_public_key_eq:
  assumes "length hash = 32" and "length key = 32"
  shows "accepted_public_key identifier hash key =
    Inr (assigned_tlv ACCEPTED (seq_bytes (accepted_children identifier hash (Some key))))"
  using assms encoded_prefix_wf [of "accepted_children identifier hash (Some key)" 3]
  by (simp add: accepted_public_key_def carrier_value_eq accepted_children_def opt_tlv_def wf_assigned_u64
      wf_assigned vec_limit_def)

lemma rejected_eq:
  assumes "timestamp \<noteq> None \<longrightarrow> reason = Temporary"
  shows "rejected identifier hash timestamp reason description =
    Inr (assigned_tlv REJECTED (seq_bytes (rejected_children identifier hash timestamp reason description)))"
  using assms
  by (cases timestamp) (auto simp: rejected_def push_carrier_eq carrier_value_eq rejected_children_def opt_tlv_def)

lemma validate_accepted_built:
  assumes "length hash = 32" and "\<And>k. key = Some k \<Longrightarrow> length k = 32"
    and "t = assigned_tlv ACCEPTED (seq_bytes (accepted_children identifier hash key))"
  shows "validate_accepted t =
    Inr ((plain_item Accepted identifier t)\<lparr>vi_response_to := Some hash, vi_response_public_key := key\<rparr>)"
proof -
  have wf: "list_all wf_tlv (accepted_children identifier hash key)"
    using assms(1,2) by (simp add: accepted_children_def wf_assigned_u64 wf_assigned wf_opt_tlv vec_limit_def)
  note parsed = children_of_built [OF wf, of ACCEPTED, folded assms(3)]
  show ?thesis
    by (simp only: validate_accepted_def parsed and_then.simps accepted_children_def)
      (rule run_step_runs, ((rule runs_bind runs_rules) | (simp add: defined_codes assms(1,2); fail))+)
qed

lemma rejection_code_roundtrip: "rejection_from_code (rejection_code r) = Some r"
  by (cases r) (simp_all add: rejection_from_code_def)

lemma rejection_reason_ok [runs_rules]: "ok_or e (rejection_from_code (rejection_code r)) = Inr r"
  by (simp add: rejection_code_roundtrip)

lemma validate_rejected_built:
  assumes "length hash = 32" and "timestamp \<noteq> None \<longrightarrow> reason = Temporary"
    and "valid_utf8 description" and "length description < vec_limit"
    and "t = assigned_tlv REJECTED (seq_bytes (rejected_children identifier hash timestamp reason description))"
  shows "validate_rejected t =
    Inr ((plain_item Rejected identifier t)\<lparr>vi_response_to := Some hash,
      vi_rejection := Some \<lparr>rej_reason = reason, rej_retry_after = timestamp, rej_description = description\<rparr>\<rparr>)"
proof -
  have wf: "list_all wf_tlv (rejected_children identifier hash timestamp reason description)"
    using assms(1,4) wf_opt_u64 [of TIMESTAMP timestamp]
    by (simp add: rejected_children_def wf_assigned_u64 wf_assigned opt_tlv_def vec_limit_def)
  note parsed = children_of_built [OF wf, of REJECTED, folded assms(5)]
  have rule: "(if timestamp \<noteq> None \<and> reason \<noteq> Temporary
      then Inl (Unexpected ''Rejected Timestamp for non-temporary reason'') else Inr ()) = Inr ()"
    using assms(2) by auto
  have desc: "(if (if description = [] then None else Some description) = Some []
      then Inl (Unexpected ''empty RejectionDescription'')
      else Inr (case if description = [] then None else Some description of Some d \<Rightarrow> d | None \<Rightarrow> []))
    = Inr description" by simp
  show ?thesis
    by (simp only: validate_rejected_def parsed and_then.simps rejected_children_def)
      (rule run_step_runs,
       ((rule runs_bind runs_rules rule desc) |
        (auto simp: defined_codes assms(1,3) split: if_splits; fail))+)
qed

lemma simple_request_built:
  assumes "t = assigned_tlv ty (seq_bytes [assigned_tlv REQUEST_IDENTIFIER (encode_u64 identifier)])"
  shows "simple_request t kind = Inr (plain_item kind identifier t)"
proof -
  have wf: "list_all wf_tlv [assigned_tlv REQUEST_IDENTIFIER (encode_u64 identifier)]"
    by (simp add: wf_assigned_u64)
  note parsed = children_of_built [OF wf, of ty, folded assms]
  show ?thesis
    by (simp only: simple_request_def parsed and_then.simps)
      (rule run_step_runs, ((rule runs_bind runs_rules) | (simp add: defined_codes; fail))+)
qed

lemma public_key_request_eq:
  "public_key_request identifier =
     Inr (assigned_tlv PUBLIC_KEY_REQUEST (seq_bytes [assigned_tlv REQUEST_IDENTIFIER (encode_u64 identifier)]))"
  by (simp add: public_key_request_def carrier_value_eq tlv_encode_eq)

text \<open>
  Responses and key requests round-trip.  For 32-byte hashes and keys, an Accepted, an Accepted
  carrying a key, a PublicKeyRequest and a Rejected with a retry time (allowed with the temporary
  reason only) and a description are all built, and \<open>validate_item\<close> reads from each exactly what was
  put in, with the value itself as the raw item.
\<close>

theorem response_roundtrip:
  assumes "length hash = 32" and "length key = 32"
    and "timestamp \<noteq> None \<longrightarrow> reason = Temporary"
    and "valid_utf8 description" and "length description < vec_limit"
  shows "(\<exists>t. accepted identifier hash = Inr t \<and> validate_item C t resolver =
      Inr (Some ((plain_item Accepted identifier t)\<lparr>vi_response_to := Some hash\<rparr>))) \<and>
    (\<exists>t. accepted_public_key identifier hash key = Inr t \<and> validate_item C t resolver =
      Inr (Some ((plain_item Accepted identifier t)
        \<lparr>vi_response_to := Some hash, vi_response_public_key := Some key\<rparr>))) \<and>
    (\<exists>t. public_key_request identifier = Inr t \<and> validate_item C t resolver =
      Inr (Some (plain_item PublicKeyRequest identifier t))) \<and>
    (\<exists>t. rejected identifier hash timestamp reason description = Inr t \<and> validate_item C t resolver =
      Inr (Some ((plain_item Rejected identifier t)
        \<lparr>vi_response_to := Some hash, vi_rejection := Some \<lparr>rej_reason = reason,
           rej_retry_after = timestamp, rej_description = description\<rparr>\<rparr>)))"
proof (intro conjI)
  show "\<exists>t. accepted identifier hash = Inr t \<and> validate_item C t resolver =
      Inr (Some ((plain_item Accepted identifier t)\<lparr>vi_response_to := Some hash\<rparr>))"
    using accepted_eq [OF assms(1)] validate_accepted_built [OF assms(1) _ refl, of None]
    by (simp add: validate_item_def validate_response_def plain_item_def)
  show "\<exists>t. accepted_public_key identifier hash key = Inr t \<and> validate_item C t resolver =
      Inr (Some ((plain_item Accepted identifier t)
        \<lparr>vi_response_to := Some hash, vi_response_public_key := Some key\<rparr>))"
    using accepted_public_key_eq [OF assms(1,2)] validate_accepted_built [OF assms(1) _ refl, of "Some key"] assms(2)
    by (simp add: validate_item_def validate_response_def)
  show "\<exists>t. public_key_request identifier = Inr t \<and> validate_item C t resolver =
      Inr (Some (plain_item PublicKeyRequest identifier t))"
    using simple_request_built [OF refl] public_key_request_eq
    by (simp add: validate_item_def validate_public_key_request_def)
  show "\<exists>t. rejected identifier hash timestamp reason description = Inr t \<and> validate_item C t resolver =
      Inr (Some ((plain_item Rejected identifier t)
        \<lparr>vi_response_to := Some hash, vi_rejection := Some \<lparr>rej_reason = reason,
           rej_retry_after = timestamp, rej_description = description\<rparr>\<rparr>))"
    using rejected_eq [OF assms(3)] validate_rejected_built [OF assms(1,3,4,5) refl]
    by (simp add: validate_item_def validate_response_def)
qed

text \<open>A temporary rejection with a retry time, and the other three, for a zero hash and key.\<close>

theorem response_roundtrip_witness:
  "\<exists>t. rejected 7 (replicate 32 0) (Some 100) Temporary (lit ''busy'') = Inr t \<and>
     validate_item sample_crypto t sample_resolver =
      Inr (Some ((plain_item Rejected 7 t)
        \<lparr>vi_response_to := Some (replicate 32 0), vi_rejection := Some \<lparr>rej_reason = Temporary,
           rej_retry_after = Some 100, rej_description = lit ''busy''\<rparr>\<rparr>))"
proof -
  have "valid_utf8 (lit ''busy'')" by code_simp
  moreover have "length (lit ''busy'') < vec_limit" by (simp add: vec_limit_def)
  ultimately show ?thesis
    using response_roundtrip [of "replicate 32 0" "replicate 32 0" "Some 100" Temporary "lit ''busy''" 7
        sample_crypto sample_resolver] by simp
qed

text \<open>A request for a file newer than a given time.\<close>

theorem file_request_roundtrip_witness:
  "\<exists>t. build_file_request (lit ''a.zip'') (Some 9) 4 = Inr t \<and>
     read_file_request t =
       Inr \<lparr>rq_filename = lit ''a.zip'', rq_timestamp = Some 9, rq_request_identifier = 4\<rparr>"
proof -
  have v: "valid_utf8 (lit ''a.zip'')" by code_simp
  have l: "length (lit ''a.zip'') < vec_limit" by (simp add: vec_limit_def)
  have "\<not> isl (build_file_request (lit ''a.zip'') (Some 9) 4)" by code_simp
  then obtain t where t: "build_file_request (lit ''a.zip'') (Some 9) 4 = Inr t" using not_isl by blast
  from file_request_roundtrip [OF v l t] t show ?thesis by blast
qed

end
