(* ===== verification/Response.thy ===== *)
theory Response
  imports Receive Item_Roundtrip "HOL-Library.Sublist" "HOL-Library.Multiset"
begin

text \<open>
  Request accounting and reply construction: \<open>crates/tith-exchange/src/response.rs\<close>.

  A \<open>ResponseTracker\<close> keeps the requests of a sent bundle in order and the responses received for
  them.  Its contract is the abstract account \<open>m\<close>, a partial map from the key of a request (hash of
  the payload that carried it, request identifier) to the answer: the list of completed responses
  is at every moment \<open>account m\<close> of the outstanding requests, the answered ones in request order.
\<close>

section \<open>The tracker\<close>

datatype request_kind_value =
    RMessage | RFile | RFileRequest | RPollMessages | RPollFiles | RPollFileRequests | RPublicKeyRequest

definition kind_requires_return_bundle :: "request_kind_value \<Rightarrow> bool" where
  "kind_requires_return_bundle k \<longleftrightarrow>
     k \<in> {RFileRequest, RPollMessages, RPollFiles, RPollFileRequests}"

record outstanding_request =
  out_signed_tlv_hash :: bytes
  out_request_identifier :: u64
  out_kind :: request_kind_value

datatype response_kind = RAccepted | RRejected

record completed_response =
  com_request :: outstanding_request
  com_response :: response_kind
  com_rejection :: "rejection option"

fun request_kind_of :: "item_kind \<Rightarrow> request_kind_value option" where
  "request_kind_of NetMail = Some RMessage"
| "request_kind_of EchoMail = Some RMessage"
| "request_kind_of FileItem = Some RFile"
| "request_kind_of FileRequest = Some RFileRequest"
| "request_kind_of PollMessages = Some RPollMessages"
| "request_kind_of PollFiles = Some RPollFiles"
| "request_kind_of PollFileRequests = Some RPollFileRequests"
| "request_kind_of PublicKeyRequest = Some RPublicKeyRequest"
| "request_kind_of Accepted = None"
| "request_kind_of Rejected = None"

definition request_kind :: "validated_item \<Rightarrow> request_kind_value option" where
  "request_kind item = request_kind_of (vi_kind item)"

record response_tracker =
  trk_origin :: identity
  trk_destination :: identity
  trk_outstanding :: "outstanding_request list"
  trk_completed :: "completed_response list"

text \<open>The requests of one validated payload, and of all payloads of a bundle in order.\<close>

definition payload_requests :: "bytes \<Rightarrow> validated_item list \<Rightarrow> outstanding_request list" where
  "payload_requests hash items =
     List.map_filter (\<lambda>item. map_option (\<lambda>kind.
       \<lparr>out_signed_tlv_hash = hash, out_request_identifier = vi_request_identifier item,
        out_kind = kind\<rparr>) (request_kind item)) items"

fun bundle_requests ::
    "crypto \<Rightarrow> key_resolver \<Rightarrow> verified_signed_tlv list \<Rightarrow> exchange_error + outstanding_request list" where
  "bundle_requests C resolver [] = Inr []"
| "bundle_requests C resolver (payload # payloads) =
     and_then (map_err ECrypto (hash_tlv C (ver_encoded payload))) (\<lambda>hash.
     and_then (map_err EPayload (validate_payload C payload resolver)) (\<lambda>items.
     and_then (bundle_requests C resolver payloads) (\<lambda>rest.
     Inr (payload_requests hash items @ rest))))"

definition tracker_for_bundle ::
    "crypto \<Rightarrow> tith_bundle \<Rightarrow> key_resolver \<Rightarrow> exchange_error + response_tracker" where
  "tracker_for_bundle C b resolver =
     and_then (bundle_requests C resolver (bun_payloads b)) (\<lambda>outstanding.
     Inr \<lparr>trk_origin = bun_origin b, trk_destination = bun_destination b,
          trk_outstanding = outstanding, trk_completed = []\<rparr>)"

definition expected :: "response_tracker \<Rightarrow> nat" where
  "expected T = length (trk_outstanding T)"

definition received :: "response_tracker \<Rightarrow> nat" where
  "received T = length (trk_completed T)"

definition is_complete :: "response_tracker \<Rightarrow> bool" where
  "is_complete T \<longleftrightarrow> received T = expected T"

definition requires_return_bundle :: "response_tracker \<Rightarrow> bool" where
  "requires_return_bundle T \<longleftrightarrow>
     list_ex (\<lambda>r. kind_requires_return_bundle (out_kind r)) (trk_outstanding T)"

definition validate_reply_identity :: "response_tracker \<Rightarrow> tith_bundle \<Rightarrow> exchange_error + unit" where
  "validate_reply_identity T reply =
     (if bun_origin reply \<noteq> trk_destination T then Inl WrongReplyOrigin
      else if bun_destination reply \<noteq> trk_origin T then Inl WrongReplyDestination
      else Inr ())"

definition same_request :: "bytes \<Rightarrow> u64 \<Rightarrow> outstanding_request \<Rightarrow> bool" where
  "same_request hash identifier r \<longleftrightarrow>
     out_signed_tlv_hash r = hash \<and> out_request_identifier r = identifier"

text \<open>The closure given to \<open>partition_point\<close>; \<open>None\<close> is the panic of its \<open>expect\<close>.\<close>

definition completed_position :: "outstanding_request list \<Rightarrow> completed_response \<Rightarrow> nat option" where
  "completed_position outstanding c =
     position (same_request (out_signed_tlv_hash (com_request c)) (out_request_identifier (com_request c)))
       outstanding"

text \<open>
  \<open>partition_point\<close> on a slice that is partitioned is the length of the prefix that satisfies the
  closure; that the slice is partitioned and that the closure does not panic on any of its
  elements follows from the invariant below.
\<close>

definition insertion_point ::
    "outstanding_request list \<Rightarrow> completed_response list \<Rightarrow> nat \<Rightarrow> exchange_error + nat" where
  "insertion_point outstanding completed p =
     and_then (try_map (\<lambda>c. ok_or EPanicked (completed_position outstanding c)) completed) (\<lambda>positions.
     Inr (length (takeWhile (\<lambda>existing. existing < p) positions)))"

definition insert_at :: "nat \<Rightarrow> 'a \<Rightarrow> 'a list \<Rightarrow> 'a list" where
  "insert_at i x xs = take i xs @ x # drop i xs"

definition observe_response ::
    "response_tracker \<Rightarrow> validated_item \<Rightarrow> exchange_error + response_tracker" where
  "observe_response T item =
     and_then
       (case vi_kind item of
          Accepted \<Rightarrow> Inr RAccepted | Rejected \<Rightarrow> Inr RRejected | _ \<Rightarrow> Inl InvalidResponse) (\<lambda>response.
     and_then (ok_or UnexpectedResponse (vi_response_to item)) (\<lambda>response_hash.
     and_then
       (ok_or UnexpectedResponse
         (position (same_request response_hash (vi_request_identifier item)) (trk_outstanding T))) (\<lambda>p.
     if vi_response_public_key item \<noteq> None \<and> out_kind (trk_outstanding T ! p) \<noteq> RPublicKeyRequest
     then Inl UnexpectedResponse
     else if list_ex (\<lambda>c. same_request response_hash (vi_request_identifier item) (com_request c))
         (trk_completed T)
     then Inl DuplicateResponse
     else
       let c = \<lparr>com_request = trk_outstanding T ! p, com_response = response,
                com_rejection = vi_rejection item\<rparr>
       in and_then (insertion_point (trk_outstanding T) (trk_completed T) p) (\<lambda>i.
          Inr (T\<lparr>trk_completed := insert_at i c (trk_completed T)\<rparr>)))))"

text \<open>The responses before an error stay recorded, so the tracker is returned with the result.\<close>

fun observe_responses ::
    "response_tracker \<Rightarrow> validated_item list \<Rightarrow> response_tracker \<times> (exchange_error + unit)" where
  "observe_responses T [] = (T, Inr ())"
| "observe_responses T (item # items) =
     (case observe_response T item of
        Inl e \<Rightarrow> (T, Inl e)
      | Inr T' \<Rightarrow> observe_responses T' items)"

fun observe_payloads ::
    "crypto \<Rightarrow> key_resolver \<Rightarrow> response_tracker \<Rightarrow> verified_signed_tlv list
     \<Rightarrow> response_tracker \<times> (exchange_error + unit)" where
  "observe_payloads C resolver T [] = (T, Inr ())"
| "observe_payloads C resolver T (payload # payloads) =
     (case validate_payload C payload resolver of
        Inl e \<Rightarrow> (T, Inl (EPayload e))
      | Inr items \<Rightarrow>
          (case observe_responses T (filter (\<lambda>i. vi_kind i = Accepted \<or> vi_kind i = Rejected) items) of
             (T', Inl e) \<Rightarrow> (T', Inl e)
           | (T', Inr _) \<Rightarrow> observe_payloads C resolver T' payloads))"

definition observe_reply ::
    "crypto \<Rightarrow> response_tracker \<Rightarrow> tith_bundle \<Rightarrow> key_resolver \<Rightarrow> response_tracker \<times> (exchange_error + unit)" where
  "observe_reply C T reply resolver =
     (case validate_reply_identity T reply of
        Inl e \<Rightarrow> (T, Inl e)
      | Inr _ \<Rightarrow> observe_payloads C resolver T (bun_payloads reply))"

definition require_complete :: "response_tracker \<Rightarrow> exchange_error + unit" where
  "require_complete T =
     (if is_complete T then Inr () else Inl (IncompleteResponse (expected T) (received T)))"

section \<open>The server's reply\<close>

record server_reply =
  sr_prefix :: bytes
  sr_header_hash :: bytes
  sr_origin :: identity
  sr_destination :: identity

definition reply_for_request ::
    "crypto \<Rightarrow> tith_bundle \<Rightarrow> identity \<Rightarrow> bytes \<Rightarrow> u64 \<Rightarrow> exchange_error + server_reply" where
  "reply_for_request C request local local_secret timestamp =
     (if bun_destination request \<noteq> local then Inl WrongDestination
      else
        and_then (map_err EBundle (build_bundle C local local_secret (bun_origin request) timestamp []))
          (\<lambda>prefix.
        and_then (map_err (\<lambda>e. EBundle (BFraming e)) (parse_sequence prefix)) (\<lambda>tops.
        and_then (ok_or (EBundle (Missing ''Reply Header SignedTLV''))
          (List.find (\<lambda>v. tlv_type v = SIGNED_TLV) tops)) (\<lambda>header.
        and_then (map_err (\<lambda>_. EPanicked) (tlv_encode header)) (\<lambda>encoded.
        and_then (map_err ECrypto (hash_tlv C encoded)) (\<lambda>hash.
        Inr \<lparr>sr_prefix = prefix, sr_header_hash = hash, sr_origin = local,
             sr_destination = bun_origin request\<rparr>))))))"

definition reply_payload ::
    "crypto \<Rightarrow> server_reply \<Rightarrow> owned_tlv list \<Rightarrow> bytes \<Rightarrow> exchange_error + bytes" where
  "reply_payload C reply responses local_secret =
     and_then (map_err (\<lambda>e. EBundle (BFraming e)) (tlv_new TLV_HASH (sr_header_hash reply))) (\<lambda>h.
     and_then (map_err EBundle (build_signed_tlv C (h # responses) None local_secret)) (\<lambda>t.
     map_err (\<lambda>_. EPanicked) (tlv_encode t)))"

section \<open>The account a tracker keeps\<close>

text \<open>
  The abstract specification.  A request is named by its key; an answer is the response and its
  rejection.  \<open>account m rs\<close> lists the answered requests of \<open>rs\<close> in order, each key once.
\<close>

type_synonym request_key = "bytes \<times> u64"
type_synonym answer = "response_kind \<times> rejection option"

definition request_key :: "outstanding_request \<Rightarrow> request_key" where
  "request_key r = (out_signed_tlv_hash r, out_request_identifier r)"

definition complete_with :: "outstanding_request \<Rightarrow> answer \<Rightarrow> completed_response" where
  "complete_with r a = \<lparr>com_request = r, com_response = fst a, com_rejection = snd a\<rparr>"

fun account :: "(request_key \<rightharpoonup> answer) \<Rightarrow> outstanding_request list \<Rightarrow> completed_response list" where
  "account m [] = []"
| "account m (r # rs) =
     (case m (request_key r) of
        None \<Rightarrow> account m rs
      | Some a \<Rightarrow> complete_with r a # account (m(request_key r := None)) rs)"

text \<open>What a response must be to answer an outstanding request, and the answer it records.\<close>

definition response_answer :: "validated_item \<Rightarrow> answer option" where
  "response_answer item =
     (case vi_kind item of
        Accepted \<Rightarrow> Some (RAccepted, vi_rejection item)
      | Rejected \<Rightarrow> Some (RRejected, vi_rejection item)
      | _ \<Rightarrow> None)"

definition response_key :: "validated_item \<Rightarrow> request_key option" where
  "response_key item = map_option (\<lambda>h. (h, vi_request_identifier item)) (vi_response_to item)"

text \<open>The request a key names: the first outstanding one.\<close>

definition request_named :: "outstanding_request list \<Rightarrow> request_key \<Rightarrow> outstanding_request option" where
  "request_named rs k = List.find (\<lambda>r. request_key r = k) rs"

definition account_step ::
    "outstanding_request list \<Rightarrow> (request_key \<rightharpoonup> answer) \<Rightarrow> validated_item
     \<Rightarrow> exchange_error + (request_key \<rightharpoonup> answer)" where
  "account_step rs m item =
     (case (response_answer item, response_key item) of
        (None, _) \<Rightarrow> Inl InvalidResponse
      | (Some a, None) \<Rightarrow> Inl UnexpectedResponse
      | (Some a, Some k) \<Rightarrow>
          (case request_named rs k of
             None \<Rightarrow> Inl UnexpectedResponse
           | Some r \<Rightarrow>
               if vi_response_public_key item \<noteq> None \<and> out_kind r \<noteq> RPublicKeyRequest
               then Inl UnexpectedResponse
               else if m k \<noteq> None then Inl DuplicateResponse
               else Inr (m(k \<mapsto> a))))"

definition tracks :: "response_tracker \<Rightarrow> (request_key \<rightharpoonup> answer) \<Rightarrow> bool" where
  "tracks T m \<longleftrightarrow>
     trk_completed T = account m (trk_outstanding T) \<and>
     dom m \<subseteq> request_key ` set (trk_outstanding T)"

section \<open>Lemmas on the account\<close>

lemma same_request_key: "same_request h i = (\<lambda>r. request_key r = (h, i))"
  by (auto simp: same_request_def request_key_def fun_eq_iff)

lemma com_request_complete_with [simp]: "com_request (complete_with r a) = r"
  by (simp add: complete_with_def)

lemma account_member:
  "c \<in> set (account m rs) \<Longrightarrow> com_request c \<in> set rs \<and> m (request_key (com_request c)) \<noteq> None"
  by (induction rs arbitrary: m) (fastforce split: option.splits if_splits)+

lemma account_keys: "request_key ` com_request ` set (account m rs) = dom m \<inter> request_key ` set rs"
proof (induction rs arbitrary: m)
  case (Cons r rs)
  show ?case
  proof (cases "m (request_key r)")
    case (Some a)
    then have "request_key r \<in> dom m" by (rule domI)
    then show ?thesis
      using Cons.IH [of "m(request_key r := None)"] by (auto simp: Some simp del: fun_upd_apply)
  next
    case None
    then have "request_key r \<notin> dom m" by (simp add: domIff)
    with None show ?thesis by (simp add: Cons.IH)
  qed
qed simp

lemma account_distinct: "distinct (map (\<lambda>c. request_key (com_request c)) (account m rs))"
proof (induction rs arbitrary: m)
  case (Cons r rs)
  have "request_key r \<notin> (\<lambda>c. request_key (com_request c)) ` set (account (m(request_key r := None)) rs)"
    using account_member by fastforce
  with Cons.IH show ?case by (auto split: option.splits)
qed simp

lemma length_account: "length (account m rs) = card (dom m \<inter> request_key ` set rs)"
proof -
  have "length (account m rs) = card (set (map (\<lambda>c. request_key (com_request c)) (account m rs)))"
    using distinct_card [OF account_distinct] by simp
  also have "set (map (\<lambda>c. request_key (com_request c)) (account m rs)) = dom m \<inter> request_key ` set rs"
    using account_keys [of m rs] by (auto simp: image_image)
  finally show ?thesis .
qed

lemma find_position: "List.find P xs = map_option ((!) xs) (position P xs)"
  by (induction xs) (auto simp: option.map_comp comp_def)

lemma account_insert:
  assumes "position (\<lambda>r. request_key r = k) rs = Some p" and "m k = None"
  shows "account (m(k \<mapsto> a)) rs =
    insert_at (length (takeWhile (\<lambda>c. the (completed_position rs c) < p) (account m rs)))
      (complete_with (rs ! p) a) (account m rs)"
  using assms
proof (induction rs arbitrary: m p)
  case (Cons r rs)
  show ?case
  proof (cases "request_key r = k")
    case True
    then have "p = 0" using Cons.prems(1) by simp
    moreover have "account (m(k \<mapsto> a)) (r # rs) = complete_with r a # account m rs"
      using True Cons.prems(2) by (simp add: fun_upd_idem)
    moreover have "account m (r # rs) = account m rs" using True Cons.prems(2) by simp
    ultimately show ?thesis by (cases "account m rs") (simp_all add: insert_at_def del: account.simps fun_upd_apply)
  next
    case False
    then obtain q where q: "position (\<lambda>r. request_key r = k) rs = Some q" "p = Suc q"
      using Cons.prems(1) by auto
    have shift: "takeWhile (\<lambda>c. the (completed_position (r # rs) c) < p) (account n rs) =
        takeWhile (\<lambda>c. the (completed_position rs c) < q) (account n rs)"
      if "n (request_key r) = None" for n
    proof (rule takeWhile_cong [OF refl])
      fix c assume c: "c \<in> set (account n rs)"
      from account_member [OF c] that have "request_key (com_request c) \<noteq> request_key r" by auto
      moreover from account_member [OF c] have "completed_position rs c \<noteq> None"
        by (auto simp: completed_position_def same_request_key position_None_iff request_key_def)
      ultimately show "(the (completed_position (r # rs) c) < p) = (the (completed_position rs c) < q)"
        by (auto simp: completed_position_def same_request_key request_key_def q(2))
    qed
    show ?thesis
    proof (cases "m (request_key r)")
      case None
      with False Cons.IH [of q m] q(1) Cons.prems(2) shift [of m] show ?thesis by (simp add: q(2))
    next
      case (Some b)
      let ?n = "m(request_key r := None)"
      have n: "?n k = None" using Cons.prems(2) by simp
      have upd: "(m(k \<mapsto> a))(request_key r := None) = ?n(k \<mapsto> a)" using False by (auto simp: fun_eq_iff)
      have zero: "completed_position (r # rs) (complete_with r b) = Some 0"
        by (simp add: completed_position_def same_request_key request_key_def)
      have e1: "account (m(k \<mapsto> a)) (r # rs) = complete_with r b # account (?n(k \<mapsto> a)) rs"
        using False Some upd by simp
      have e2: "account m (r # rs) = complete_with r b # account ?n rs" using Some by simp
      have e3: "account (?n(k \<mapsto> a)) rs =
          insert_at (length (takeWhile (\<lambda>c. the (completed_position rs c) < q) (account ?n rs)))
            (complete_with (rs ! q) a) (account ?n rs)"
        by (rule Cons.IH) (use q(1) n in simp_all)
      have "takeWhile (\<lambda>c. the (completed_position (r # rs) c) < p) (account ?n rs) =
          takeWhile (\<lambda>c. the (completed_position rs c) < q) (account ?n rs)"
        by (rule shift) simp
      then show ?thesis
        unfolding e1 e2 e3 using zero by (simp add: insert_at_def q(2) del: account.simps fun_upd_apply)
    qed
  qed
qed simp

lemma completed_positions:
  assumes "trk_completed T = account m (trk_outstanding T)"
  shows "insertion_point (trk_outstanding T) (trk_completed T) p =
    Inr (length (takeWhile (\<lambda>c. the (completed_position (trk_outstanding T) c) < p) (trk_completed T)))"
proof -
  have "ok_or EPanicked (completed_position (trk_outstanding T) c) =
      Inr (the (completed_position (trk_outstanding T) c))" if "c \<in> set (trk_completed T)" for c
  proof -
    have "completed_position (trk_outstanding T) c \<noteq> None"
      using account_member that assms
      by (auto simp: completed_position_def same_request_key position_None_iff request_key_def)
    then show ?thesis by auto
  qed
  then have "try_map (\<lambda>c. ok_or EPanicked (completed_position (trk_outstanding T) c)) (trk_completed T) =
      Inr (map (\<lambda>c. the (completed_position (trk_outstanding T) c)) (trk_completed T))"
    by (rule try_map_all_Inr)
  then show ?thesis by (simp add: insertion_point_def takeWhile_map comp_def)
qed

lemma answered_iff:
  assumes "tracks T m" and "k \<in> request_key ` set (trk_outstanding T)"
  shows "list_ex (\<lambda>c. same_request (fst k) (snd k) (com_request c)) (trk_completed T) \<longleftrightarrow> m k \<noteq> None"
proof -
  have "request_key ` com_request ` set (trk_completed T) = dom m"
    using assms(1) by (auto simp: tracks_def account_keys)
  then have "k \<in> request_key ` com_request ` set (trk_completed T) \<longleftrightarrow> m k \<noteq> None" by (simp add: domIff)
  then show ?thesis by (auto simp: list_ex_iff same_request_key image_iff)
qed

text \<open>One response: the tracker does what the abstract account does.\<close>

lemma observe_response_refines:
  assumes "tracks T m"
  shows "case account_step (trk_outstanding T) m item of
      Inl e \<Rightarrow> observe_response T item = Inl e
    | Inr m' \<Rightarrow> \<exists>T'. observe_response T item = Inr T' \<and> tracks T' m' \<and>
        trk_outstanding T' = trk_outstanding T \<and> trk_origin T' = trk_origin T \<and>
        trk_destination T' = trk_destination T"
proof (cases "response_answer item")
  case None
  then show ?thesis
    by (auto simp: account_step_def observe_response_def response_answer_def split: item_kind.splits)
next
  case (Some a)
  then have kind: "(case vi_kind item of Accepted \<Rightarrow> Inr RAccepted | Rejected \<Rightarrow> Inr RRejected
      | _ \<Rightarrow> Inl InvalidResponse) = (Inr (fst a) :: exchange_error + response_kind)"
    and snd_a: "snd a = vi_rejection item"
    by (auto simp: response_answer_def split: item_kind.splits)
  show ?thesis
  proof (cases "vi_response_to item")
    case None
    with Some kind show ?thesis
      by (simp add: account_step_def observe_response_def response_key_def)
  next
    case (Some h)
    let ?k = "(h, vi_request_identifier item)"
    note sa = \<open>response_answer item = Some a\<close>
    show ?thesis
    proof (cases "position (\<lambda>r. request_key r = ?k) (trk_outstanding T)")
      case None
      with Some sa kind show ?thesis
        by (simp add: account_step_def observe_response_def response_key_def request_named_def
            find_position same_request_key)
    next
      case (Some p)
      note p = this
      then have in_range: "?k \<in> request_key ` set (trk_outstanding T)"
        using position_Some_nth [OF p] by (metis image_eqI nth_mem)
      have key: "response_key item = Some ?k" using \<open>vi_response_to item = Some h\<close> by (simp add: response_key_def)
      have named: "request_named (trk_outstanding T) ?k = Some (trk_outstanding T ! p)"
        using p by (simp add: request_named_def find_position)
      have dup: "list_ex (\<lambda>c. request_key (com_request c) = ?k) (account m (trk_outstanding T)) \<longleftrightarrow> m ?k \<noteq> None"
        using answered_iff [OF assms in_range] assms by (simp add: same_request_key tracks_def)
      have obs: "observe_response T item =
          (if vi_response_public_key item \<noteq> None \<and> out_kind (trk_outstanding T ! p) \<noteq> RPublicKeyRequest
           then Inl UnexpectedResponse
           else if m ?k \<noteq> None then Inl DuplicateResponse
           else Inr (T\<lparr>trk_completed := account (m(?k \<mapsto> a)) (trk_outstanding T)\<rparr>))"
        using assms p completed_positions [of T m p] account_insert [OF p, of m a] snd_a
        by (cases "m ?k") (simp_all add: observe_response_def kind \<open>vi_response_to item = Some h\<close> same_request_key dup
            tracks_def complete_with_def Let_def)
      have "tracks (T\<lparr>trk_completed := account (m(?k \<mapsto> a)) (trk_outstanding T)\<rparr>) (m(?k \<mapsto> a))"
        using assms in_range by (auto simp: tracks_def)
      then show ?thesis by (auto simp: account_step_def sa key named obs)
    qed
  qed
qed

text \<open>The tracker implements the account of its outstanding requests.\<close>

interpretation tracker: error_simulation "account_step rs" observe_response
  "\<lambda>T m. tracks T m \<and> trk_outstanding T = rs" for rs
proof
  fix T m item e
  assume "tracks T m \<and> trk_outstanding T = rs" and "account_step rs m item = Inl e"
  with observe_response_refines [of T m item] show "observe_response T item = Inl e" by auto
next
  fix T m item m'
  assume "tracks T m \<and> trk_outstanding T = rs" and "account_step rs m item = Inr m'"
  with observe_response_refines [of T m item]
  show "\<exists>T'. observe_response T item = Inr T' \<and> tracks T' m' \<and> trk_outstanding T' = rs" by auto
qed

lemma observe_responses_run_all: "observe_responses T items = run_all observe_response T items"
  by (induction T items rule: observe_responses.induct) (auto split: sum.splits)

lemma tracks_new: "trk_completed T = [] \<Longrightarrow> tracks T Map.empty"
proof -
  have "account Map.empty rs = []" for rs by (induction rs) auto
  then show "trk_completed T = [] \<Longrightarrow> tracks T Map.empty" by (simp add: tracks_def)
qed

lemma tracker_for_bundle_new: "tracker_for_bundle C b resolver = Inr T \<Longrightarrow> trk_completed T = []"
  by (auto simp: tracker_for_bundle_def result_simps)

text \<open>
  C6.  The response tracker refines the abstract account.  A tracker that stands for the account
  \<open>m\<close> --- its completed responses are the answered requests, in the order of the requests, and
  nothing else --- takes a list of responses exactly as the account does: it stops at the same
  response with the same error, or takes them all, and stands for the resulting account.
\<close>

theorem tracker_refines_account:
  assumes "tracks T m"
    and "run_all (account_step (trk_outstanding T)) m items = (m', r)"
  shows "\<exists>T'. observe_responses T items = (T', r) \<and> tracks T' m' \<and>
    trk_outstanding T' = trk_outstanding T"
  using tracker.run_simulates [of T m "trk_outstanding T" items m' r] assms
  by (auto simp: observe_responses_run_all)

lemma account_subseq: "subseq (map com_request (account m rs)) rs"
  by (induction rs arbitrary: m) (auto split: option.splits)

lemma account_step_not_panic: "account_step rs m item \<noteq> Inl EPanicked"
  by (auto simp: account_step_def split: option.splits if_splits)

lemma run_all_not_panic: "snd (run_all (account_step rs) m items) \<noteq> Inl EPanicked"
  using account_step_not_panic
  by (induction items arbitrary: m) (auto split: sum.splits)

lemma tracker_reached:
  assumes "tracker_for_bundle C b resolver = Inr T" and "observe_responses T items = (T', r)"
  obtains m where "run_all (account_step (trk_outstanding T)) Map.empty items = (m, r)"
    and "tracks T' m" and "trk_outstanding T' = trk_outstanding T"
proof -
  obtain m r' where m: "run_all (account_step (trk_outstanding T)) Map.empty items = (m, r')"
    by fastforce
  with tracker.run_simulates [of T Map.empty "trk_outstanding T" items m r'] assms
    tracks_new [OF tracker_for_bundle_new [OF assms(1)]]
  show ?thesis by (intro that) (auto simp: observe_responses_run_all)
qed

text \<open>
  C24.  The completed responses of a tracker, whatever was fed to it, are a subsequence of its
  requests, name each request key at most once, and are never more than the requests; and the
  \<open>expect\<close> on which the insertion point rests cannot panic.
\<close>

theorem tracker_invariant:
  assumes "tracker_for_bundle C b resolver = Inr T" and "observe_responses T items = (T', r)"
  shows "subseq (map com_request (trk_completed T')) (trk_outstanding T) \<and>
    distinct (map (\<lambda>c. request_key (com_request c)) (trk_completed T')) \<and>
    received T' \<le> expected T' \<and> expected T' = expected T \<and> r \<noteq> Inl EPanicked"
proof -
  obtain m where m: "run_all (account_step (trk_outstanding T)) Map.empty items = (m, r)"
    "tracks T' m" "trk_outstanding T' = trk_outstanding T"
    using tracker_reached [OF assms] .
  have sub: "subseq (map com_request (trk_completed T')) (trk_outstanding T)"
    using m(2,3) by (simp add: tracks_def account_subseq)
  moreover have "received T' \<le> expected T'"
    using list_emb_length [OF sub] m(3) by (simp add: received_def expected_def)
  moreover have "r \<noteq> Inl EPanicked"
    using run_all_not_panic [of "trk_outstanding T" Map.empty items] m(1) by simp
  ultimately show ?thesis using m(2,3) by (simp add: tracks_def account_distinct expected_def)
qed

lemma complete_iff:
  assumes "tracks T m"
  shows "is_complete T \<longleftrightarrow> distinct (map request_key (trk_outstanding T)) \<and>
    (\<forall>r \<in> set (trk_outstanding T). m (request_key r) \<noteq> None)"
proof -
  let ?rs = "trk_outstanding T" and ?K = "request_key ` set (trk_outstanding T)"
  have dom: "dom m \<subseteq> ?K" and len: "received T = card (dom m)"
    using assms by (auto simp: tracks_def received_def length_account Int_absorb2)
  have K: "card ?K \<le> length ?rs" "finite ?K" using card_length [of "map request_key ?rs"] by auto
  have "is_complete T \<longleftrightarrow> card (dom m) = length ?rs" by (simp add: is_complete_def expected_def len)
  also have "\<dots> \<longleftrightarrow> card ?K = length ?rs \<and> dom m = ?K"
    using card_mono [OF K(2) dom] card_subset_eq [OF K(2) dom] K(1) by (metis le_antisym)
  also have "card ?K = length ?rs \<longleftrightarrow> distinct (map request_key ?rs)"
    using card_distinct [of "map request_key ?rs"] distinct_card [of "map request_key ?rs"] by auto
  also have "dom m = ?K \<longleftrightarrow> (\<forall>r \<in> set ?rs. m (request_key r) \<noteq> None)"
    using dom by (auto simp: image_subset_iff domIff set_eq_subset simp del: not_None_eq)
  finally show ?thesis .
qed

text \<open>
  C23.  When an exchange is complete.  After any responses, the tracker reports completion exactly
  when the requests have distinct keys and each of them has been answered by one of the completed
  responses; two requests with one key can never both be answered.
\<close>

theorem tracker_complete_iff:
  assumes "tracker_for_bundle C b resolver = Inr T" and "observe_responses T items = (T', r)"
  shows "is_complete T' \<longleftrightarrow>
    distinct (map request_key (trk_outstanding T)) \<and>
    (\<forall>q \<in> set (trk_outstanding T). \<exists>c \<in> set (trk_completed T'). com_request c = q)"
proof -
  obtain m where m: "tracks T' m" "trk_outstanding T' = trk_outstanding T"
    using tracker_reached [OF assms] .
  let ?rs = "trk_outstanding T"
  have keys: "request_key ` com_request ` set (trk_completed T') = dom m"
    using m by (auto simp: tracks_def account_keys)
  have sub: "com_request ` set (trk_completed T') \<subseteq> set ?rs"
    using m account_member by (fastforce simp: tracks_def)
  have "m (request_key q) \<noteq> None \<longleftrightarrow> (\<exists>c \<in> set (trk_completed T'). com_request c = q)"
    if "distinct (map request_key ?rs)" and q: "q \<in> set ?rs" for q
  proof -
    have inj: "inj_on request_key (set ?rs)" using that(1) by (simp add: distinct_map)
    have "m (request_key q) \<noteq> None \<longleftrightarrow> request_key q \<in> request_key ` com_request ` set (trk_completed T')"
      by (simp add: keys domIff)
    also have "\<dots> \<longleftrightarrow> q \<in> com_request ` set (trk_completed T')"
      using inj_on_image_mem_iff [OF inj q sub] .
    finally show ?thesis by (simp add: image_iff) blast
  qed
  with complete_iff [OF m(1)] m(2) show ?thesis by auto
qed

text \<open>A response that answers a request of a tracker: of the right kind and naming it by its key.\<close>

definition answers :: "response_tracker \<Rightarrow> validated_item \<Rightarrow> bool" where
  "answers T item \<longleftrightarrow>
     response_answer item \<noteq> None \<and> vi_response_public_key item = None \<and>
     (\<exists>r \<in> set (trk_outstanding T). response_key item = Some (request_key r))"

lemma account_step_answers:
  assumes "answers T item" and "response_key item = Some k" and "m k = None"
  obtains a where "account_step (trk_outstanding T) m item = Inr (m(k \<mapsto> a))"
proof -
  from assms obtain a where a: "response_answer item = Some a" by (auto simp: answers_def)
  from assms have "request_named (trk_outstanding T) k \<noteq> None"
    by (auto simp: answers_def request_named_def find_None_iff)
  with assms a have "account_step (trk_outstanding T) m item = Inr (m(k \<mapsto> a))"
    by (auto simp: account_step_def answers_def)
  then show ?thesis by (rule that)
qed

lemma account_all_answered:
  assumes "list_all (answers T) items" and "distinct (map response_key items)"
    and "\<forall>item \<in> set items. \<forall>k. response_key item = Some k \<longrightarrow> m k = None"
  shows "\<exists>m'. run_all (account_step (trk_outstanding T)) m items = (m', Inr ()) \<and>
    dom m' = dom m \<union> {k. Some k \<in> response_key ` set items}"
  using assms
proof (induction items arbitrary: m)
  case (Cons item items)
  from Cons.prems(1) obtain k where k: "response_key item = Some k"
    unfolding list.pred_inject answers_def by blast
  have "answers T item" and "m k = None" using Cons.prems(1,3) k by (simp_all del: split_paired_All)
  then obtain a where a: "account_step (trk_outstanding T) m item = Inr (m(k \<mapsto> a))"
    using account_step_answers k by blast
  have "\<forall>i \<in> set items. \<forall>k'. response_key i = Some k' \<longrightarrow> (m(k \<mapsto> a)) k' = None"
    using Cons.prems(2,3) k by (auto simp: image_iff)
  then have "\<exists>m'. run_all (account_step (trk_outstanding T)) (m(k \<mapsto> a)) items = (m', Inr ()) \<and>
      dom m' = dom (m(k \<mapsto> a)) \<union> {k. Some k \<in> response_key ` set items}"
    using Cons.prems(1,2) by (intro Cons.IH) simp_all
  then obtain m' where
    "run_all (account_step (trk_outstanding T)) (m(k \<mapsto> a)) items = (m', Inr ())"
    "dom m' = dom (m(k \<mapsto> a)) \<union> {k. Some k \<in> response_key ` set items}" by blast
  with a k show ?case by (intro exI [of _ m']) auto
qed auto

lemma all_answered_completes:
  assumes "tracker_for_bundle C b resolver = Inr T"
    and "distinct (map request_key (trk_outstanding T))"
    and "list_all (answers T) items"
    and "mset (map response_key items) = mset (map (\<lambda>q. Some (request_key q)) (trk_outstanding T))"
  shows "\<exists>T'. observe_responses T items = (T', Inr ()) \<and> is_complete T'"
proof -
  have "distinct (map (\<lambda>q. Some (request_key q)) (trk_outstanding T))"
    using assms(2) by (simp add: distinct_map inj_on_def)
  then have d: "distinct (map response_key items)" using mset_eq_imp_distinct_iff [OF assms(4)] by simp
  have keys: "response_key ` set items = (\<lambda>q. Some (request_key q)) ` set (trk_outstanding T)"
    using mset_eq_setD [OF assms(4)] by simp
  obtain m where m: "run_all (account_step (trk_outstanding T)) Map.empty items = (m, Inr ())"
    and dom: "dom m = {k. Some k \<in> response_key ` set items}"
    using account_all_answered [OF assms(3) d, of Map.empty] by auto
  from tracker.run_simulates [of T Map.empty "trk_outstanding T" items m "Inr ()"] m
    tracks_new [OF tracker_for_bundle_new [OF assms(1)]]
  obtain T' where T': "observe_responses T items = (T', Inr ())" "tracks T' m"
    "trk_outstanding T' = trk_outstanding T"
    by (auto simp: observe_responses_run_all)
  have "m (request_key q) \<noteq> None" if "q \<in> set (trk_outstanding T)" for q
    using that dom keys by (auto simp: domIff [symmetric] simp del: not_None_eq)
  with complete_iff [OF T'(2)] T'(3) assms(2) have "is_complete T'" by simp
  with T'(1) show ?thesis by blast
qed

text \<open>
  An answered exchange completes.  When the requests of a bundle have distinct keys and every
  one of them is answered exactly once --- in any order --- the tracker takes every response and
  is complete.
\<close>

theorem tracker_completes:
  assumes "tracker_for_bundle C b resolver = Inr T"
    and "distinct (map request_key (trk_outstanding T))"
    and "list_all (answers T) items"
    and "mset (map response_key items) = mset (map (\<lambda>q. Some (request_key q)) (trk_outstanding T))"
  shows "\<exists>T'. observe_responses T items = (T', Inr ()) \<and> is_complete T' \<and> require_complete T' = Inr ()"
  using all_answered_completes [OF assms] by (auto simp: require_complete_def)

text \<open>A bundle of two polls in one payload, and the responses to them.\<close>

definition sample_poll :: "u64 \<Rightarrow> u64 \<Rightarrow> owned_tlv" where
  "sample_poll ty identifier =
     assigned_tlv ty (seq_bytes [assigned_tlv REQUEST_IDENTIFIER (encode_u64 identifier)])"

definition sample_bundle :: tith_bundle where
  "sample_bundle =
     (let payload = \<lparr>ver_encoded = [], ver_identity = sample_identity,
        ver_data = [\<lparr>tlv_type = TLV_HASH, tlv_value = []\<rparr>, sample_poll POLL_MESSAGES 1,
                    sample_poll POLL_FILES 2]\<rparr> in
      \<lparr>bun_encoded = [], bun_origin = sample_identity, bun_advertised_origin_key = None,
       bun_destination = sample_identity, bun_requested_destination_key = None, bun_timestamp = 0,
       bun_header = payload, bun_payloads = [payload], bun_unknown_top_level = []\<rparr>)"

definition sample_request :: "u64 \<Rightarrow> request_kind_value \<Rightarrow> outstanding_request" where
  "sample_request identifier kind =
     \<lparr>out_signed_tlv_hash = replicate 32 0, out_request_identifier = identifier, out_kind = kind\<rparr>"

definition sample_tracker :: response_tracker where
  "sample_tracker =
     \<lparr>trk_origin = sample_identity, trk_destination = sample_identity,
      trk_outstanding = [sample_request 1 RPollMessages, sample_request 2 RPollFiles],
      trk_completed = []\<rparr>"

definition sample_response :: "u64 \<Rightarrow> validated_item" where
  "sample_response identifier =
     (plain_item Accepted identifier \<lparr>tlv_type = ACCEPTED, tlv_value = []\<rparr>)
       \<lparr>vi_response_to := Some (replicate 32 0)\<rparr>"

lemma sample_bundle_tracked:
  "tracker_for_bundle sample_crypto sample_bundle sample_resolver = Inr sample_tracker"
proof -
  have poll: "simple_request (sample_poll ty i) k = Inr (plain_item k i (sample_poll ty i))" for ty i k
    by (rule simple_request_built) (simp add: sample_poll_def)
  have ty: "tlv_type (sample_poll ty i) = ty" for ty i by (simp add: sample_poll_def)
  show ?thesis
    by (simp add: tracker_for_bundle_def sample_bundle_def sample_tracker_def sample_request_def Let_def
        validate_payload_def validate_item_def poll ty is_request_def payload_requests_def
        request_kind_def plain_item_def sample_crypto_def)
qed

lemma sample_observed:
  "observe_responses sample_tracker [sample_response 2, sample_response 1] =
     (sample_tracker\<lparr>trk_completed :=
        [complete_with (sample_request 1 RPollMessages) (RAccepted, None),
         complete_with (sample_request 2 RPollFiles) (RAccepted, None)]\<rparr>, Inr ())"
  by code_simp

lemma sample_tracker_new: "trk_completed sample_tracker = []"
  by (simp add: sample_tracker_def)

lemma sample_tracker_distinct: "distinct (map request_key (trk_outstanding sample_tracker))"
  by code_simp

lemma sample_responses_answer:
  "list_all (answers sample_tracker) [sample_response 2, sample_response 1]"
  "mset (map response_key [sample_response 2, sample_response 1]) =
   mset (map (\<lambda>q. Some (request_key q)) (trk_outstanding sample_tracker))"
proof -
  have key: "response_key (sample_response i) = Some (replicate 32 0, i)" for i
    by (simp add: response_key_def sample_response_def plain_item_def)
  have req: "request_key (sample_request i k) = (replicate 32 0, i)" for i k
    by (simp add: request_key_def sample_request_def)
  have "response_answer (sample_response i) \<noteq> None \<and> vi_response_public_key (sample_response i) = None" for i
    by (simp add: response_answer_def sample_response_def plain_item_def)
  with key req show "list_all (answers sample_tracker) [sample_response 2, sample_response 1]"
    by (auto simp: answers_def sample_tracker_def)
  show "mset (map response_key [sample_response 2, sample_response 1]) =
      mset (map (\<lambda>q. Some (request_key q)) (trk_outstanding sample_tracker))"
    by (simp add: key req sample_tracker_def add_mset_commute)
qed

text \<open>The poll answered last comes first in the completed responses.\<close>

theorem tracker_refines_account_witness:
  "\<exists>T' m. observe_responses sample_tracker [sample_response 2, sample_response 1] = (T', Inr ()) \<and>
     tracks T' m \<and> m (replicate 32 0, 1) = Some (RAccepted, None) \<and>
     m (replicate 32 0, 2) = Some (RAccepted, None)"
proof -
  let ?m = "Map.empty((replicate 32 0, 2) \<mapsto> (RAccepted, None), (replicate 32 0, 1) \<mapsto> (RAccepted, None))
    :: request_key \<rightharpoonup> answer"
  have "run_all (account_step (trk_outstanding sample_tracker)) Map.empty
      [sample_response 2, sample_response 1] = (?m, Inr ())"
    by (simp add: account_step_def response_answer_def response_key_def request_named_def sample_response_def
        plain_item_def sample_tracker_def request_key_def sample_request_def)
  from tracker_refines_account [OF tracks_new [OF sample_tracker_new] this]
  show ?thesis by (auto intro!: exI [of _ ?m])
qed

text \<open>The same run, seen through the invariant.\<close>

theorem tracker_invariant_witness:
  "\<exists>T'. observe_responses sample_tracker [sample_response 2, sample_response 1] = (T', Inr ()) \<and>
     subseq (map com_request (trk_completed T')) (trk_outstanding sample_tracker)"
  using tracker_invariant [OF sample_bundle_tracked sample_observed] sample_observed by blast

text \<open>After both responses the tracker is complete.\<close>

theorem tracker_complete_iff_witness:
  "\<exists>T'. observe_responses sample_tracker [sample_response 2, sample_response 1] = (T', Inr ()) \<and>
     is_complete T'"
proof -
  let ?T = "sample_tracker\<lparr>trk_completed :=
        [complete_with (sample_request 1 RPollMessages) (RAccepted, None),
         complete_with (sample_request 2 RPollFiles) (RAccepted, None)]\<rparr>"
  have "is_complete ?T"
    using tracker_complete_iff [OF sample_bundle_tracked sample_observed] sample_tracker_distinct
    by (auto simp: sample_tracker_def)
  with sample_observed show ?thesis by blast
qed

text \<open>Two polls answered in the opposite order.\<close>

theorem tracker_completes_witness:
  "\<exists>T'. observe_responses sample_tracker [sample_response 2, sample_response 1] = (T', Inr ()) \<and>
     is_complete T' \<and> require_complete T' = Inr ()"
  by (rule tracker_completes [OF sample_bundle_tracked sample_tracker_distinct sample_responses_answer])

end
