(* ===== verification/Session.thy ===== *)
theory Session
  imports Response
begin

text \<open>
  Client session order and close policy: \<open>crates/tith-exchange/src/session.rs\<close>.
\<close>

section \<open>Sending\<close>

text \<open>
  \<open>ExchangeIo\<close> is a trait the transports implement; it is a parameter here, its three operations
  acting on a transport state \<open>'s\<close>.
\<close>

record 's exchange_io =
  io_write_all :: "bytes \<Rightarrow> 's \<Rightarrow> (io_error + unit) \<times> 's"
  io_flush :: "'s \<Rightarrow> (io_error + unit) \<times> 's"
  io_shutdown_write :: "'s \<Rightarrow> (io_error + unit) \<times> 's"

definition send_bundle ::
    "'s exchange_io \<Rightarrow> bytes \<Rightarrow> bool \<Rightarrow> 's \<Rightarrow> (exchange_error + unit) \<times> 's" where
  "send_bundle io encoded keep_write_open s =
     (case io_write_all io encoded s of
        (Inl e, s1) \<Rightarrow> (Inl (EIo e), s1)
      | (Inr _, s1) \<Rightarrow>
          (case io_flush io s1 of
             (Inl e, s2) \<Rightarrow> (Inl (EIo e), s2)
           | (Inr _, s2) \<Rightarrow>
               if keep_write_open then (Inr (), s2)
               else
                 (case io_shutdown_write io s2 of
                    (Inl e, s3) \<Rightarrow> (Inl (EIo e), s3)
                  | (Inr _, s3) \<Rightarrow> (Inr (), s3))))"

section \<open>The session\<close>

datatype session_state =
  Ready | AwaitingReplyHeader | AwaitingResponses | MustSendReply | Closing | Complete | Failed

record client_session =
  ses_state :: session_state
  ses_tracker :: response_tracker

type_synonym session_result = "client_session \<times> (exchange_error + unit)"

definition session_new :: "response_tracker \<Rightarrow> client_session" where
  "session_new T = \<lparr>ses_state = Ready, ses_tracker = T\<rparr>"

definition session_requires_return_bundle :: "client_session \<Rightarrow> bool" where
  "session_requires_return_bundle S = requires_return_bundle (ses_tracker S)"

definition session_responses :: "client_session \<Rightarrow> completed_response list" where
  "session_responses S = trk_completed (ses_tracker S)"

definition session_requests :: "client_session \<Rightarrow> outstanding_request list" where
  "session_requests S = trk_outstanding (ses_tracker S)"

definition initial_sent :: "client_session \<Rightarrow> session_result" where
  "initial_sent S =
     (if ses_state S \<noteq> Ready then (S\<lparr>ses_state := Failed\<rparr>, Inl UnexpectedResponse)
      else (S\<lparr>ses_state := AwaitingReplyHeader\<rparr>, Inr ()))"

definition reply_header_received :: "client_session \<Rightarrow> tith_bundle \<Rightarrow> session_result" where
  "reply_header_received S reply =
     (if ses_state S \<noteq> AwaitingReplyHeader then (S\<lparr>ses_state := Failed\<rparr>, Inl UnexpectedResponse)
      else
        case validate_reply_identity (ses_tracker S) reply of
          Inl e \<Rightarrow> (S\<lparr>ses_state := Failed\<rparr>, Inl e)
        | Inr _ \<Rightarrow>
            if is_complete (ses_tracker S) then (S\<lparr>ses_state := Closing\<rparr>, Inr ())
            else (S\<lparr>ses_state := AwaitingResponses\<rparr>, Inr ()))"

definition responses_received :: "client_session \<Rightarrow> validated_item list \<Rightarrow> session_result" where
  "responses_received S responses =
     (if ses_state S \<noteq> AwaitingResponses then (S\<lparr>ses_state := Failed\<rparr>, Inl UnexpectedResponse)
      else
        case observe_responses (ses_tracker S) responses of
          (T, Inl e) \<Rightarrow> (S\<lparr>ses_tracker := T, ses_state := Failed\<rparr>, Inl e)
        | (T, Inr _) \<Rightarrow>
            if is_complete T then
              (S\<lparr>ses_tracker := T,
                 ses_state := (if requires_return_bundle T then MustSendReply else Closing)\<rparr>, Inr ())
            else (S\<lparr>ses_tracker := T\<rparr>, Inr ()))"

definition final_reply_sent :: "client_session \<Rightarrow> session_result" where
  "final_reply_sent S =
     (if ses_state S \<noteq> MustSendReply then (S\<lparr>ses_state := Failed\<rparr>, Inl UnexpectedResponse)
      else (S\<lparr>ses_state := Closing\<rparr>, Inr ()))"

definition closed :: "client_session \<Rightarrow> session_result" where
  "closed S =
     (if ses_state S = Closing then (S\<lparr>ses_state := Complete\<rparr>, Inr ())
      else
        (S\<lparr>ses_state := Failed\<rparr>,
         if is_complete (ses_tracker S) then Inl UnexpectedResponse
         else require_complete (ses_tracker S)))"

section \<open>Runs of a session\<close>

text \<open>
  The calls a client makes on a session, and a run of them.  \<open>reachable T\<close> are the sessions that
  any sequence of calls leads to from a new session on the tracker \<open>T\<close>.
\<close>

datatype session_event =
  InitialSent | ReplyHeader tith_bundle | Responses "validated_item list" | FinalReplySent | Closed

fun session_apply :: "session_event \<Rightarrow> client_session \<Rightarrow> session_result" where
  "session_apply InitialSent S = initial_sent S"
| "session_apply (ReplyHeader reply) S = reply_header_received S reply"
| "session_apply (Responses items) S = responses_received S items"
| "session_apply FinalReplySent S = final_reply_sent S"
| "session_apply Closed S = closed S"

inductive session_step :: "client_session \<Rightarrow> session_event \<Rightarrow> client_session \<Rightarrow> bool" where
  "session_apply e S = (S', r) \<Longrightarrow> session_step S e S'"

inductive_simps session_step_iff: "session_step S e S'"

inductive reachable :: "response_tracker \<Rightarrow> client_session \<Rightarrow> bool" for T where
  start: "reachable T (session_new T)"
| step: "reachable T S \<Longrightarrow> session_step S e S' \<Longrightarrow> reachable T S'"

fun session_run :: "client_session \<Rightarrow> session_event list \<Rightarrow> client_session" where
  "session_run S [] = S"
| "session_run S (e # es) = session_run (fst (session_apply e S)) es"

lemmas session_ops =
  initial_sent_def reply_header_received_def responses_received_def final_reply_sent_def closed_def

section \<open>Invariant\<close>

fun session_ok :: "session_state \<Rightarrow> response_tracker \<Rightarrow> bool" where
  "session_ok AwaitingResponses T \<longleftrightarrow> \<not> is_complete T"
| "session_ok MustSendReply T \<longleftrightarrow> is_complete T \<and> requires_return_bundle T"
| "session_ok Closing T \<longleftrightarrow> is_complete T"
| "session_ok Complete T \<longleftrightarrow> is_complete T"
| "session_ok _ T \<longleftrightarrow> True"

definition session_invariant :: "response_tracker \<Rightarrow> client_session \<Rightarrow> bool" where
  "session_invariant T S \<longleftrightarrow>
     session_ok (ses_state S) (ses_tracker S) \<and>
     trk_outstanding (ses_tracker S) = trk_outstanding T \<and> (\<exists>m. tracks (ses_tracker S) m)"

lemma observe_responses_tracks:
  assumes "tracks T m" and "observe_responses T items = (T', r)"
  shows "trk_outstanding T' = trk_outstanding T \<and> (\<exists>m'. tracks T' m') \<and> r \<noteq> Inl EPanicked"
proof -
  obtain m' r' where m': "run_all (account_step (trk_outstanding T)) m items = (m', r')" by fastforce
  from tracker.run_simulates [of T m "trk_outstanding T" items m' r'] m' assms
    run_all_not_panic [of "trk_outstanding T" m items]
  show ?thesis by (auto simp: observe_responses_run_all)
qed

lemma session_invariant_step:
  assumes "session_invariant T S" and "session_apply e S = (S', r)"
  shows "session_invariant T S' \<and> r \<noteq> Inl EPanicked"
proof (cases e)
  case (Responses items)
  obtain T' q where obs: "observe_responses (ses_tracker S) items = (T', q)" by fastforce
  from assms(1) obtain m where "tracks (ses_tracker S) m" by (auto simp: session_invariant_def)
  from observe_responses_tracks [OF this obs] assms Responses obs show ?thesis
    by (auto simp: session_invariant_def session_ops split: if_splits sum.splits)
next
  case (ReplyHeader reply)
  with assms show ?thesis
    by (auto simp: session_invariant_def session_ops validate_reply_identity_def split: if_splits sum.splits)
qed (use assms in \<open>auto simp: session_invariant_def session_ops require_complete_def split: if_splits\<close>)

lemma session_invariant_new: "trk_completed T = [] \<Longrightarrow> session_invariant T (session_new T)"
  using tracks_new by (auto simp: session_invariant_def session_new_def)

text \<open>
  C8.  The session invariant.  In every session reached by any calls from a new one on a bundle's
  tracker: a session that must send a reply, is closing or is complete has an answer for every
  request; one that must send a reply owes it; one that awaits responses has an unanswered
  request; the requests are those of the bundle; and no call panics.
\<close>

theorem session_reachable_ok:
  assumes "tracker_for_bundle C b resolver = Inr T" and "reachable T S"
  shows "session_ok (ses_state S) (ses_tracker S) \<and>
    session_requests S = trk_outstanding T \<and> snd (session_apply e S) \<noteq> Inl EPanicked"
proof -
  from assms(2) have inv: "session_invariant T S"
  proof induction
    case start
    show ?case by (rule session_invariant_new [OF tracker_for_bundle_new [OF assms(1)]])
  next
    case (step S e S')
    then obtain r where "session_apply e S = (S', r)" by (auto simp: session_step_iff)
    with session_invariant_step step.IH show ?case by blast
  qed
  obtain S' r where r: "session_apply e S = (S', r)" by fastforce
  from session_invariant_step [OF inv r] inv r show ?thesis
    by (simp add: session_invariant_def session_requests_def)
qed

section \<open>The order of a session\<close>

lemma failed_stays: "ses_state S = Failed \<Longrightarrow> ses_state (session_run S es) = Failed"
proof (induction es arbitrary: S)
  case (Cons e es)
  then have "ses_state (fst (session_apply e S)) = Failed" by (cases e) (auto simp: session_ops)
  with Cons.IH show ?case by simp
qed simp

lemma step_from_complete: "ses_state S = Complete \<Longrightarrow> ses_state (fst (session_apply e S)) = Failed"
  by (cases e) (auto simp: session_ops)

lemma run_from_complete: "ses_state S = Complete \<Longrightarrow> ses_state (session_run S es) = Complete \<Longrightarrow> es = []"
  using step_from_complete failed_stays by (cases es) force+

lemma run_from_closing:
  assumes "ses_state S = Closing" and "ses_state (session_run S es) = Complete"
  shows "es = [Closed] \<and> session_run S es = S\<lparr>ses_state := Complete\<rparr>"
proof (cases es)
  case Nil
  with assms show ?thesis by simp
next
  case (Cons e es')
  show ?thesis
  proof (cases e)
    case Closed
    with assms Cons run_from_complete [of "S\<lparr>ses_state := Complete\<rparr>" es'] show ?thesis
      by (auto simp: session_ops)
  qed (use assms Cons failed_stays in \<open>auto simp: session_ops\<close>)
qed

lemma run_from_must_reply:
  assumes "ses_state S = MustSendReply" and "ses_state (session_run S es) = Complete"
  shows "es = [FinalReplySent, Closed] \<and> session_run S es = S\<lparr>ses_state := Complete\<rparr>"
proof (cases es)
  case Nil
  with assms show ?thesis by simp
next
  case (Cons e es')
  show ?thesis
  proof (cases e)
    case FinalReplySent
    with assms Cons run_from_closing [of "S\<lparr>ses_state := Closing\<rparr>" es'] show ?thesis
      by (auto simp: session_ops)
  qed (use assms Cons failed_stays in \<open>auto simp: session_ops\<close>)
qed

text \<open>What follows the responses: a final reply where one is owed, then the close.\<close>

definition session_tail :: "response_tracker \<Rightarrow> session_event list" where
  "session_tail T = (if requires_return_bundle T then [FinalReplySent, Closed] else [Closed])"

lemma observe_responses_append:
  "observe_responses T (xs @ ys) =
     (case observe_responses T xs of (T', Inl e) \<Rightarrow> (T', Inl e) | (T', Inr _) \<Rightarrow> observe_responses T' ys)"
  by (induction T xs rule: observe_responses.induct) (auto split: sum.splits)

lemma observe_response_outstanding:
  "observe_response T item = Inr T' \<Longrightarrow>
   trk_outstanding T' = trk_outstanding T \<and> trk_origin T' = trk_origin T \<and>
   trk_destination T' = trk_destination T \<and> received T' = Suc (received T)"
  by (auto simp: observe_response_def result_simps insertion_point_def received_def insert_at_def Let_def
      min_def dest!: try_map_length split: if_splits)

lemma observe_responses_outstanding:
  "observe_responses T items = (T', r) \<Longrightarrow>
   trk_outstanding T' = trk_outstanding T \<and> trk_origin T' = trk_origin T \<and>
   trk_destination T' = trk_destination T"
  by (induction T items rule: observe_responses.induct)
    (auto dest: observe_response_outstanding split: sum.splits)

lemma observe_responses_received:
  "observe_responses T items = (T', Inr ()) \<Longrightarrow> received T' = received T + length items"
  by (induction T items rule: observe_responses.induct)
    (auto dest: observe_response_outstanding split: sum.splits)

lemma session_tail_outstanding: "trk_outstanding T' = trk_outstanding T \<Longrightarrow> session_tail T' = session_tail T"
  by (simp add: session_tail_def requires_return_bundle_def)

lemma run_from_responses:
  assumes "ses_state S = AwaitingResponses" and "ses_state (session_run S es) = Complete"
  shows "\<exists>groups T'. es = map Responses groups @ session_tail (ses_tracker S) \<and>
    observe_responses (ses_tracker S) (concat groups) = (T', Inr ()) \<and> is_complete T' \<and>
    session_run S es = \<lparr>ses_state = Complete, ses_tracker = T'\<rparr>"
  using assms
proof (induction es arbitrary: S)
  case (Cons e es)
  show ?case
  proof (cases e)
    case (Responses items)
    obtain T' q where obs: "observe_responses (ses_tracker S) items = (T', q)" by fastforce
    show ?thesis
    proof (cases q)
      case (Inl err)
      with Cons.prems Responses obs failed_stays show ?thesis by (auto simp: responses_received_def)
    next
      case (Inr u)
      have tl: "session_tail T' = session_tail (ses_tracker S)"
        using observe_responses_outstanding [OF obs] by (intro session_tail_outstanding) simp
      show ?thesis
      proof (cases "is_complete T'")
        case False
        let ?S = "S\<lparr>ses_tracker := T'\<rparr>"
        have ap: "fst (session_apply e S) = ?S"
          using Cons.prems(1) Responses obs Inr False by (simp add: responses_received_def)
        with Cons.IH [of ?S] Cons.prems obtain groups T'' where
          "es = map Responses groups @ session_tail T'"
          "observe_responses T' (concat groups) = (T'', Inr ())" "is_complete T''"
          "session_run ?S es = \<lparr>ses_state = Complete, ses_tracker = T''\<rparr>" by auto
        with Responses ap obs Inr tl show ?thesis
          by (intro exI [of _ "items # groups"] exI [of _ T''])
            (simp add: observe_responses_append)
      next
        case True
        let ?S = "S\<lparr>ses_tracker := T', ses_state := (if requires_return_bundle T' then MustSendReply else Closing)\<rparr>"
        have ap: "fst (session_apply e S) = ?S"
          using Cons.prems(1) Responses obs Inr True by (simp add: responses_received_def)
        then have "es = session_tail T' \<and> session_run ?S es = ?S\<lparr>ses_state := Complete\<rparr>"
          using Cons.prems(2) run_from_must_reply [of ?S es] run_from_closing [of ?S es]
          by (auto simp: session_tail_def split: if_splits)
        with Responses ap obs Inr tl True show ?thesis
          by (intro exI [of _ "[items]"] exI [of _ T']) (cases S; simp split: if_splits)
      qed
    qed
  qed (use Cons.prems failed_stays in \<open>auto simp: session_ops split: if_splits\<close>)
qed simp

text \<open>
  C9.  The order of a completed session.  A sequence of calls that ends in \<open>Complete\<close> is the
  initial bundle, the header of a reply from the peer it was sent to, groups of responses that
  the tracker takes without error and that answer every request, the final reply exactly when one
  is owed, and the close --- nothing is repeated, missing or out of order.
\<close>

theorem session_order:
  assumes "ses_state (session_run (session_new T) es) = Complete"
  shows "\<exists>reply groups T'.
    es = InitialSent # ReplyHeader reply # map Responses groups @
      (if groups = [] then [Closed] else session_tail T) \<and>
    bun_origin reply = trk_destination T \<and> bun_destination reply = trk_origin T \<and>
    observe_responses T (concat groups) = (T', Inr ()) \<and> is_complete T' \<and>
    session_run (session_new T) es = \<lparr>ses_state = Complete, ses_tracker = T'\<rparr>"
proof (cases es)
  case Nil
  with assms show ?thesis by (simp add: session_new_def)
next
  case (Cons e es1)
  let ?H = "\<lparr>ses_state = AwaitingReplyHeader, ses_tracker = T\<rparr>"
  have e: "e = InitialSent" and es1: "ses_state (session_run ?H es1) = Complete"
    "session_run (session_new T) es = session_run ?H es1"
    using assms Cons failed_stays by (cases e; force simp: session_ops session_new_def)+
  then obtain f es2 where es2: "es1 = f # es2" by (cases es1) auto
  obtain reply where f: "f = ReplyHeader reply"
    using es1(1) es2 failed_stays by (cases f) (force simp: session_ops)+
  have who: "validate_reply_identity T reply = Inr ()"
    using es1(1) es2 f failed_stays
    by (cases "validate_reply_identity T reply") (force simp: reply_header_received_def)+
  have peers: "bun_origin reply = trk_destination T \<and> bun_destination reply = trk_origin T"
    using who by (auto simp: validate_reply_identity_def split: if_splits)
  let ?R = "\<lparr>ses_state = if is_complete T then Closing else AwaitingResponses, ses_tracker = T\<rparr>"
  have step: "fst (session_apply f ?H) = ?R" using f who by (simp add: reply_header_received_def)
  show ?thesis
  proof (cases "is_complete T")
    case True
    with run_from_closing [of ?R es2] es1 es2 step
    have "es2 = [Closed]" "session_run ?R es2 = \<lparr>ses_state = Complete, ses_tracker = T\<rparr>" by auto
    with True Cons e f es1(2) es2 step peers show ?thesis
      by (intro exI [of _ reply] exI [of _ "[]"] exI [of _ T]) simp
  next
    case False
    with run_from_responses [of ?R es2] es1 es2 step obtain groups T' where
      g: "es2 = map Responses groups @ session_tail T" "observe_responses T (concat groups) = (T', Inr ())"
      "is_complete T'" "session_run ?R es2 = \<lparr>ses_state = Complete, ses_tracker = T'\<rparr>" by auto
    moreover have "groups \<noteq> []" using g(2,3) False by auto
    ultimately show ?thesis using Cons e f es1(2) es2 step peers
      by (intro exI [of _ reply] exI [of _ groups] exI [of _ T']) simp
  qed
qed

lemma run_groups:
  assumes "ses_state S = AwaitingResponses" and "groups \<noteq> []" and "last groups \<noteq> []"
    and "observe_responses (ses_tracker S) (concat groups) = (T', Inr ())" and "is_complete T'"
  shows "session_run S (map Responses groups @ session_tail (ses_tracker S)) =
    \<lparr>ses_state = Complete, ses_tracker = T'\<rparr>"
  using assms
proof (induction groups arbitrary: S)
  case (Cons g gs)
  obtain U q where obs: "observe_responses (ses_tracker S) g = (U, q)" by fastforce
  have rest: "q = Inr ()" "observe_responses U (concat gs) = (T', Inr ())"
    using Cons.prems(4) obs by (auto simp: observe_responses_append split: sum.splits)
  note obs = obs [unfolded rest(1)]
  note out = observe_responses_outstanding [OF obs] observe_responses_outstanding [OF rest(2)]
  have tl: "session_tail U = session_tail (ses_tracker S)" by (rule session_tail_outstanding) (simp add: out)
  show ?case
  proof (cases "gs = []")
    case True
    then have "U = T'" using rest(2) by simp
    then have "fst (session_apply (Responses g) S) = S\<lparr>ses_tracker := T',
        ses_state := (if requires_return_bundle T' then MustSendReply else Closing)\<rparr>"
      using Cons.prems(1,5) obs by (simp add: responses_received_def)
    then show ?thesis using True \<open>U = T'\<close> tl [symmetric]
      by (cases S) (simp add: session_tail_def session_ops)
  next
    case False
    have "0 < length (concat gs)" using Cons.prems(3) False by (cases gs rule: rev_cases) auto
    then have "received U < received T'" using observe_responses_received [OF rest(2)] by simp
    then have "\<not> is_complete U" using Cons.prems(5) out by (simp add: is_complete_def expected_def)
    then have "fst (session_apply (Responses g) S) = S\<lparr>ses_tracker := U\<rparr>"
      using Cons.prems(1) obs by (simp add: responses_received_def)
    with Cons.IH [of "S\<lparr>ses_tracker := U\<rparr>"] Cons.prems False rest(2) tl show ?thesis by simp
  qed
qed simp

text \<open>
  C13.  A session can always be finished.  For a bundle whose requests have distinct keys, a reply
  from the peer it was sent to, and responses that answer every request once --- in any order and
  in any groups, the last of them not empty, and without a response public key --- the calls in the prescribed order lead to \<open>Complete\<close>.
\<close>

theorem session_completes:
  assumes "tracker_for_bundle C b resolver = Inr T"
    and "distinct (map request_key (trk_outstanding T))" and "trk_outstanding T \<noteq> []"
    and "bun_origin reply = bun_destination b" and "bun_destination reply = bun_origin b"
    and "list_all (answers T) (concat groups)" and "groups \<noteq> []" and "last groups \<noteq> []"
    and "mset (map response_key (concat groups)) =
      mset (map (\<lambda>q. Some (request_key q)) (trk_outstanding T))"
  shows "ses_state (session_run (session_new T)
    (InitialSent # ReplyHeader reply # map Responses groups @ session_tail T)) = Complete"
proof -
  obtain T' where T': "observe_responses T (concat groups) = (T', Inr ())" "is_complete T'"
    using all_answered_completes [OF assms(1,2,6,9)] by blast
  have "validate_reply_identity T reply = Inr ()"
    using assms(1,4,5) by (auto simp: tracker_for_bundle_def result_simps validate_reply_identity_def)
  moreover have "\<not> is_complete T"
    using assms(3) tracker_for_bundle_new [OF assms(1)] by (simp add: is_complete_def received_def expected_def)
  ultimately have "session_run (session_new T)
      (InitialSent # ReplyHeader reply # map Responses groups @ session_tail T) =
      session_run \<lparr>ses_state = AwaitingResponses, ses_tracker = T\<rparr> (map Responses groups @ session_tail T)"
    by (simp add: session_new_def initial_sent_def reply_header_received_def)
  with run_groups [of "\<lparr>ses_state = AwaitingResponses, ses_tracker = T\<rparr>" groups T'] T' assms(7,8)
  show ?thesis by simp
qed

lemma sample_reply: "bun_origin sample_bundle = bun_destination sample_bundle"
  by (simp add: sample_bundle_def Let_def)

text \<open>Two polls, answered in one group each, in the opposite order, and the reply they demand.\<close>

theorem session_completes_witness:
  "ses_state (session_run (session_new sample_tracker)
     (InitialSent # ReplyHeader sample_bundle #
      map Responses [[sample_response 2], [sample_response 1]] @ session_tail sample_tracker)) = Complete"
  using session_completes [OF sample_bundle_tracked sample_tracker_distinct _ sample_reply sample_reply [symmetric],
      of "[[sample_response 2], [sample_response 1]]"] sample_responses_answer
  by (simp add: sample_tracker_def)

lemma sample_complete:
  "ses_state (session_run (session_new sample_tracker)
     [InitialSent, ReplyHeader sample_bundle, Responses [sample_response 2, sample_response 1],
      FinalReplySent, Closed]) = Complete"
  by code_simp

text \<open>The run above has the shape the order theorem gives.\<close>

theorem session_order_witness:
  "\<exists>groups T'. observe_responses sample_tracker (concat groups) = (T', Inr ()) \<and> is_complete T'"
  using session_order [OF sample_complete] by blast

lemma sample_reachable: "reachable sample_tracker \<lparr>ses_state = AwaitingReplyHeader, ses_tracker = sample_tracker\<rparr>"
proof (rule reachable.step [OF reachable.start])
  show "session_step (session_new sample_tracker) InitialSent
      \<lparr>ses_state = AwaitingReplyHeader, ses_tracker = sample_tracker\<rparr>"
    by (auto simp: session_step_iff session_new_def initial_sent_def)
qed

text \<open>After the initial bundle, closing early fails without a panic.\<close>

theorem session_reachable_ok_witness:
  "snd (session_apply Closed \<lparr>ses_state = AwaitingReplyHeader, ses_tracker = sample_tracker\<rparr>) \<noteq> Inl EPanicked"
  using session_reachable_ok [OF sample_bundle_tracked sample_reachable] by blast

end
