(* ===== verification/Message_Roundtrip.thy ===== *)
theory Message_Roundtrip
  imports Item_Roundtrip
begin

text \<open>
  Round trip of messages.  The structured values a message holds (area, reply reference, Via,
  attachments) are read back as they were written; then the layout of a whole message is stated
  once and the two readers, \<open>validate_message\<close> and \<open>read_message\<close>, are evaluated over it.
\<close>

section \<open>Structured values\<close>

text \<open>A vector that was built fits in memory, and so do the values inside it.\<close>

lemma length_tlv_value: "length (tlv_value t) \<le> length (tlv_bytes t)"
  by (simp add: tlv_bytes_def)

lemma length_child: "t \<in> set ts \<Longrightarrow> length (tlv_bytes t) \<le> length (seq_bytes ts)"
  by (induction ts) auto

lemma children_fit:
  assumes "concatenate ts = Inr v" and "length v < vec_limit"
  shows "list_all wf_tlv ts" and "v = seq_bytes ts" and "\<And>t. t \<in> set ts \<Longrightarrow> length (tlv_value t) < vec_limit"
proof -
  show v: "v = seq_bytes ts" using assms(1) by (simp add: concatenate_eq split: if_splits)
  show fit: "length (tlv_value t) < vec_limit" if "t \<in> set ts" for t
    using length_child [OF that] length_tlv_value [of t] assms(2) v by simp
  have "list_all (\<lambda>t. tlv_type t \<noteq> 0) ts" using assms(1) by (simp add: concatenate_eq split: if_splits)
  then show "list_all wf_tlv ts"
    using fit vec_limit_less by (fastforce simp: list_all_iff wf_tlv_def)
qed

lemma children_of_concatenate:
  assumes "concatenate ts = Inr v" and "length v < vec_limit"
  shows "children_of (assigned_tlv ty v) = Inr ts"
  using children_fit [OF assms] by (simp add: children_of_def parse_sequence_bytes)

lemma area_value_read [runs_rules]:
  assumes "area_value a = Inr t" and "length (tlv_value t) < vec_limit"
    and "valid_utf8 (area_name a)" and "\<And>d. area_description a = Some d \<Longrightarrow> valid_utf8 d"
  shows "validate_area t = Inr a"
proof -
  let ?ts = "assigned_tlv AREA_NAME (area_name a) # opt_tlv AREA_DESCRIPTION (area_description a) @ []"
  obtain v where v: "concatenate ?ts = Inr v" "t = assigned_tlv AREA v"
    using assms(1) by (auto simp: area_value_def result_simps)
  have parsed: "children_of t = Inr ?ts"
    using children_of_concatenate [OF v(1), of AREA] assms(2) v(2) by simp
  have "validate_area t = Inr \<lparr>area_name = area_name a, area_description = area_description a\<rparr>"
    by (simp only: validate_area_def parsed and_then.simps)
      (rule run_step_runs, ((rule runs_bind runs_rules) | (simp add: defined_codes assms(3,4); fail))+)
  then show ?thesis by simp
qed

lemma take_encoded_built:
  assumes "wf_tlv t" and "length (tlv_bytes t @ rest) < vec_limit"
  shows "take_encoded_tlv (tlv_bytes t @ rest) = Inr (t, length (tlv_bytes t))"
proof -
  have len: "unat (of_nat (length (tlv_value t)) :: u64) = length (tlv_value t)"
    using assms(1) by (simp add: wf_tlv_def unat_of_nat)
  have "\<not> usize_max < length (tlv_bytes t)"
    using assms(2) by (simp add: usize_max_def vec_limit_def)
  moreover have "tlv_new (tlv_type t) (tlv_value t) = Inr t"
    using assms(1) by (simp add: tlv_new_def tlv_header_new_def require_defined_type_def wf_tlv_def)
  ultimately show ?thesis
    by (simp add: take_encoded_tlv_def tlv_bytes_def decode_prefix_encode len Let_def)
qed

lemma parse_address_built: "wf_address a \<Longrightarrow> parse_address (assigned_tlv ty (address_to_string a)) = Inr a"
  by (simp add: parse_address_def tlv_text_assigned address_to_string_valid address_from_str_show)

lemma reply_to_read:
  assumes "reply_to_value (a, identifier) = Inr t" and "length (tlv_value t) < vec_limit"
    and "wf_address a" and "valid_utf8 identifier"
  shows "read_reply_to t = Inr (a, identifier)"
proof -
  let ?a = "assigned_tlv ADDRESS (address_to_string a)"
  have t: "t = assigned_tlv REPLY_TO (tlv_bytes ?a @ identifier)"
    using assms(1) by (auto simp: reply_to_value_def result_simps tlv_encode_eq)
  then have fit: "length (tlv_bytes ?a @ identifier) < vec_limit" using assms(2) by simp
  then have "wf_tlv ?a" using length_tlv_value [of ?a] by (intro wf_assigned) auto
  from take_encoded_built [OF this fit] show ?thesis
    by (simp add: read_reply_to_def t parse_address_built assms(3,4) from_utf8_def)
qed

text \<open>The Via a system writes for itself.\<close>

definition via_of :: "identity \<Rightarrow> u64 \<Rightarrow> str \<Rightarrow> via_data" where
  "via_of who timestamp software =
     \<lparr>via_address = id_address who,
      via_public_key = (if is_anonymous (id_address who) then Some (id_key who) else None),
      via_timestamp = timestamp, via_software = software\<rparr>"

lemma via_read:
  assumes "via_value who timestamp software = Inr t" and "length (tlv_value t) < vec_limit"
    and "wf_identity who" and "valid_utf8 software"
  shows "read_via t = Inr (via_of who timestamp software)"
proof -
  let ?a = "assigned_tlv ADDRESS (address_to_string (id_address who))"
  let ?k = "assigned_tlv PUBLIC_KEY (id_key who)"
  let ?t = "assigned_tlv TIMESTAMP (encode_u64 timestamp)"
  let ?anon = "is_anonymous (id_address who)"
  obtain v where v: "concatenate (?a # (if ?anon then [?k] else []) @ [?t]) = Inr v"
    and t: "t = assigned_tlv VIA (v @ software)"
    using assms(1) by (auto simp: via_value_def result_simps)
  have fit: "length (v @ software) < vec_limit" using assms(2) t by simp
  then have v_fit: "length v < vec_limit" by simp
  note parts = children_fit [OF v v_fit]
  have wf: "wf_tlv ?a" "wf_tlv ?t" "?anon \<Longrightarrow> wf_tlv ?k" using parts(1) by (auto split: if_splits)
  have addr: "parse_address ?a = Inr (id_address who)"
    using assms(3) by (intro parse_address_built) (simp add: wf_identity_def)
  show ?thesis
  proof (cases ?anon)
    case False
    then have vs: "v @ software = tlv_bytes ?a @ tlv_bytes ?t @ software" using parts(2) by simp
    with fit have "take_encoded_tlv (tlv_bytes ?a @ tlv_bytes ?t @ software) = Inr (?a, length (tlv_bytes ?a))"
      "take_encoded_tlv (tlv_bytes ?t @ software) = Inr (?t, length (tlv_bytes ?t))"
      using wf(1,2) by (simp_all add: take_encoded_built)
    with False addr assms(4) show ?thesis
      by (simp add: read_via_def t vs via_of_def from_utf8_def)
  next
    case True
    then have vs: "v @ software = tlv_bytes ?a @ tlv_bytes ?k @ tlv_bytes ?t @ software" using parts(2) by simp
    with fit have "take_encoded_tlv (tlv_bytes ?a @ tlv_bytes ?k @ tlv_bytes ?t @ software) =
        Inr (?a, length (tlv_bytes ?a))"
      "take_encoded_tlv (tlv_bytes ?k @ tlv_bytes ?t @ software) = Inr (?k, length (tlv_bytes ?k))"
      "take_encoded_tlv (tlv_bytes ?t @ software) = Inr (?t, length (tlv_bytes ?t))"
      using wf True by (simp_all add: take_encoded_built)
    with True addr assms(3,4) show ?thesis
      by (simp add: read_via_def t vs via_of_def from_utf8_def wf_identity_def parse_public_key_def)
  qed
qed

section \<open>Attachments\<close>

definition opt_text :: "str option \<Rightarrow> bool" where
  "opt_text v \<longleftrightarrow> (\<forall>s. v = Some s \<longrightarrow> valid_utf8 s)"

text \<open>The strings of an attachment are Rust strings.\<close>

definition attachment_text :: "attachment_data \<Rightarrow> bool" where
  "attachment_text a \<longleftrightarrow>
     opt_text (att_filename a) \<and> opt_text (att_short_description a) \<and>
     list_all valid_utf8 (att_long_description_lines a) \<and> opt_text (att_tear_line a) \<and>
     opt_text (att_magic_word a) \<and> opt_text (att_replaces a)"

lemma runs_opt_str [runs_rules]:
  "is_defined ty \<Longrightarrow> all_defined rest \<Longrightarrow> ty \<notin> types_of rest \<Longrightarrow> opt_text v \<Longrightarrow>
   runs vs (copt_text ty) (opt_tlv ty v @ rest) v rest"
  by (rule runs_opt_text) (auto simp: opt_text_def)

declare runs_opt_text [runs_rules del]

lemma all_map_tlv [simp]: "list_all P (map (assigned_tlv ty) xs) \<longleftrightarrow> (\<forall>x \<in> set xs. P (assigned_tlv ty x))"
  by (simp add: list_all_iff)

lemma lacks_type [runs_rules]: "list_all (\<lambda>t. tlv_type t \<noteq> ty) ts \<Longrightarrow> ty \<notin> types_of ts"
  by (auto simp: list_all_iff)

lemma runs_reduce [runs_rules]:
  "runs vs (k a b) rest y rest' \<Longrightarrow> runs vs (case (a, b) of (a, b) \<Rightarrow> k a b) rest y rest'"
  "runs vs m rest y rest' \<Longrightarrow> runs vs (if True then m else n) rest y rest'"
  "runs vs n rest y rest' \<Longrightarrow> runs vs (if False then m else n) rest y rest'"
  "runs vs n rest y rest' \<Longrightarrow> runs vs (case None of None \<Rightarrow> n | Some x \<Rightarrow> s x) rest y rest'"
  "runs vs (s x) rest y rest' \<Longrightarrow> runs vs (case Some x of None \<Rightarrow> n | Some x \<Rightarrow> s x) rest y rest'"
  by simp_all

lemma guard_ok [runs_rules]: "\<not> b \<Longrightarrow> (if b then Inl e else Inr ()) = Inr ()"
  by simp

lemma runs_rep_map [runs_rules]:
  assumes "is_defined ty" and "all_defined rest" and "ty \<notin> types_of rest"
  shows "runs vs (crep ty) (map (assigned_tlv ty) xs @ rest) (map (assigned_tlv ty) xs) rest"
  by (rule runs_rep) (use assms head_type_notin in \<open>auto simp: list_all_iff\<close>)

lemma texts_read [runs_rules]:
  "list_all valid_utf8 xs \<Longrightarrow> try_map tlv_text (map (assigned_tlv ty) xs) = Inr xs"
  by (induction xs) (simp_all add: tlv_text_assigned)

lemma opt_name_rule [runs_rules]:
  "opt_text v \<Longrightarrow> (\<And>s. v = Some s \<Longrightarrow> \<not> filename_has_path_component s) \<Longrightarrow>
   map_transpose file_name_rule (map_option (assigned_tlv ty) v) = Inr (map_option (\<lambda>_. ()) v)"
  by (cases v) (simp_all add: file_name_rule_ok opt_text_def)

lemma opt_description [runs_rules]:
  "opt_text v \<Longrightarrow> (\<And>s. v = Some s \<Longrightarrow> \<not> has_newline s) \<Longrightarrow>
   map_transpose (file_description what) (map_option (assigned_tlv ty) v) = Inr (map_option (\<lambda>_. ()) v)"
  by (cases v) (simp_all add: file_description_def tlv_text_assigned opt_text_def)

lemma descriptions [runs_rules]:
  "list_all valid_utf8 xs \<Longrightarrow> list_all (\<lambda>s. \<not> has_newline s) xs \<Longrightarrow>
   try_map (file_description what) (map (assigned_tlv ty) xs) = Inr (map (\<lambda>_. ()) xs)"
  by (induction xs) (simp_all add: file_description_def tlv_text_assigned)

lemma push_filename_eq:
  "push_filename out v = Inr ts \<longleftrightarrow>
     ts = out @ opt_tlv FILENAME v \<and> (\<forall>s. v = Some s \<longrightarrow> validate_produced_filename s = Inr ())"
  by (cases v) (auto simp: push_filename_def opt_tlv_def result_simps)

lemma produced_filename_plain: "validate_produced_filename s = Inr () \<Longrightarrow> \<not> filename_has_path_component s"
  by (auto simp: validate_produced_filename_def split: if_splits)

lemma long_lines_eq:
  "try_map (\<lambda>v. if has_newline v then Inl e else Inr (assigned_tlv ty v)) xs = Inr ts \<longleftrightarrow>
     ts = map (assigned_tlv ty) xs \<and> list_all (\<lambda>s. \<not> has_newline s) xs"
  by (induction xs arbitrary: ts) (auto simp: and_then_eq_Inr)

lemma push_file_metadata_eq:
  "push_file_metadata out short long tear magic repl = Inr ts \<longleftrightarrow>
     ts = out @ opt_tlv SHORT_DESCRIPTION short @ map (assigned_tlv LONG_DESCRIPTION_LINE) long
        @ opt_tlv TEAR_LINE tear @ opt_tlv MAGIC_WORD magic @ opt_tlv REPLACES repl \<and>
     (\<forall>s. short = Some s \<longrightarrow> \<not> has_newline s) \<and> list_all (\<lambda>s. \<not> has_newline s) long"
  by (cases short) (auto simp: push_file_metadata_def result_simps long_lines_eq opt_tlv_def)

named_theorems runs_misses \<open>readers that find nothing\<close>

lemma opt_miss [runs_misses]:
  "all_defined rest \<Longrightarrow> list_all (\<lambda>t. tlv_type t \<noteq> ty) rest \<Longrightarrow> runs vs (copt ty) rest None rest"
  by (rule runs_opt_miss) (simp_all add: head_type_notin lacks_type)

lemma opt_text_miss [runs_misses]:
  "all_defined rest \<Longrightarrow> list_all (\<lambda>t. tlv_type t \<noteq> ty) rest \<Longrightarrow> runs vs (copt_text ty) rest None rest"
  unfolding copt_text_def by (rule runs_bind [OF opt_miss]) (auto intro: runs_lift)

lemma opt_at_miss [runs_misses]:
  "all_defined rest \<Longrightarrow> list_all (\<lambda>t. tlv_type t \<noteq> ty) rest \<Longrightarrow> runs vs (copt_at ty) rest None rest"
  by (rule runs_opt_at_miss) (simp_all add: head_type_notin lacks_type)

lemma rep_miss [runs_misses]:
  "is_defined ty \<Longrightarrow> all_defined rest \<Longrightarrow> list_all (\<lambda>t. tlv_type t \<noteq> ty) rest \<Longrightarrow> runs vs (crep ty) rest [] rest"
  using runs_rep_map [of ty rest vs "[]"] by (simp add: lacks_type)

lemma provenance_miss [runs_misses]:
  assumes "all_defined rest" and "list_all (\<lambda>t. tlv_type t \<noteq> ORIGIN) rest"
  shows "runs vs (file_provenance_parts False) rest None rest"
  unfolding file_provenance_parts_def
  by (rule runs_bind [OF opt_miss [OF assms]]) (simp add: runs_return)

text \<open>The children of an attached file, as they are laid out.\<close>

definition attachment_children :: "attachment_data \<Rightarrow> owned_tlv list" where
  "attachment_children a =
     opt_tlv FILENAME (att_filename a) @ opt_tlv TIMESTAMP (map_option encode_u64 (att_timestamp a)) @
     assigned_tlv CONTENTS (att_contents a) # opt_tlv SHORT_DESCRIPTION (att_short_description a) @
     map (assigned_tlv LONG_DESCRIPTION_LINE) (att_long_description_lines a) @
     opt_tlv TEAR_LINE (att_tear_line a) @ opt_tlv MAGIC_WORD (att_magic_word a) @
     opt_tlv REPLACES (att_replaces a) @ []"

lemma attachment_value_parts:
  assumes "attachment_value a = Inr t" and "length (tlv_value t) < vec_limit"
  shows "children_of t = Inr (attachment_children a)"
    and "\<And>s. att_filename a = Some s \<Longrightarrow> \<not> filename_has_path_component s"
    and "\<And>s. att_short_description a = Some s \<Longrightarrow> \<not> has_newline s"
    and "list_all (\<lambda>s. \<not> has_newline s) (att_long_description_lines a)"
proof -
  obtain v where v: "concatenate (attachment_children a) = Inr v" "t = assigned_tlv FILE v"
    using assms(1)
    by (auto simp: attachment_value_def result_simps push_filename_eq push_file_metadata_eq attachment_children_def)
  show "children_of t = Inr (attachment_children a)"
    using children_of_concatenate [OF v(1)] assms(2) v(2) by simp
  show "\<not> filename_has_path_component s" if "att_filename a = Some s" for s
    using assms(1) that produced_filename_plain by (auto simp: attachment_value_def result_simps push_filename_eq)
  show "\<not> has_newline s" if "att_short_description a = Some s" for s
    using assms(1) that by (auto simp: attachment_value_def result_simps push_file_metadata_eq)
  show "list_all (\<lambda>s. \<not> has_newline s) (att_long_description_lines a)"
    using assms(1) by (auto simp: attachment_value_def result_simps push_file_metadata_eq)
qed

lemma attached_provenance_list:
  "attached_provenance ts \<longleftrightarrow>
     \<not> list_all (\<lambda>t. tlv_type t \<noteq> ORIGIN \<and> tlv_type t \<noteq> PUBLIC_KEY \<and> tlv_type t \<noteq> SIGNED_ORIGIN \<and>
       tlv_type t \<noteq> SIGNATURE) ts"
  by (auto simp: attached_provenance_def list_ex_iff list_all_iff)

lemma attachment_read:
  assumes "attachment_value a = Inr t" and "length (tlv_value t) < vec_limit" and "attachment_text a"
  shows "read_attachment t = Inr a" and "validate_file C t False resolver = Inr None"
proof -
  note parts = attachment_value_parts [OF assms(1,2)]
  have strs: "opt_text (att_filename a)" "opt_text (att_short_description a)"
    "list_all valid_utf8 (att_long_description_lines a)" "opt_text (att_tear_line a)"
    "opt_text (att_magic_word a)" "opt_text (att_replaces a)"
    using assms(3) by (auto simp: attachment_text_def)
  have "read_attachment t = Inr \<lparr>att_filename = att_filename a, att_timestamp = att_timestamp a,
      att_contents = tlv_value (assigned_tlv CONTENTS (att_contents a)), att_short_description = att_short_description a,
      att_long_description_lines = att_long_description_lines a, att_tear_line = att_tear_line a,
      att_magic_word = att_magic_word a, att_replaces = att_replaces a\<rparr>"
    by (simp only: read_attachment_def parts(1) and_then.simps attachment_children_def)
      (rule run_step_runs, ((rule runs_bind runs_rules)
        | (simp add: defined_codes strs; fail))+)
  then show "read_attachment t = Inr a" by simp
  show "validate_file C t False resolver = Inr None"
    by (simp only: validate_file_def parts(1) and_then.simps)
      (simp only: attachment_children_def, rule run_step_runs, ((rule runs_bind runs_rules)
        | (rule runs_misses, (simp add: defined_codes; fail)+)
        | (simp add: defined_codes strs parts attached_provenance_list file_signature_def; fail))+)
qed

section \<open>Messages\<close>

text \<open>An identity among the children: an address and, when it is anonymous, its key.\<close>

definition identity_key :: "identity \<Rightarrow> bytes option" where
  "identity_key who = (if is_anonymous (id_address who) then Some (id_key who) else None)"

definition id_children :: "u64 \<Rightarrow> identity option \<Rightarrow> owned_tlv list" where
  "id_children ty w =
     (case w of
        None \<Rightarrow> []
      | Some who \<Rightarrow>
          assigned_tlv ty (address_to_string (id_address who)) # opt_tlv PUBLIC_KEY (identity_key who))"

lemma all_id_children [simp]:
  "list_all P (id_children ty w) \<longleftrightarrow>
     (\<forall>who. w = Some who \<longrightarrow> P (assigned_tlv ty (address_to_string (id_address who))) \<and>
        (is_anonymous (id_address who) \<longrightarrow> P (assigned_tlv PUBLIC_KEY (id_key who))))"
  by (auto simp: id_children_def identity_key_def split: option.splits)

lemma head_type_simps [simp]:
  "head_type [] = None" "head_type (t # ts) = Some (tlv_type t)"
  "head_type (opt_tlv ty v @ rest) = (case v of None \<Rightarrow> head_type rest | Some _ \<Rightarrow> Some ty)"
  "head_type (id_children ty w @ rest) = (case w of None \<Rightarrow> head_type rest | Some _ \<Rightarrow> Some ty)"
  by (auto simp: head_type_def opt_tlv_def id_children_def split: option.splits)

lemma runs_key [runs_rules]:
  assumes "is_anonymous a \<longleftrightarrow> k \<noteq> None" and "head_type rest \<noteq> Some PUBLIC_KEY"
  shows "runs vs (conditional_public_key a) (opt_tlv PUBLIC_KEY k @ rest)
    (map_option (assigned_tlv PUBLIC_KEY) k) rest"
proof (cases k)
  case None
  then show ?thesis using assms runs_key_miss [of a rest vs] by (simp add: opt_tlv_def)
next
  case (Some b)
  then show ?thesis using assms runs_key_hit [of a "assigned_tlv PUBLIC_KEY b" vs rest] by (simp add: opt_tlv_def)
qed

lemma identity_key_anonymous: "is_anonymous (id_address who) \<longleftrightarrow> identity_key who \<noteq> None"
  by (simp add: identity_key_def)

lemma parse_identity_built:
  assumes "wf_identity who" and "resolves resolver who"
  shows "parse_identity (assigned_tlv ty (address_to_string (id_address who)))
    (map_option (assigned_tlv PUBLIC_KEY) (identity_key who)) resolver = Inr who"
  using assms
  by (auto simp: parse_identity_def parse_address_built wf_identity_def resolves_def identity_key_def
      parse_public_key_ok)

lemma runs_destination [runs_rules]:
  assumes "\<And>who. d = Some who \<Longrightarrow> wf_identity who \<and> resolves resolver who"
    and "head_type rest \<noteq> Some PUBLIC_KEY" and "all_defined rest"
    and "list_all (\<lambda>t. tlv_type t \<noteq> DESTINATION) rest"
  shows "runs vs (opt_destination resolver) (id_children DESTINATION d @ rest) d rest"
proof (cases d)
  case None
  have "runs vs (creturn None) rest None rest" by (rule runs_return)
  moreover have "peek_type \<lparr>cur_values = vs, cur_index = i\<rparr> \<noteq> Some DESTINATION" if "drop i vs = rest" for i
    using peek_type_head [OF that assms(3)] head_type_notin [OF lacks_type [OF assms(4)]] by simp
  ultimately show ?thesis using None by (auto simp: runs_def opt_destination_def id_children_def)
next
  case (Some who)
  let ?a = "assigned_tlv DESTINATION (address_to_string (id_address who))"
  have who: "wf_identity who" "resolves resolver who" using assms(1) [OF Some] by auto
  have addr: "parse_address ?a = Inr (id_address who)"
    using who(1) by (intro parse_address_built) (simp add: wf_identity_def)
  have "runs vs (cbind (ctake DESTINATION ''Destination'') (\<lambda>t.
        cbind (clift (parse_address t)) (\<lambda>a.
        cbind (conditional_public_key a) (\<lambda>key.
        cbind (clift (parse_identity t key resolver)) (\<lambda>who.
        creturn (Some who)))))) (?a # opt_tlv PUBLIC_KEY (identity_key who) @ rest) (Some who) rest"
    by ((rule runs_bind runs_take runs_key runs_lift runs_return addr parse_identity_built
          identity_key_anonymous who assms(2) assigned_tlv_sel)
        | (simp add: defined_codes; fail))+
  moreover have "peek_type \<lparr>cur_values = vs, cur_index = i\<rparr> = Some DESTINATION"
    if "drop i vs = ?a # us" for i us
    using next_defined_hit [OF that] by (simp add: peek_type_def defined_codes)
  ultimately show ?thesis using Some by (auto simp: runs_def opt_destination_def id_children_def)
qed

lemma runs_signed_origin [runs_rules]:
  assumes "\<And>who. so = Some who \<Longrightarrow> wf_identity who"
    and "head_type rest \<noteq> Some PUBLIC_KEY" and "all_defined rest"
    and "list_all (\<lambda>t. tlv_type t \<noteq> SIGNED_ORIGIN) rest"
  shows "runs vs opt_signed_origin (id_children SIGNED_ORIGIN so @ rest)
    (map_option (\<lambda>who. (assigned_tlv SIGNED_ORIGIN (address_to_string (id_address who)),
       map_option (assigned_tlv PUBLIC_KEY) (identity_key who))) so) rest"
proof (cases so)
  case None
  have "runs vs opt_signed_origin rest None rest"
    unfolding opt_signed_origin_def by (rule runs_bind [OF opt_miss [OF assms(3,4)]]) (simp add: runs_return)
  then show ?thesis using None by (simp add: id_children_def)
next
  case (Some who)
  let ?a = "assigned_tlv SIGNED_ORIGIN (address_to_string (id_address who))"
  have addr: "parse_address ?a = Inr (id_address who)"
    using assms(1) [OF Some] by (intro parse_address_built) (simp add: wf_identity_def)
  have "runs vs opt_signed_origin (?a # opt_tlv PUBLIC_KEY (identity_key who) @ rest)
      (Some (?a, map_option (assigned_tlv PUBLIC_KEY) (identity_key who))) rest"
    unfolding opt_signed_origin_def
    by ((rule runs_bind runs_opt_hit runs_reduce runs_key runs_lift runs_return addr
          identity_key_anonymous assms(2) assigned_tlv_sel)
        | (simp add: defined_codes; fail))+
  then show ?thesis using Some by (simp add: id_children_def)
qed

text \<open>The layout of a message: what is signed, and the suffix from the signature on.\<close>

definition message_layout ::
    "address \<Rightarrow> bytes option \<Rightarrow> identity option \<Rightarrow> message_data \<Rightarrow> bytes option \<Rightarrow> owned_tlv list \<Rightarrow> bytes option
     \<Rightarrow> owned_tlv list \<Rightarrow> owned_tlv list" where
  "message_layout origin okey so data area files reply rest =
     assigned_tlv ORIGIN (address_to_string origin) # opt_tlv PUBLIC_KEY okey @ id_children SIGNED_ORIGIN so @
     id_children DESTINATION (msg_destination data) @
     assigned_tlv TIMESTAMP (encode_u64 (msg_timestamp data)) #
     assigned_tlv TO_USER_NAME (msg_to_user data) # assigned_tlv FROM_USER_NAME (msg_from_user data) #
     assigned_tlv SUBJECT (msg_subject data) # assigned_tlv MESSAGE_TEXT (msg_text data) #
     opt_tlv AREA area @ files @
     opt_tlv LEGACY_ATTRIBUTES (map_option encode_u64 (msg_legacy_attributes data)) @
     opt_tlv TIMESTAMP_OFFSET (map_option encode_i64 (msg_timestamp_offset data)) @
     opt_tlv TEAR_LINE (msg_tear_line data) @ opt_tlv ORIGIN_LINE (msg_origin_line data) @
     opt_tlv MESSAGE_ID (msg_message_id data) @ opt_tlv REPLY_TO reply @
     opt_tlv ORIGINAL_CHARACTER_SET (msg_original_character_set data) @ rest"

definition suffix_layout :: "bytes \<Rightarrow> u64 \<Rightarrow> owned_tlv list \<Rightarrow> bytes option \<Rightarrow> str list \<Rightarrow> owned_tlv list" where
  "suffix_layout signature identifier vias seen_by kludges =
     assigned_tlv SIGNATURE signature # assigned_tlv REQUEST_IDENTIFIER (encode_u64 identifier) #
     vias @ opt_tlv SEEN_BY seen_by @ map (assigned_tlv ADDITIONAL_KLUDGE_LINE) kludges @ []"

text \<open>The data of a message the program can hold: Rust strings, addresses, an \<open>i64\<close>.\<close>

definition message_text :: "message_data \<Rightarrow> bool" where
  "message_text data \<longleftrightarrow>
     valid_utf8 (msg_to_user data) \<and> valid_utf8 (msg_from_user data) \<and> valid_utf8 (msg_subject data) \<and>
     valid_utf8 (msg_text data) \<and>
     (\<forall>a. msg_area data = Some a \<longrightarrow> valid_utf8 (area_name a) \<and> opt_text (area_description a)) \<and>
     list_all attachment_text (msg_attachments data) \<and>
     (\<forall>i. msg_timestamp_offset data = Some i \<longrightarrow> i64_range i) \<and>
     opt_text (msg_tear_line data) \<and> opt_text (msg_origin_line data) \<and> opt_text (msg_message_id data) \<and>
     (\<forall>a i. msg_reply_to data = Some (a, i) \<longrightarrow> wf_address a \<and> valid_utf8 i) \<and>
     opt_text (msg_original_character_set data) \<and> list_all valid_utf8 (msg_additional_kludge_lines data)"

text \<open>The signed origin of a provenance: the signer, when it is not the origin itself.\<close>

definition signed_origin_of :: "item_provenance \<Rightarrow> identity \<Rightarrow> identity option" where
  "signed_origin_of prov signer = (if prov_origin prov = id_address signer then None else Some signer)"

definition origin_key_of :: "item_provenance \<Rightarrow> identity \<Rightarrow> bytes option" where
  "origin_key_of prov signer = (if prov_origin prov = id_address signer then identity_key signer else None)"

lemma push_identity_eq: "push_identity out ty who = out @ id_children ty (Some who)"
  by (simp add: push_identity_def id_children_def opt_tlv_def identity_key_def)

lemma opt_tlv_None [simp]: "opt_tlv ty None = []"
  by (simp add: opt_tlv_def)

lemma push_provenance_eq:
  assumes "push_provenance out prov = Inr ts" and "prov_signer prov = Some s"
  shows "ts = out @ assigned_tlv ORIGIN (address_to_string (prov_origin prov)) #
      opt_tlv PUBLIC_KEY (origin_key_of prov s) @ id_children SIGNED_ORIGIN (signed_origin_of prov s)"
    and "is_anonymous (prov_origin prov) \<longleftrightarrow> origin_key_of prov s \<noteq> None"
  using assms
  by (auto simp: push_provenance_def push_identity_eq origin_key_of_def signed_origin_of_def id_children_def
      identity_key_def split: if_splits option.splits)

lemma opt_u64_rule [runs_rules]:
  "(\<And>n. v = Some n \<Longrightarrow> f n = Inr ()) \<Longrightarrow>
   map_transpose (\<lambda>t. and_then (value_u64 t) f) (map_option (assigned_tlv ty) (map_option encode_u64 v)) =
     Inr (map_option (\<lambda>_. ()) v)"
  by (cases v) simp_all

lemma opt_i64_rule [runs_rules]:
  "(\<And>n. v = Some n \<Longrightarrow> i64_range n \<and> f n = Inr ()) \<Longrightarrow>
   map_transpose (\<lambda>t. and_then (value_i64 t) f) (map_option (assigned_tlv ty) (map_option encode_i64 v)) =
     Inr (map_option (\<lambda>_. ()) v)"
  by (cases v) (simp_all add: value_i64_assigned)

lemma opt_i64_read [runs_rules]:
  "(\<And>n. v = Some n \<Longrightarrow> i64_range n) \<Longrightarrow>
   map_transpose value_i64 (map_option (assigned_tlv ty) (map_option encode_i64 v)) = Inr v"
  by (cases v) (simp_all add: value_i64_assigned)

lemma kludges_read [runs_rules]:
  "list_all valid_utf8 ks \<Longrightarrow> list_all (\<lambda>k. 1 \<notin> set k) ks \<Longrightarrow>
   try_map kludge_rule (map (assigned_tlv ty) ks) = Inr (map (\<lambda>_. ()) ks)"
  by (induction ks) (simp_all add: kludge_rule_def tlv_text_assigned)

lemma runs_rep_typed:
  assumes "list_all (\<lambda>t. tlv_type t = ty) ts" and "is_defined ty" and "all_defined rest"
    and "list_all (\<lambda>t. tlv_type t \<noteq> ty) rest"
  shows "runs vs (crep ty) (ts @ rest) ts rest"
  using assms by (intro runs_rep) (simp_all add: head_type_notin lacks_type)

lemma run_step_layout: "vs = ts \<Longrightarrow> runs vs m ts x rest \<Longrightarrow> run_step m vs = Inr x"
  by (auto intro: run_step_runs)

lemma runs_return_eq: "x = y \<Longrightarrow> runs vs (creturn x) rest y rest"
  by (simp add: runs_return)

lemma typed_all: "list_all (\<lambda>t. tlv_type t = ty) ts \<Longrightarrow> (\<And>t. tlv_type t = ty \<Longrightarrow> P t) \<Longrightarrow> list_all P ts"
  by (auto simp: list_all_iff)

lemma originated_rules:
  assumes "validate_originated_message_data data = Inr ()"
  shows "(msg_destination data \<noteq> None) \<noteq> (msg_area data \<noteq> None)"
    and "\<And>n. msg_legacy_attributes data = Some n \<Longrightarrow> validate_legacy_attributes n = Inr ()"
    and "\<And>n. msg_timestamp_offset data = Some n \<Longrightarrow> validate_timestamp_offset n = Inr ()"
    and "msg_area data = None \<Longrightarrow> msg_tear_line data = None \<and> msg_origin_line data = None"
    and "validate_message_text (msg_text data) = Inr ()"
  using assms
  by (auto simp: validate_originated_message_data_def result_simps split: if_splits option.splits)

lemma validate_layout:
  assumes vs: "vs = message_layout origin okey so data area files reply (suffix_layout sig identifier vias seen ks)"
    and parsed: "children_of t = Inr vs"
    and strs: "message_text data" and ok: "validate_originated_message_data data = Inr ()"
    and dest: "\<And>who. msg_destination data = Some who \<Longrightarrow> wf_identity who \<and> resolves resolver who"
    and key: "is_anonymous origin \<longleftrightarrow> okey \<noteq> None" and so: "\<And>who. so = Some who \<Longrightarrow> wf_identity who"
    and origin: "wf_address origin"
    and area: "map_transpose validate_area (map_option (assigned_tlv AREA) area) = Inr (msg_area data)"
    and files: "list_all (\<lambda>t. tlv_type t = FILE) files"
      "try_map (\<lambda>file. validate_file C file False resolver) files = Inr us"
    and reply: "map_transpose read_reply_to (map_option (assigned_tlv REPLY_TO) reply) = Inr (msg_reply_to data)"
    and vias: "list_all (\<lambda>t. tlv_type t = VIA) vias" "try_map read_via vias = Inr vdata" "vias \<noteq> []"
    and seen: "map_transpose seen_by_addresses (map_option (assigned_tlv SEEN_BY) seen) = Inr sdata"
    and ks: "list_all valid_utf8 ks" "list_all (\<lambda>k. 1 \<notin> set k) ks"
    and sig: "message_signature C resolver vs (assigned_tlv ORIGIN (address_to_string origin)) origin
      (map_option (assigned_tlv PUBLIC_KEY) okey)
      (map_option (\<lambda>who. (assigned_tlv SIGNED_ORIGIN (address_to_string (id_address who)),
         map_option (assigned_tlv PUBLIC_KEY) (identity_key who))) so)
      (Some (length vs - Suc (length (tl (suffix_layout sig identifier vias seen ks))), assigned_tlv SIGNATURE sig)) =
      Inr (p, auth, dup)"
  shows "validate_message C t resolver = Inr
    \<lparr>vi_kind = (if msg_destination data \<noteq> None then NetMail else EchoMail),
     vi_request_identifier = identifier, vi_duplicate_identity = dup, vi_authentication = Some auth,
     vi_response_to = None, vi_response_public_key = None, vi_rejection = None, vi_provenance = Some p,
     vi_destination = msg_destination data, vi_area = map_option area_name (msg_area data), vi_raw = t\<rparr>"
proof -
  have origin_read: "parse_address (assigned_tlv ORIGIN (address_to_string origin)) = Inr origin"
    by (rule parse_address_built [OF origin])
  have strings: "valid_utf8 (msg_to_user data)" "valid_utf8 (msg_from_user data)"
    "valid_utf8 (msg_subject data)" "valid_utf8 (msg_text data)" "opt_text (msg_tear_line data)"
    "opt_text (msg_origin_line data)" "opt_text (msg_message_id data)" "opt_text (msg_original_character_set data)"
    "\<And>i. msg_timestamp_offset data = Some i \<Longrightarrow> i64_range i"
    using strs by (auto simp: message_text_def)
  note rules = originated_rules [OF ok]
  have combination: "\<not> (msg_destination data \<noteq> None) = (msg_area data \<noteq> None)" using rules(1) by simp
  have echo: "\<not> (msg_destination data \<noteq> None \<and> (msg_tear_line data \<noteq> None \<or> msg_origin_line data \<noteq> None))"
    using rules(1,4) by auto
  have first: "has_type ORIGIN (nth_opt vs 0)" by (simp add: vs message_layout_def nth_opt_def has_type_def)
  have tl: "tl (suffix_layout sig identifier vias seen ks) =
    assigned_tlv REQUEST_IDENTIFIER (encode_u64 identifier) #
     vias @ opt_tlv SEEN_BY seen @ map (assigned_tlv ADDITIONAL_KLUDGE_LINE) ks @ []"
    by (simp add: suffix_layout_def)
  note typed = typed_all [OF files(1)] typed_all [OF vias(1)]
  show ?thesis
    unfolding validate_message_def parsed and_then.simps if_not_P [OF not_not [THEN iffD2, OF first]]
    by (rule run_step_layout [OF vs [unfolded message_layout_def suffix_layout_def]],
       ((rule runs_bind runs_rules runs_opt_at_hit origin_read key dest so runs_rep_typed [OF files(1)]
           runs_rep_typed [OF vias(1)] area files(2) reply vias(2) seen ks strings sig [unfolded tl]
           combination echo rules)
        | (rule runs_misses, (simp add: defined_codes typed; fail)+)
        | (simp add: defined_codes typed strings rules vias(3) split: option.splits; fail)
        | (rule runs_return_eq, simp; fail))+)
qed

definition signed_origin_result :: "identity option \<Rightarrow> signed_origin_parts" where
  "signed_origin_result so =
     \<lparr>sop_address = map_option id_address so,
      sop_key = (case so of None \<Rightarrow> None | Some who \<Rightarrow> identity_key who),
      sop_encoding = seq_bytes (id_children SIGNED_ORIGIN so)\<rparr>"

lemma runs_read_signed_origin [runs_rules]:
  assumes "\<And>who. so = Some who \<Longrightarrow> wf_identity who"
    and "head_type rest \<noteq> Some PUBLIC_KEY" and "all_defined rest"
    and "list_all (\<lambda>t. tlv_type t \<noteq> SIGNED_ORIGIN) rest"
  shows "runs vs read_signed_origin (id_children SIGNED_ORIGIN so @ rest) (signed_origin_result so) rest"
proof (cases so)
  case None
  have "runs vs read_signed_origin rest (signed_origin_result None) rest"
    unfolding read_signed_origin_def
    by (rule runs_bind [OF opt_miss [OF assms(3,4)]]) (simp add: signed_origin_result_def id_children_def runs_return)
  then show ?thesis using None by (simp add: id_children_def)
next
  case (Some who)
  let ?a = "assigned_tlv SIGNED_ORIGIN (address_to_string (id_address who))"
  have who: "wf_identity who" using assms(1) [OF Some] .
  have addr: "parse_address ?a = Inr (id_address who)"
    using who by (intro parse_address_built) (simp add: wf_identity_def)
  have enc: "map_err (\<lambda>_. Panicked) (tlv_encode ?a) = Inr (tlv_bytes ?a)" by (simp add: tlv_encode_eq)
  have kenc: "map_transpose (\<lambda>k. map_err (\<lambda>_. Panicked) (tlv_encode k))
      (map_option (assigned_tlv PUBLIC_KEY) (identity_key who)) =
      Inr (map_option (\<lambda>k. tlv_bytes (assigned_tlv PUBLIC_KEY k)) (identity_key who))"
    by (cases "identity_key who") (simp_all add: tlv_encode_eq)
  have key: "map_transpose parse_public_key (map_option (assigned_tlv PUBLIC_KEY) (identity_key who)) =
      Inr (identity_key who)"
    using who by (auto simp: identity_key_def wf_identity_def parse_public_key_ok)
  have res: "\<lparr>sop_address = Some (id_address who), sop_key = identity_key who, sop_encoding =
      tlv_bytes ?a @ concat (list_of_option (map_option (\<lambda>k. tlv_bytes (assigned_tlv PUBLIC_KEY k)) (identity_key who)))\<rparr>
      = signed_origin_result so"
    by (auto simp: signed_origin_result_def Some id_children_def opt_tlv_def list_of_option_def split: option.splits)
  have "runs vs read_signed_origin (?a # opt_tlv PUBLIC_KEY (identity_key who) @ rest) (signed_origin_result so) rest"
    unfolding read_signed_origin_def
    by ((rule runs_bind runs_opt_hit runs_reduce runs_key runs_lift addr enc kenc key runs_return_eq [OF res]
          identity_key_anonymous assms(2) assigned_tlv_sel)
        | (simp add: defined_codes; fail))+
  then show ?thesis using Some by (simp add: id_children_def)
qed

lemma runs_read_signature:
  assumes "length sig = 64" and "encoded_prefix vs (length vs - Suc (length rest)) = Inr region"
  shows "runs vs (read_signature vs) (assigned_tlv SIGNATURE sig # rest) (Some sig, region) rest"
proof -
  have sig: "parse_signature (assigned_tlv SIGNATURE sig) = Inr sig" using assms(1) by (simp add: parse_signature_def)
  show ?thesis unfolding read_signature_def
    by ((rule runs_bind runs_opt_at_hit runs_reduce runs_lift sig assms(2) runs_return assigned_tlv_sel)
        | (simp add: defined_codes; fail))+
qed

lemma read_layout:
  assumes vs: "vs = message_layout origin okey so data area files reply (suffix_layout sig identifier vias seen ks)"
    and parsed: "children_of t = Inr vs" and ty: "tlv_type t = MESSAGE"
    and strs: "message_text data"
    and dest: "\<And>who. msg_destination data = Some who \<Longrightarrow> wf_identity who \<and> resolves resolver who"
    and key: "is_anonymous origin \<longleftrightarrow> okey \<noteq> None" "\<And>k. okey = Some k \<Longrightarrow> length k = 32"
    and so: "\<And>who. so = Some who \<Longrightarrow> wf_identity who"
    and origin: "wf_address origin"
    and area: "map_transpose validate_area (map_option (assigned_tlv AREA) area) = Inr (msg_area data)"
    and files: "list_all (\<lambda>t. tlv_type t = FILE) files"
      "try_map read_attachment files = Inr (msg_attachments data)"
    and reply: "map_transpose read_reply_to (map_option (assigned_tlv REPLY_TO) reply) = Inr (msg_reply_to data)"
    and vias: "list_all (\<lambda>t. tlv_type t = VIA) vias" "try_map read_via vias = Inr vdata" "vdata \<noteq> []"
    and seen: "(case map_option (assigned_tlv SEEN_BY) seen of Some v \<Rightarrow> seen_by_addresses v | None \<Rightarrow> Inr []) = Inr sdata"
    and ks: "msg_additional_kludge_lines data = ks"
    and sig: "length sig = 64" "encoded_prefix vs (length vs - length (suffix_layout sig identifier vias seen ks)) = Inr region"
  shows "read_message t resolver = Inr
    \<lparr>rm_data = data,
     rm_signing = \<lparr>sign_origin = origin, sign_origin_key = okey,
       sign_signed_origin = map_option id_address so,
       sign_signed_origin_key = (case so of None \<Rightarrow> None | Some who \<Rightarrow> identity_key who),
       sign_signature = Some sig, sign_region = region,
       sign_signed_origin_encoding = seq_bytes (id_children SIGNED_ORIGIN so)\<rparr>,
     rm_request_identifier = identifier, rm_vias = vdata, rm_seen_by = sdata\<rparr>"
proof -
  have origin_read: "parse_address (assigned_tlv ORIGIN (address_to_string origin)) = Inr origin"
    by (rule parse_address_built [OF origin])
  have key_read: "map_transpose parse_public_key (map_option (assigned_tlv PUBLIC_KEY) okey) = Inr okey"
    by (rule optional_key_ok) (rule key(2))
  have strings: "valid_utf8 (msg_to_user data)" "valid_utf8 (msg_from_user data)"
    "valid_utf8 (msg_subject data)" "valid_utf8 (msg_text data)" "opt_text (msg_tear_line data)"
    "opt_text (msg_origin_line data)" "opt_text (msg_message_id data)" "opt_text (msg_original_character_set data)"
    "\<And>i. msg_timestamp_offset data = Some i \<Longrightarrow> i64_range i" "list_all valid_utf8 ks"
    using strs ks by (auto simp: message_text_def)
  have region: "encoded_prefix vs (length vs - Suc (length
    (assigned_tlv REQUEST_IDENTIFIER (encode_u64 identifier) #
     vias @ opt_tlv SEEN_BY seen @ map (assigned_tlv ADDITIONAL_KLUDGE_LINE) ks @ []))) = Inr region"
    using sig(2) by (simp add: suffix_layout_def)
  have via_some: "\<not> vdata = []" using vias(3) .
  note typed = typed_all [OF files(1)] typed_all [OF vias(1)]
  show ?thesis
    unfolding read_message_def parsed and_then.simps if_not_P [OF not_not [THEN iffD2, OF ty]]
    by (rule run_step_layout [OF vs [unfolded message_layout_def suffix_layout_def]],
       ((rule runs_bind runs_rules runs_read_signature [OF sig(1) region] origin_read key(1) key_read dest so
           runs_rep_typed [OF files(1)] runs_rep_typed [OF vias(1)] area files(2) reply vias(2) seen strings via_some)
        | (rule runs_misses, (simp add: defined_codes typed; fail)+)
        | (simp add: defined_codes typed strings split: option.splits; fail)
        | (rule runs_return_eq, simp add: signed_origin_result_def ks [symmetric]; fail))+)
qed

lemma area_value_opt:
  assumes "map_transpose area_value a = Inr r"
  shows "\<exists>v. list_of_option r = opt_tlv AREA v \<and> r = map_option (assigned_tlv AREA) v"
  using assms
  by (cases a) (auto simp: area_value_def result_simps list_of_option_def opt_tlv_def
      intro: exI [of _ None] exI [of _ "Some _"])

lemma reply_value_opt:
  assumes "map_transpose reply_to_value a = Inr r"
  shows "\<exists>v. list_of_option r = opt_tlv REPLY_TO v \<and> r = map_option (assigned_tlv REPLY_TO) v"
proof (cases r)
  case None
  then show ?thesis by (intro exI [of _ None]) (simp add: list_of_option_def opt_tlv_def)
next
  case (Some t)
  with assms have "tlv_type t = REPLY_TO"
    by (cases a) (auto simp: reply_to_value_def result_simps)
  then have "t = assigned_tlv REPLY_TO (tlv_value t)" by (simp add: assigned_tlv_def)
  with Some show ?thesis
    by (intro exI [of _ "Some (tlv_value t)"]) (simp add: list_of_option_def opt_tlv_def)
qed

lemma seen_by_opt: "\<exists>v. list_of_option (seen_by_value as) = opt_tlv SEEN_BY v \<and>
    v = (if as = [] then None else Some (format_trimmed_collection as))"
  by (simp add: seen_by_value_def list_of_option_def opt_tlv_def)

lemma message_layout_append: "message_layout a b c d e f g rest = message_layout a b c d e f g [] @ rest"
  by (simp add: message_layout_def)

lemma message_signed_layout:
  assumes "message_signed_children data prov = Inr body" and "prov_signer prov = Some s"
  obtains area files reply where
    "body = message_layout (prov_origin prov) (origin_key_of prov s) (signed_origin_of prov s) data area files reply []"
    and "map_transpose area_value (msg_area data) = Inr (map_option (assigned_tlv AREA) area)"
    and "try_map attachment_value (msg_attachments data) = Inr files"
    and "map_transpose reply_to_value (msg_reply_to data) = Inr (map_option (assigned_tlv REPLY_TO) reply)"
    and "is_anonymous (prov_origin prov) \<longleftrightarrow> origin_key_of prov s \<noteq> None"
proof -
  from assms(1) obtain signed0 area files reply where parts:
    "push_provenance [] prov = Inr signed0" "map_transpose area_value (msg_area data) = Inr area"
    "try_map attachment_value (msg_attachments data) = Inr files"
    "map_transpose reply_to_value (msg_reply_to data) = Inr reply"
    and body: "body = (case msg_destination data of None \<Rightarrow> signed0
        | Some destination \<Rightarrow> push_identity signed0 DESTINATION destination)
       @ [assigned_tlv TIMESTAMP (encode_u64 (msg_timestamp data)),
          assigned_tlv TO_USER_NAME (msg_to_user data),
          assigned_tlv FROM_USER_NAME (msg_from_user data),
          assigned_tlv SUBJECT (msg_subject data),
          assigned_tlv MESSAGE_TEXT (msg_text data)] @ list_of_option area @ files
       @ opt_tlv LEGACY_ATTRIBUTES (map_option encode_u64 (msg_legacy_attributes data))
       @ opt_tlv TIMESTAMP_OFFSET (map_option encode_i64 (msg_timestamp_offset data))
       @ opt_tlv TEAR_LINE (msg_tear_line data)
       @ opt_tlv ORIGIN_LINE (msg_origin_line data)
       @ opt_tlv MESSAGE_ID (msg_message_id data)
       @ list_of_option reply
       @ opt_tlv ORIGINAL_CHARACTER_SET (msg_original_character_set data)"
    by (auto simp: message_signed_children_def result_simps Let_def)
  obtain av where av: "list_of_option area = opt_tlv AREA av" "area = map_option (assigned_tlv AREA) av"
    using area_value_opt [OF parts(2)] by blast
  obtain rv where rv: "list_of_option reply = opt_tlv REPLY_TO rv" "reply = map_option (assigned_tlv REPLY_TO) rv"
    using reply_value_opt [OF parts(4)] by blast
  note prov = push_provenance_eq [OF parts(1) assms(2)]
  have dest: "(case msg_destination data of None \<Rightarrow> signed0
        | Some destination \<Rightarrow> push_identity signed0 DESTINATION destination) =
      signed0 @ id_children DESTINATION (msg_destination data)"
    by (simp add: push_identity_eq id_children_def split: option.splits)
  have "body = message_layout (prov_origin prov) (origin_key_of prov s) (signed_origin_of prov s) data av files rv []"
    unfolding message_layout_def using body [unfolded dest av(1) rv(1)] prov(1) by simp
  with parts av(2) rv(2) prov(2) show ?thesis by (intro that [of av files rv]) auto
qed

lemma files_typed: "try_map attachment_value as = Inr files \<Longrightarrow> list_all (\<lambda>t. tlv_type t = FILE) files"
  by (rule try_map_list_all) (auto simp: attachment_value_def result_simps)

lemma files_read:
  assumes "try_map attachment_value as = Inr files" and "list_all attachment_text as"
    and "\<And>t. t \<in> set files \<Longrightarrow> length (tlv_value t) < vec_limit"
  shows "try_map read_attachment files = Inr as"
    and "try_map (\<lambda>file. validate_file C file False resolver) files = Inr (map (\<lambda>_. None) files)"
  using assms
  by (induction as arbitrary: files) (auto simp: and_then_eq_Inr attachment_read)

text \<open>The provenance the readers recover, when the resolver knows the signer and no better key.\<close>

definition provenance_known :: "key_resolver \<Rightarrow> item_provenance \<Rightarrow> identity \<Rightarrow> bool" where
  "provenance_known resolver prov s \<longleftrightarrow>
     prov_signer prov = Some s \<and> wf_identity s \<and> resolves resolver s \<and> wf_address (prov_origin prov) \<and>
     (prov_origin prov \<noteq> id_address s \<longrightarrow> resolver (prov_origin prov) = None)"

lemma signed_origin_read:
  assumes "wf_identity who" and "resolves resolver who"
  shows "and_then (parse_address (assigned_tlv SIGNED_ORIGIN (address_to_string (id_address who)))) (\<lambda>a.
      and_then (map_transpose parse_public_key (map_option (assigned_tlv PUBLIC_KEY) (identity_key who))) (\<lambda>_.
        Inr (x, y))) = Inr (x, y)"
  using assms by (simp add: parse_address_built wf_identity_def optional_key_ok identity_key_def parse_public_key_ok)

lemma parse_provenance_built:
  assumes "provenance_known resolver prov s"
    and "is_anonymous (prov_origin prov) \<longleftrightarrow> origin_key_of prov s \<noteq> None"
  shows "parse_provenance (assigned_tlv ORIGIN (address_to_string (prov_origin prov)))
    (map_option (assigned_tlv PUBLIC_KEY) (origin_key_of prov s))
    (map_option (\<lambda>who. (assigned_tlv SIGNED_ORIGIN (address_to_string (id_address who)),
         map_option (assigned_tlv PUBLIC_KEY) (identity_key who))) (signed_origin_of prov s)) resolver =
    Inr prov"
proof -
  have s: "prov_signer prov = Some s" "wf_identity s" "resolves resolver s" "wf_address (prov_origin prov)"
    "prov_origin prov \<noteq> id_address s \<Longrightarrow> resolver (prov_origin prov) = None"
    using assms(1) by (auto simp: provenance_known_def)
  have prov: "prov = \<lparr>prov_origin = prov_origin prov, prov_signer = Some s\<rparr>" using s(1) by (cases prov) simp
  show ?thesis
  proof (cases "prov_origin prov = id_address s")
    case True
    then show ?thesis using s prov
      by (auto simp: parse_provenance_def parse_address_built origin_key_of_def signed_origin_of_def
          identity_key_def parse_public_key_ok wf_identity_def resolves_def)
  next
    case False
    then have "\<not> is_anonymous (prov_origin prov)" using assms(2) by (simp add: origin_key_of_def)
    moreover have "parse_address (assigned_tlv SIGNED_ORIGIN (address_to_string (id_address s))) =
        Inr (id_address s)"
      using s(2) by (simp add: parse_address_built wf_identity_def)
    moreover have "map_transpose parse_public_key (map_option (assigned_tlv PUBLIC_KEY) (identity_key s)) =
        Inr (identity_key s)"
      using s(2) by (simp add: wf_identity_def identity_key_def parse_public_key_ok)
    ultimately show ?thesis using False s prov
      using parse_identity_built [OF s(2,3), of SIGNED_ORIGIN]
      by (simp add: parse_provenance_def parse_address_built origin_key_of_def signed_origin_of_def
          del: type_codes)
  qed
qed

lemma valid_cons: "unat b < 128 \<Longrightarrow> valid_utf8 s \<Longrightarrow> valid_utf8 (b # s)"
  using valid_utf8_append [of "[b]" s] valid_utf8_ascii [of "[b]"] by (simp add: ascii_def)

lemma valid_both: "valid_utf8 a \<Longrightarrow> valid_utf8 b \<Longrightarrow> valid_utf8 (a @ b)"
  by (simp add: valid_utf8_append)

lemma push_trimmed_valid:
  "valid_utf8 out \<Longrightarrow> wf_address a \<Longrightarrow> valid_utf8 (push_trimmed out prev a)"
  by (auto simp: push_trimmed_def append_after_zone_def append_after_net_def split: option.splits
      intro!: valid_both valid_cons address_to_string_valid valid_utf8_ascii [OF show_int_ascii]
        valid_utf8_ascii [OF show_nat_ascii])

lemma format_trimmed_loop_valid:
  "valid_utf8 out \<Longrightarrow> list_all wf_address as \<Longrightarrow> valid_utf8 (format_trimmed_loop out prev as)"
proof (induction as arbitrary: out prev)
  case (Cons a as)
  then have "valid_utf8 (if out \<noteq> [] then out @ [44] else out)"
    using valid_both [of out "[44]"] valid_cons [of 44 "[]"] by simp
  with Cons show ?case by (auto intro!: Cons.IH push_trimmed_valid)
qed simp

lemma seen_by_read:
  assumes "list_all trimmable as"
  shows "seen_by_addresses (assigned_tlv SEEN_BY (format_trimmed_collection as)) = Inr (sorted_list_of_set (set as))"
proof -
  have ss: "list_all trimmable (sorted_list_of_set (set as))" using assms by (simp add: list_all_iff)
  then have "valid_utf8 (format_trimmed_list (sorted_list_of_set (set as)))"
    unfolding format_trimmed_list_def by (intro format_trimmed_loop_valid) (auto simp: list_all_iff)
  moreover have "parse_trimmed_collection (format_trimmed_list (sorted_list_of_set (set as))) =
      Inr (sorted_list_of_set (set as))"
    using expand_format [OF ss] by (simp add: parse_trimmed_collection_def format_trimmed_collection_def sort_dedup)
  ultimately show ?thesis
    by (simp add: seen_by_addresses_def tlv_text_assigned format_trimmed_collection_def sort_dedup)
qed

lemma kludges_built:
  "try_map kludge_value ks = Inr ts \<Longrightarrow>
   ts = map (assigned_tlv ADDITIONAL_KLUDGE_LINE) ks \<and> list_all (\<lambda>k. 1 \<notin> set k) ks"
  by (induction ks arbitrary: ts) (auto simp: kludge_value_def result_simps split: if_splits)

text \<open>What a built message is read back as: the validated item and the message model.\<close>

definition item_of_message :: "message_data \<Rightarrow> item_provenance \<Rightarrow> identity \<Rightarrow> bytes \<Rightarrow> u64 \<Rightarrow> owned_tlv \<Rightarrow> validated_item" where
  "item_of_message data prov s signature identifier t =
    \<lparr>vi_kind = (if msg_destination data \<noteq> None then NetMail else EchoMail),
     vi_request_identifier = identifier,
     vi_duplicate_identity = Some \<lparr>sii_kind = SignedMessage, sii_signer = s, sii_signature = signature\<rparr>,
     vi_authentication = Some (if prov_origin prov = id_address s then OriginValid else SignedOriginValid),
     vi_response_to = None, vi_response_public_key = None, vi_rejection = None, vi_provenance = Some prov,
     vi_destination = msg_destination data, vi_area = map_option area_name (msg_area data), vi_raw = t\<rparr>"

lemma message_signature_built:
  assumes "crypto_ok C" and "provenance_known resolver prov s" and "id_key s = secret_public secret"
    and "is_anonymous (prov_origin prov) \<longleftrightarrow> origin_key_of prov s \<noteq> None"
    and "sign_tlv C region secret = Inr signature" and "encoded_prefix vs n = Inr region"
  shows "message_signature C resolver vs (assigned_tlv ORIGIN (address_to_string (prov_origin prov))) (prov_origin prov)
      (map_option (assigned_tlv PUBLIC_KEY) (origin_key_of prov s))
      (map_option (\<lambda>who. (assigned_tlv SIGNED_ORIGIN (address_to_string (id_address who)),
         map_option (assigned_tlv PUBLIC_KEY) (identity_key who))) (signed_origin_of prov s))
      (Some (n, assigned_tlv SIGNATURE signature)) =
    Inr (prov, if prov_origin prov = id_address s then OriginValid else SignedOriginValid,
      Some \<lparr>sii_kind = SignedMessage, sii_signer = s, sii_signature = signature\<rparr>)"
proof -
  have "prov_signer prov = Some s" using assms(2) by (simp add: provenance_known_def)
  moreover have "length signature = 64" "verify_tlv C region signature (id_key s) = Inr True"
    using assms(1,3,5) by (auto simp: crypto_ok_def)
  ultimately show ?thesis
    unfolding message_signature_def option.case case_prod_conv parse_provenance_built [OF assms(2,4)]
    using assms(6) by (simp add: parse_signature_def check_signature_def item_authentication_of_def)
qed

lemma map_transpose_option: "map_transpose f (map_option g v) = map_transpose (\<lambda>x. f (g x)) v"
  by (cases v) simp_all

lemma area_opt_read:
  assumes "map_transpose area_value a = Inr (map_option (assigned_tlv AREA) v)"
    and "\<And>b. v = Some b \<Longrightarrow> length b < vec_limit"
    and "\<forall>x. a = Some x \<longrightarrow> valid_utf8 (area_name x) \<and> opt_text (area_description x)"
  shows "map_transpose validate_area (map_option (assigned_tlv AREA) v) = Inr a"
  using assms by (cases a; cases v) (auto simp: result_simps opt_text_def intro!: area_value_read)

lemma reply_opt_read:
  assumes "map_transpose reply_to_value a = Inr (map_option (assigned_tlv REPLY_TO) v)"
    and "\<And>b. v = Some b \<Longrightarrow> length b < vec_limit"
    and "\<forall>x i. a = Some (x, i) \<longrightarrow> wf_address x \<and> valid_utf8 i"
  shows "map_transpose read_reply_to (map_option (assigned_tlv REPLY_TO) v) = Inr a"
  using assms by (cases a; cases v) (auto simp: result_simps intro!: reply_to_read)


definition message_seen :: "address list \<Rightarrow> bytes option" where
  "message_seen seen_by = (if seen_by = [] then None else Some (format_trimmed_collection seen_by))"

lemma message_built_parts:
  assumes built: "build_originated_message_for_delivery C data prov secret local_via identifier via_time software seen_by =
      Inr t"
    and fits: "length (tlv_value t) < vec_limit" and strs: "message_text data"
    and signer: "prov_signer prov = Some s"
    and suffix: "\<And>signature via. suffix signature via =
      suffix_layout signature identifier [via] (message_seen seen_by) (msg_additional_kludge_lines data)"
  obtains vs signature region via area files reply where
    "vs = message_layout (prov_origin prov) (origin_key_of prov s) (signed_origin_of prov s) data area files reply
       (suffix signature via)"
    and "children_of t = Inr vs" and "tlv_type t = MESSAGE" and "\<And>t. t \<in> set vs \<Longrightarrow> length (tlv_value t) < vec_limit"
    and "validate_originated_message_data data = Inr ()"
    and "sign_tlv C region secret = Inr signature"
    and "encoded_prefix vs (length vs - length (suffix signature via)) = Inr region"
    and "via_value local_via via_time software = Inr via"
    and "list_all (\<lambda>k. 1 \<notin> set k) (msg_additional_kludge_lines data)"
    and "map_transpose area_value (msg_area data) = Inr (map_option (assigned_tlv AREA) area)"
    and "try_map attachment_value (msg_attachments data) = Inr files"
    and "map_transpose reply_to_value (msg_reply_to data) = Inr (map_option (assigned_tlv REPLY_TO) reply)"
    and "is_anonymous (prov_origin prov) \<longleftrightarrow> origin_key_of prov s \<noteq> None"
proof -
  obtain body region signature via v ts where ok: "validate_originated_message_data data = Inr ()"
    and body: "message_signed_children data prov = Inr body" and region: "concatenate body = Inr region"
    and signature: "sign_tlv C region secret = Inr signature"
    and via: "via_value local_via via_time software = Inr via"
    and kludges: "try_map kludge_value (msg_additional_kludge_lines data) = Inr ts"
    and v: "concatenate (body @ assigned_tlv SIGNATURE signature #
        assigned_tlv REQUEST_IDENTIFIER (encode_u64 identifier) # via #
        list_of_option (seen_by_value seen_by) @ ts) = Inr v"
    and t: "t = assigned_tlv MESSAGE v"
    using built by (auto simp: build_originated_message_for_delivery_def finish_message_def result_simps)
  let ?vs = "body @ suffix signature via"
  have vs: "body @ assigned_tlv SIGNATURE signature #
        assigned_tlv REQUEST_IDENTIFIER (encode_u64 identifier) # via #
        list_of_option (seen_by_value seen_by) @ ts = ?vs"
    using kludges_built [OF kludges]
    by (simp add: suffix suffix_layout_def seen_by_value_def list_of_option_def opt_tlv_def message_seen_def)
  have v_fits: "length v < vec_limit" using fits t by simp
  from message_signed_layout [OF body signer] obtain area files reply where layout:
    "body = message_layout (prov_origin prov) (origin_key_of prov s) (signed_origin_of prov s) data area files reply []"
    and vals: "map_transpose area_value (msg_area data) = Inr (map_option (assigned_tlv AREA) area)"
      "try_map attachment_value (msg_attachments data) = Inr files"
      "map_transpose reply_to_value (msg_reply_to data) = Inr (map_option (assigned_tlv REPLY_TO) reply)"
    and anon: "is_anonymous (prov_origin prov) \<longleftrightarrow> origin_key_of prov s \<noteq> None"
    by metis
  have "?vs = message_layout (prov_origin prov) (origin_key_of prov s) (signed_origin_of prov s) data area files reply
      (suffix signature via)"
    using layout message_layout_append by metis
  moreover have "encoded_prefix ?vs (length ?vs - length (suffix signature via)) = Inr region"
    using region by (simp add: encoded_prefix_def)
  moreover have "list_all (\<lambda>k. 1 \<notin> set k) (msg_additional_kludge_lines data)" using kludges_built [OF kludges] by simp
  moreover have "tlv_type t = MESSAGE" using t by simp
  ultimately show ?thesis
    using that children_fit(3) [OF v [unfolded vs] v_fits] children_of_concatenate [OF v [unfolded vs] v_fits, of MESSAGE, folded t]
      ok signature via vals anon by blast
qed

lemma seen_by_opt_read:
  assumes "list_all trimmable seen_by"
  shows "map_transpose seen_by_addresses (map_option (assigned_tlv SEEN_BY) (message_seen seen_by)) =
      Inr (if seen_by = [] then None else Some (sorted_list_of_set (set seen_by)))"
    and "(case map_option (assigned_tlv SEEN_BY) (message_seen seen_by) of Some v \<Rightarrow> seen_by_addresses v | None \<Rightarrow> Inr []) =
      Inr (sorted_list_of_set (set seen_by))"
  using seen_by_read [OF assms] by (simp_all add: message_seen_def)

definition signing_of :: "item_provenance \<Rightarrow> identity \<Rightarrow> bytes \<Rightarrow> bytes \<Rightarrow> item_signing" where
  "signing_of prov s signature region =
     \<lparr>sign_origin = prov_origin prov, sign_origin_key = origin_key_of prov s,
      sign_signed_origin = map_option id_address (signed_origin_of prov s),
      sign_signed_origin_key = (case signed_origin_of prov s of None \<Rightarrow> None | Some who \<Rightarrow> identity_key who),
      sign_signature = Some signature, sign_region = region,
      sign_signed_origin_encoding = seq_bytes (id_children SIGNED_ORIGIN (signed_origin_of prov s))\<rparr>"

lemma message_built_read:
  assumes C: "crypto_ok C"
    and built: "build_originated_message_for_delivery C data prov secret local_via identifier via_time software seen_by =
      Inr t"
    and fits: "length (tlv_value t) < vec_limit" and strs: "message_text data"
    and dest: "\<And>who. msg_destination data = Some who \<Longrightarrow> wf_identity who \<and> resolves resolver who"
    and known: "provenance_known resolver prov s" and key: "id_key s = secret_public secret"
    and local: "wf_identity local_via" and sw: "valid_utf8 software" and seen: "list_all trimmable seen_by"
  shows "\<exists>signature region. sign_tlv C region secret = Inr signature \<and>
    validate_item C t resolver = Inr (Some (item_of_message data prov s signature identifier t)) \<and>
    read_message t resolver = Inr
      \<lparr>rm_data = data, rm_signing = signing_of prov s signature region,
       rm_request_identifier = identifier, rm_vias = [via_of local_via via_time software],
       rm_seen_by = sorted_list_of_set (set seen_by)\<rparr>"
proof -
  have signer: "prov_signer prov = Some s" "wf_identity s" "resolves resolver s" "wf_address (prov_origin prov)"
    using known by (simp_all add: provenance_known_def)
  let ?ks = "msg_additional_kludge_lines data"
  let ?suffix = "\<lambda>signature via. suffix_layout signature identifier [via] (message_seen seen_by) ?ks"
  obtain vs signature region via area files reply where
    vs: "vs = message_layout (prov_origin prov) (origin_key_of prov s) (signed_origin_of prov s) data area files reply
       (?suffix signature via)"
    and parsed: "children_of t = Inr vs" "tlv_type t = MESSAGE"
    and fit: "\<And>t. t \<in> set vs \<Longrightarrow> length (tlv_value t) < vec_limit"
    and ok: "validate_originated_message_data data = Inr ()"
    and signature: "sign_tlv C region secret = Inr signature"
    and prefix: "encoded_prefix vs (length vs - length (?suffix signature via)) = Inr region"
    and via: "via_value local_via via_time software = Inr via" and ctrl: "list_all (\<lambda>k. 1 \<notin> set k) ?ks"
    and area: "map_transpose area_value (msg_area data) = Inr (map_option (assigned_tlv AREA) area)"
    and files: "try_map attachment_value (msg_attachments data) = Inr files"
    and reply: "map_transpose reply_to_value (msg_reply_to data) = Inr (map_option (assigned_tlv REPLY_TO) reply)"
    and anon: "is_anonymous (prov_origin prov) \<longleftrightarrow> origin_key_of prov s \<noteq> None"
    by (rule message_built_parts [OF built fits strs signer(1) refl]) (rule that, (assumption | blast)+)
  have fit': "length b < vec_limit" if "assigned_tlv ty b \<in> set vs" for ty b using fit [OF that] by simp
  have area': "map_transpose validate_area (map_option (assigned_tlv AREA) area) = Inr (msg_area data)"
    using strs by (intro area_opt_read [OF area] fit') (auto simp: vs message_layout_def opt_tlv_def message_text_def)
  have reply': "map_transpose read_reply_to (map_option (assigned_tlv REPLY_TO) reply) = Inr (msg_reply_to data)"
    using strs by (intro reply_opt_read [OF reply] fit') (auto simp: vs message_layout_def opt_tlv_def message_text_def)
  have files': "try_map read_attachment files = Inr (msg_attachments data)"
    "try_map (\<lambda>file. validate_file C file False resolver) files = Inr (map (\<lambda>_. None) files)"
    using strs fit by (auto intro!: files_read [OF files] simp: message_text_def vs message_layout_def)
  have via_len: "length (tlv_value via) < vec_limit" by (rule fit) (simp add: vs message_layout_def suffix_layout_def)
  have via': "list_all (\<lambda>t. tlv_type t = VIA) [via]" "try_map read_via [via] = Inr [via_of local_via via_time software]"
    using via_read [OF via via_len local sw] via by (auto simp: via_value_def result_simps)
  have index: "length vs - Suc (length (tl (?suffix signature via))) = length vs - length (?suffix signature via)"
    by (simp add: suffix_layout_def)
  have sig: "length signature = 64" using C signature by (auto simp: crypto_ok_def)
  have so: "\<And>who. signed_origin_of prov s = Some who \<Longrightarrow> wf_identity who"
    using signer(2) by (auto simp: signed_origin_of_def split: if_splits)
  have okey: "\<And>k. origin_key_of prov s = Some k \<Longrightarrow> length k = 32"
    using signer(2) by (auto simp: origin_key_of_def identity_key_def wf_identity_def split: if_splits)
  have ks: "list_all valid_utf8 ?ks" using strs by (simp add: message_text_def)
  note msig = message_signature_built [OF C known key anon signature prefix, folded index]
  have "validate_message C t resolver = Inr (item_of_message data prov s signature identifier t)"
    unfolding item_of_message_def
    by (rule validate_layout [OF vs parsed(1) strs ok dest anon so signer(4) area' files_typed [OF files]
          files'(2) reply' via' _ seen_by_opt_read(1) [OF seen] ks ctrl msig]) simp_all
  moreover have "read_message t resolver = Inr
      \<lparr>rm_data = data, rm_signing = signing_of prov s signature region,
       rm_request_identifier = identifier, rm_vias = [via_of local_via via_time software],
       rm_seen_by = sorted_list_of_set (set seen_by)\<rparr>"
    unfolding signing_of_def
    by (rule read_layout [OF vs parsed strs dest anon okey so signer(4) area' files_typed [OF files]
          files'(1) reply' via' _ seen_by_opt_read(2) [OF seen] refl sig prefix]) simp_all
  ultimately show ?thesis using signature parsed(2) by (auto simp: validate_item_def)
qed


text \<open>
  C1.  Messages round-trip.  When \<open>build_originated_message_for_delivery\<close> builds a message for a
  signer whose secret key it holds, and the receiving side knows the signer (and no key of its own
  for an origin that is not the signer), \<open>validate_item\<close> accepts the value as NetMail or EchoMail
  with the destination, area, provenance and request identifier that were put in, reports the
  signature as verified for the origin or the signed origin as the case is, and \<open>read_message\<close>
  returns every field of the message, attachments included, the one Via of the sending system and
  the sorted, duplicate-free SeenBy list.
\<close>

theorem message_roundtrip:
  assumes "crypto_ok C"
    and "build_originated_message_for_delivery C data prov secret local_via identifier via_time software seen_by =
      Inr t"
    and "length (tlv_value t) < vec_limit" and "message_text data"
    and "\<And>who. msg_destination data = Some who \<Longrightarrow> wf_identity who \<and> resolves resolver who"
    and "provenance_known resolver prov s" and "id_key s = secret_public secret"
    and "wf_identity local_via" and "valid_utf8 software" and "list_all trimmable seen_by"
  shows "\<exists>signature region. sign_tlv C region secret = Inr signature \<and>
    validate_item C t resolver = Inr (Some (item_of_message data prov s signature identifier t)) \<and>
    read_message t resolver = Inr
      \<lparr>rm_data = data, rm_signing = signing_of prov s signature region,
       rm_request_identifier = identifier, rm_vias = [via_of local_via via_time software],
       rm_seen_by = sorted_list_of_set (set seen_by)\<rparr>"
  using assms by (rule message_built_read)

text \<open>A NetMail from a node to itself, with an attachment and a SeenBy list.\<close>

definition sample_message :: message_data where
  "sample_message =
     \<lparr>msg_destination = Some sample_identity, msg_timestamp = 5, msg_to_user = lit ''Ann'',
      msg_from_user = lit ''Bob'', msg_subject = lit ''hi'', msg_text = lit ''text'' @ [10], msg_area = None,
      msg_attachments =
        [\<lparr>att_filename = Some (lit ''a.txt''), att_timestamp = Some 3, att_contents = [1, 2],
          att_short_description = None, att_long_description_lines = [], att_tear_line = None,
          att_magic_word = None, att_replaces = None\<rparr>],
      msg_legacy_attributes = None, msg_timestamp_offset = Some (- 60), msg_tear_line = None,
      msg_origin_line = None, msg_message_id = Some (lit ''id''),
      msg_reply_to = Some (id_address sample_identity, lit ''r''), msg_original_character_set = None,
      msg_additional_kludge_lines = [lit ''K: v'']\<rparr>"

definition sample_provenance :: item_provenance where
  "sample_provenance = \<lparr>prov_origin = id_address sample_identity, prov_signer = Some sample_identity\<rparr>"

lemma sample_message_built:
  "\<exists>t. build_originated_message_for_delivery sample_crypto sample_message sample_provenance sample_secret
     sample_identity 9 8 (lit ''sw'') [id_address sample_identity] = Inr t \<and> length (tlv_value t) < vec_limit"
proof -
  have "case build_originated_message_for_delivery sample_crypto sample_message sample_provenance sample_secret
     sample_identity 9 8 (lit ''sw'') [id_address sample_identity] of Inr t \<Rightarrow> length (tlv_value t) < 1000 | Inl _ \<Rightarrow> False"
    by code_simp
  then show ?thesis by (auto simp: vec_limit_def split: sum.splits)
qed

lemma sample_message_ok:
  "message_text sample_message" "list_all trimmable [id_address sample_identity]" "valid_utf8 (lit ''sw'')"
  "provenance_known sample_resolver sample_provenance sample_identity"
proof -
  show "valid_utf8 (lit ''sw'')" by code_simp
  show trim: "list_all trimmable [id_address sample_identity]" by code_simp
  then show "provenance_known sample_resolver sample_provenance sample_identity"
    using sample_identity_wf sample_resolves by (simp add: provenance_known_def sample_provenance_def)
  show "message_text sample_message"
    using trim by (auto simp: message_text_def sample_message_def opt_text_def attachment_text_def i64_range_def ascii_def
        intro!: valid_utf8_ascii)
qed

theorem message_roundtrip_witness:
  "\<exists>t signature. build_originated_message_for_delivery sample_crypto sample_message sample_provenance sample_secret
      sample_identity 9 8 (lit ''sw'') [id_address sample_identity] = Inr t \<and>
    validate_item sample_crypto t sample_resolver =
      Inr (Some (item_of_message sample_message sample_provenance sample_identity signature 9 t))"
proof -
  obtain t where t: "build_originated_message_for_delivery sample_crypto sample_message sample_provenance sample_secret
      sample_identity 9 8 (lit ''sw'') [id_address sample_identity] = Inr t" "length (tlv_value t) < vec_limit"
    using sample_message_built by blast
  have dest: "msg_destination sample_message = Some who \<Longrightarrow> wf_identity who \<and> resolves sample_resolver who" for who
    using sample_identity_wf sample_resolves by (simp add: sample_message_def)
  from message_roundtrip [OF sample_crypto_ok t sample_message_ok(1) dest sample_message_ok(4) sample_identity_key
      sample_identity_wf sample_message_ok(3,2)] t(1)
  show ?thesis by blast
qed

lemma sample_message_valid:
  "\<exists>t signature. validate_item sample_crypto t sample_resolver =
      Inr (Some (item_of_message sample_message sample_provenance sample_identity signature 9 t))"
proof -
  obtain t where t: "build_originated_message_for_delivery sample_crypto sample_message sample_provenance sample_secret
      sample_identity 9 8 (lit ''sw'') [id_address sample_identity] = Inr t" "length (tlv_value t) < vec_limit"
    using sample_message_built by blast
  have dest: "msg_destination sample_message = Some who \<Longrightarrow> wf_identity who \<and> resolves sample_resolver who" for who
    using sample_identity_wf sample_resolves by (simp add: sample_message_def)
  from message_built_read [OF sample_crypto_ok t sample_message_ok(1) dest sample_message_ok(4) sample_identity_key
      sample_identity_wf sample_message_ok(3,2)]
  show ?thesis by blast
qed

end
