(* ===== verification/Item_Safety.thy ===== *)
theory Item_Safety
  imports Message_Roundtrip
begin

text \<open>
  What the validators guarantee of any input: they do not panic, and what they accept is what the
  rest of the program may rely on.  \<open>safe vs m Q\<close> is the weakest-precondition reading of a step:
  on a cursor over \<open>vs\<close> it does not panic, and when it returns \<open>x\<close> the cursor is still over
  \<open>vs\<close> and \<open>Q x\<close> holds.
\<close>

section \<open>The calculus\<close>

definition safe :: "owned_tlv list \<Rightarrow> 'a step \<Rightarrow> ('a \<Rightarrow> bool) \<Rightarrow> bool" where
  "safe vs m Q \<longleftrightarrow>
     (\<forall>c. cur_values c = vs \<longrightarrow>
        (case m c of Inl e \<Rightarrow> e \<noteq> Panicked | Inr (x, c') \<Rightarrow> cur_values c' = vs \<and> Q x))"

named_theorems safe_rules \<open>weakest preconditions of the cursor's steps\<close>

lemma safeI:
  assumes "\<And>c e. cur_values (c :: cursor) = vs \<Longrightarrow> m c = Inl e \<Longrightarrow> e \<noteq> Panicked"
    and "\<And>c x c'. cur_values (c :: cursor) = vs \<Longrightarrow> m c = Inr (x, c') \<Longrightarrow> cur_values c' = vs \<and> Q x"
  shows "safe vs m Q"
  unfolding safe_def
proof (intro allI impI)
  fix c :: cursor assume c: "cur_values c = vs"
  show "case m c of Inl e \<Rightarrow> e \<noteq> Panicked | Inr (x, c') \<Rightarrow> cur_values c' = vs \<and> Q x"
    using assms(1) [OF c] assms(2) [OF c] by (cases "m c") auto
qed

lemma safe_error: "safe vs m Q \<Longrightarrow> cur_values c = vs \<Longrightarrow> m c \<noteq> Inl Panicked"
  unfolding safe_def by fastforce

lemma safe_result:
  "safe vs m Q \<Longrightarrow> cur_values c = vs \<Longrightarrow> m c = Inr (x, c') \<Longrightarrow> cur_values c' = vs \<and> Q x"
  unfolding safe_def by fastforce

lemma safe_bind: "safe vs m (\<lambda>x. safe vs (k x) Q) \<Longrightarrow> safe vs (cbind m k) Q"
proof (rule safeI)
  fix c e assume "safe vs m (\<lambda>x. safe vs (k x) Q)" "cur_values c = vs" "cbind m k c = Inl e"
  then show "e \<noteq> Panicked"
    by (auto simp: cbind_def and_then_eq_Inl dest: safe_error safe_result)
next
  fix c x c' assume "safe vs m (\<lambda>x. safe vs (k x) Q)" "cur_values c = vs" "cbind m k c = Inr (x, c')"
  then show "cur_values c' = vs \<and> Q x"
    by (auto simp: cbind_def and_then_eq_Inr dest!: safe_result)
qed

lemma safe_return: "Q x \<Longrightarrow> safe vs (creturn x) Q"
  by (simp add: safe_def creturn_def)

lemma safe_lift: "r \<noteq> Inl Panicked \<Longrightarrow> (\<And>x. r = Inr x \<Longrightarrow> Q x) \<Longrightarrow> safe vs (clift r) Q"
  by (cases r) (auto simp: safe_def clift_def)

lemma safe_weaken: "safe vs m P \<Longrightarrow> (\<And>x. P x \<Longrightarrow> Q x) \<Longrightarrow> safe vs m Q"
  by (rule safeI) (auto dest: safe_error safe_result)

lemma next_defined_found:
  "next_defined c = (r, c') \<Longrightarrow> cur_values c' = cur_values c \<and>
     (\<forall>i t. r = Some (i, t) \<longrightarrow> i < length (cur_values c) \<and> cur_values c ! i = t)"
proof (induction c rule: next_defined.induct)
  case (1 c)
  show ?case
  proof (cases "nth_opt (cur_values c) (cur_index c)")
    case None
    with "1.prems" show ?thesis by (auto simp: next_defined.simps [of c])
  next
    case (Some v)
    then have v: "cur_index c < length (cur_values c)" "cur_values c ! cur_index c = v"
      by (auto simp: nth_opt_def split: if_splits)
    show ?thesis
    proof (cases "is_defined (tlv_type v)")
      case True
      with "1.prems" Some v show ?thesis by (auto simp: next_defined.simps [of c])
    next
      case False
      then have "next_defined (c\<lparr>cur_index := cur_index c + 1\<rparr>) = (r, c')"
        using "1.prems" Some by (simp add: next_defined.simps [of c])
      from "1.IH" [OF Some refl False this] show ?thesis by simp
    qed
  qed
qed

lemma safe_take [safe_rules]:
  "(\<And>t. t \<in> set vs \<Longrightarrow> tlv_type t = ty \<Longrightarrow> Q t) \<Longrightarrow> safe vs (ctake ty name) Q"
  unfolding safe_def ctake_def take_value_def
  by (auto dest!: next_defined_found split: prod.splits option.splits)

lemma optional_found:
  "optional_value ty c = (r, c') \<Longrightarrow> cur_values c' = cur_values c \<and>
     (\<forall>i t. r = Some (i, t) \<longrightarrow> i < length (cur_values c) \<and> cur_values c ! i = t \<and> tlv_type t = ty)"
  by (auto simp: optional_value_def peek_type_def dest!: next_defined_found split: if_splits)

lemma safe_opt_at [safe_rules]:
  assumes "Q None"
    and "\<And>i t. i < length vs \<Longrightarrow> vs ! i = t \<Longrightarrow> tlv_type t = ty \<Longrightarrow> Q (Some (i, t))"
  shows "safe vs (copt_at ty) Q"
proof (rule safeI)
  fix c x c' assume c: "cur_values c = vs" "copt_at ty c = Inr (x, c')"
  from optional_found [of ty c x c'] c assms show "cur_values c' = vs \<and> Q x"
    by (cases x) (auto simp: copt_at_def)
qed (simp add: copt_at_def)

lemma safe_opt [safe_rules]:
  assumes "Q None" and "\<And>t. t \<in> set vs \<Longrightarrow> tlv_type t = ty \<Longrightarrow> Q (Some t)"
  shows "safe vs (copt ty) Q"
proof (rule safeI)
  fix c x c' assume c: "cur_values c = vs" "copt ty c = Inr (x, c')"
  then obtain r where r: "optional_value ty c = (r, c')" "x = map_option snd r"
    by (auto simp: copt_def split: prod.splits)
  from optional_found [OF r(1)] c(1) r(2) assms show "cur_values c' = vs \<and> Q x"
    by (cases r) auto
qed (simp add: copt_def split: prod.splits)

lemma repeated_found:
  "repeated_values ty c = (ts, c') \<Longrightarrow> cur_values c' = cur_values c \<and>
     (\<forall>(i, t) \<in> set ts. t \<in> set (cur_values c) \<and> tlv_type t = ty)"
proof (induction ty c arbitrary: ts c' rule: repeated_values.induct)
  case (1 ty c)
  show ?case
  proof (cases "peek_type c = Some ty")
    case False
    with "1.prems" show ?thesis by (auto simp: repeated_values.simps [of ty c])
  next
    case True
    then obtain i t d where n: "next_defined c = (Some (i, t), d)" "tlv_type t = ty"
      by (cases "next_defined c") (auto simp: peek_type_def)
    obtain us d' where r: "repeated_values ty d = (us, d')" by fastforce
    have "cur_values d' = cur_values d \<and> (\<forall>(i, t) \<in> set us. t \<in> set (cur_values d) \<and> tlv_type t = ty)"
      by (rule "1.IH" [OF True n(1) [symmetric] refl r])
    moreover have "ts = (i, t) # us" "c' = d'"
      using "1.prems" True n r by (simp_all add: repeated_values.simps [of ty c])
    ultimately show ?thesis using next_defined_found [OF n(1)] n(2) by auto
  qed
qed

lemma safe_rep [safe_rules]:
  assumes "\<And>ts. set ts \<subseteq> set vs \<Longrightarrow> list_all (\<lambda>t. tlv_type t = ty) ts \<Longrightarrow> Q ts"
  shows "safe vs (crep ty) Q"
proof (rule safeI)
  fix c x c' assume c: "cur_values c = vs" "crep ty c = Inr (x, c')"
  then obtain ts where ts: "repeated_values ty c = (ts, c')" "x = map snd ts"
    by (auto simp: crep_def split: prod.splits)
  from repeated_found [OF ts(1)] have *: "cur_values c' = cur_values c"
    "\<forall>(i, t) \<in> set ts. t \<in> set (cur_values c) \<and> tlv_type t = ty" by blast+
  have "Q x" using *(2) c(1) ts(2) by (intro assms) (auto simp: list_all_iff)
  with * c(1) show "cur_values c' = vs \<and> Q x" by simp
qed (simp add: crep_def split: prod.splits)

lemma safe_finish [safe_rules]: "Q () \<Longrightarrow> safe vs cfinish Q"
  by (auto simp: safe_def cfinish_def cursor_finish_def)

lemma safe_key [safe_rules]:
  "(\<not> is_anonymous a \<Longrightarrow> Q None) \<Longrightarrow>
   (\<And>t. is_anonymous a \<Longrightarrow> t \<in> set vs \<Longrightarrow> tlv_type t = PUBLIC_KEY \<Longrightarrow> Q (Some t)) \<Longrightarrow>
   safe vs (conditional_public_key a) Q"
  unfolding safe_def conditional_public_key_def
  by (auto simp: nth_opt_def has_type_def Let_def split: if_splits)

lemma safe_if [safe_rules]:
  "(b \<Longrightarrow> safe vs m Q) \<Longrightarrow> (\<not> b \<Longrightarrow> safe vs n Q) \<Longrightarrow> safe vs (if b then m else n) Q"
  by simp

lemma run_step_safe:
  assumes "safe vs m Q"
  shows "run_step m vs \<noteq> Inl Panicked" and "run_step m vs = Inr x \<Longrightarrow> Q x"
  using safe_error [OF assms, of "cursor_new vs"] safe_result [OF assms, of "cursor_new vs"]
  by (auto simp: run_step_def cursor_new_def and_then_eq_Inl and_then_eq_Inr)

section \<open>Values and composite steps\<close>

named_theorems no_panic \<open>operations that do not panic\<close>

lemma no_panic_bind [no_panic]:
  "m \<noteq> Inl Panicked \<Longrightarrow> (\<And>x. m = Inr x \<Longrightarrow> f x \<noteq> Inl Panicked) \<Longrightarrow> and_then m f \<noteq> Inl Panicked"
  by (cases m) auto

lemma no_panic_ok_or [no_panic]: "e \<noteq> Panicked \<Longrightarrow> ok_or e v \<noteq> Inl Panicked"
  by (cases v) auto

lemma no_panic_map_err [no_panic]: "(\<And>e. f e \<noteq> Panicked) \<Longrightarrow> map_err f m \<noteq> Inl Panicked"
  by (cases m) auto

lemma no_panic_if [no_panic]:
  "(b \<Longrightarrow> m \<noteq> Inl Panicked) \<Longrightarrow> (\<not> b \<Longrightarrow> n \<noteq> Inl Panicked) \<Longrightarrow> (if b then m else n) \<noteq> Inl Panicked"
  by simp

lemma no_panic_Inr [no_panic]: "Inr x \<noteq> Inl Panicked"
  by simp

lemma no_panic_error [no_panic]: "e \<noteq> Panicked \<Longrightarrow> Inl e \<noteq> Inl Panicked"
  by simp

lemma no_panic_transpose [no_panic]:
  "(\<And>x. v = Some x \<Longrightarrow> f x \<noteq> Inl Panicked) \<Longrightarrow> map_transpose f v \<noteq> Inl Panicked"
  by (cases v) (auto simp: and_then_eq_Inl)

lemma no_panic_try_map [no_panic]:
  "(\<And>x. x \<in> set xs \<Longrightarrow> f x \<noteq> Inl Panicked) \<Longrightarrow> try_map f xs \<noteq> Inl Panicked"
  by (induction xs) (auto simp: and_then_eq_Inl)

lemma no_panic_value [no_panic]:
  "tlv_text t \<noteq> Inl Panicked" "parse_address t \<noteq> Inl Panicked" "parse_public_key t \<noteq> Inl Panicked"
  "parse_signature t \<noteq> Inl Panicked" "value_u64 t \<noteq> Inl Panicked" "value_i64 t \<noteq> Inl Panicked"
  "children_of t \<noteq> Inl Panicked" "take_encoded_tlv bs \<noteq> Inl Panicked"
  by (auto simp: tlv_text_def parse_address_def parse_public_key_def parse_signature_def value_u64_def
      value_i64_def children_of_def take_encoded_tlv_def Let_def and_then_eq_Inl map_err_eq_Inl split: if_splits)

lemma no_panic_identity [no_panic]: "parse_identity t key resolver \<noteq> Inl Panicked"
  unfolding parse_identity_def by (intro no_panic) auto

lemma no_panic_rules [no_panic]:
  "file_name_rule t \<noteq> Inl Panicked" "file_description what t \<noteq> Inl Panicked"
  "kludge_rule t \<noteq> Inl Panicked" "validate_message_text v \<noteq> Inl Panicked"
  "validate_legacy_attributes n \<noteq> Inl Panicked" "validate_timestamp_offset i \<noteq> Inl Panicked"
  "hash_value name t \<noteq> Inl Panicked" "seen_by_addresses t \<noteq> Inl Panicked"
  unfolding file_name_rule_def file_description_def kludge_rule_def validate_message_text_def
    validate_legacy_attributes_def validate_timestamp_offset_def hash_value_def seen_by_addresses_def
  by (intro no_panic; simp)+

lemma no_panic_case_prod [no_panic]:
  "(\<And>a b. p = (a, b) \<Longrightarrow> f a b \<noteq> Inl Panicked) \<Longrightarrow> (case p of (a, b) \<Rightarrow> f a b) \<noteq> Inl Panicked"
  by (cases p) auto

lemma no_panic_via [no_panic]: "read_via t \<noteq> Inl Panicked" "read_reply_to t \<noteq> Inl Panicked"
  unfolding read_via_def read_reply_to_def by (intro no_panic; simp)+

lemma safe_take_text [safe_rules]:
  "(\<And>v t. t \<in> set vs \<Longrightarrow> tlv_type t = ty \<Longrightarrow> tlv_text t = Inr v \<Longrightarrow> Q v) \<Longrightarrow> safe vs (ctake_text ty name) Q"
  unfolding ctake_text_def by (intro safe_bind safe_take safe_lift no_panic)

lemma safe_take_u64 [safe_rules]:
  "(\<And>v t. t \<in> set vs \<Longrightarrow> tlv_type t = ty \<Longrightarrow> value_u64 t = Inr v \<Longrightarrow> Q v) \<Longrightarrow> safe vs (ctake_u64 ty name) Q"
  unfolding ctake_u64_def by (intro safe_bind safe_take safe_lift no_panic)

lemma safe_opt_text [safe_rules]: "(\<And>v. Q v) \<Longrightarrow> safe vs (copt_text ty) Q"
  unfolding copt_text_def by (intro safe_bind safe_opt safe_lift no_panic)

lemma safe_opt_u64 [safe_rules]: "(\<And>v. Q v) \<Longrightarrow> safe vs (copt_u64 ty) Q"
  unfolding copt_u64_def by (intro safe_bind safe_opt safe_lift no_panic)

lemma safe_option [safe_rules]:
  "(v = None \<Longrightarrow> safe vs m Q) \<Longrightarrow> (\<And>x. v = Some x \<Longrightarrow> safe vs (k x) Q) \<Longrightarrow>
   safe vs (case v of None \<Rightarrow> m | Some x \<Rightarrow> k x) Q"
  by (cases v) auto

lemma safe_prod [safe_rules]:
  "(\<And>a b. p = (a, b) \<Longrightarrow> safe vs (k a b) Q) \<Longrightarrow> safe vs (case p of (a, b) \<Rightarrow> k a b) Q"
  by (cases p) auto

lemma safe_signed_origin [safe_rules]: "(\<And>v. Q v) \<Longrightarrow> safe vs opt_signed_origin Q"
  unfolding opt_signed_origin_def
  by (intro safe_bind safe_opt safe_option safe_lift safe_return safe_key no_panic) auto

lemma safe_destination [safe_rules]:
  assumes "\<And>v. Q v" shows "safe vs (opt_destination resolver) Q"
proof -
  have "safe vs (cbind (ctake DESTINATION ''Destination'') (\<lambda>t.
        cbind (clift (parse_address t)) (\<lambda>a.
        cbind (conditional_public_key a) (\<lambda>key.
        cbind (clift (parse_identity t key resolver)) (\<lambda>who.
        creturn (Some who)))))) Q"
    by (intro safe_bind safe_take safe_lift safe_return safe_key no_panic assms)
  then show ?thesis using assms by (auto simp: safe_def opt_destination_def creturn_def)
qed

text \<open>The request identifier an item carries, and what its kind says about its type.\<close>

definition carries_identifier :: "owned_tlv list \<Rightarrow> u64 \<Rightarrow> bool" where
  "carries_identifier ts i \<longleftrightarrow> (\<exists>c \<in> set ts. tlv_type c = REQUEST_IDENTIFIER \<and> value_u64 c = Inr i)"

section \<open>Authentication\<close>

text \<open>
  \<open>authentic\<close>: an item with a duplicate identity carries a Signature that verifies, under the key of
  the signer, over the exact encoding of the children before it; the signer is the one the
  resolver knows or an anonymous one with its key inline, it is the signer of the provenance, and
  the reported authentication says whether it is also the origin.  Without one the item is not
  reported as valid.
\<close>

definition authentic ::
    "crypto \<Rightarrow> key_resolver \<Rightarrow> owned_tlv list \<Rightarrow> item_provenance option \<Rightarrow> item_authentication option
     \<Rightarrow> signed_item_identity option \<Rightarrow> bool" where
  "authentic C resolver ts prov auth dup \<longleftrightarrow>
     (case dup of
        None \<Rightarrow> auth \<noteq> Some OriginValid \<and> auth \<noteq> Some SignedOriginValid
      | Some d \<Rightarrow>
          resolves resolver (sii_signer d) \<and>
          (\<exists>i < length ts. tlv_type (ts ! i) = SIGNATURE \<and> tlv_value (ts ! i) = sii_signature d \<and>
             length (sii_signature d) = 64 \<and>
             verify_tlv C (seq_bytes (take i ts)) (sii_signature d) (id_key (sii_signer d)) = Inr True) \<and>
          (\<exists>p. prov = Some p \<and> prov_signer p = Some (sii_signer d) \<and>
             auth = Some (if id_address (sii_signer d) = prov_origin p then OriginValid else SignedOriginValid)))"

lemma parse_identity_resolves: "parse_identity t key resolver = Inr who \<Longrightarrow> resolves resolver who"
  by (auto simp: parse_identity_def resolves_def result_simps split: if_splits)

lemma no_panic_provenance [no_panic]: "parse_provenance t key so resolver \<noteq> Inl Panicked"
  unfolding parse_provenance_def by (intro no_panic) (auto simp: no_panic split: option.splits intro!: no_panic)

lemma resolves_known [simp]:
  "resolver a = Some k \<Longrightarrow> resolves resolver \<lparr>id_address = a, id_key = k\<rparr>"
  "is_anonymous a \<Longrightarrow> resolves resolver \<lparr>id_address = a, id_key = k\<rparr>"
  by (simp_all add: resolves_def)

lemma parse_provenance_signer:
  "parse_provenance t key so resolver = Inr p \<Longrightarrow>
   \<exists>s. prov_signer p = Some s \<and> resolves resolver s"
  by (auto simp: parse_provenance_def result_simps split: if_splits option.splits)
    (erule parse_identity_resolves)+

lemma authentic_signed:
  assumes "resolves resolver s" and "prov_signer p = Some s" and "i < length ts"
    and "tlv_type (ts ! i) = SIGNATURE" and "tlv_value (ts ! i) = sig" and "length sig = 64"
    and "verify_tlv C (seq_bytes (take i ts)) sig (id_key s) = Inr ok"
  shows "authentic C resolver ts (Some p)
    (Some (if id_address s = prov_origin p then (if ok then OriginValid else OriginInvalid)
           else (if ok then SignedOriginValid else SignedOriginInvalid)))
    (if ok then Some \<lparr>sii_kind = kind, sii_signer = s, sii_signature = sig\<rparr> else None)"
  using assms by (auto simp: authentic_def)

lemma encoded_prefix_parsed:
  "list_all wf_tlv ts \<Longrightarrow> i \<le> length ts \<Longrightarrow> encoded_prefix ts i = Inr (seq_bytes (take i ts))"
  by (auto simp: encoded_prefix_def concatenate_eq list_all_iff wf_tlv_def dest: in_set_takeD)

lemma check_signature_eq:
  assumes "list_all wf_tlv ts" and "i < length ts" and "prov_signer p = Some s"
  shows "check_signature C ts p i sig =
    and_then (map_err BCrypto (verify_tlv C (seq_bytes (take i ts)) sig (id_key s))) (\<lambda>ok.
    Inr (s, if id_address s = prov_origin p then (if ok then OriginValid else OriginInvalid)
            else (if ok then SignedOriginValid else SignedOriginInvalid), ok))"
  using assms
  by (simp add: check_signature_def item_authentication_of_def encoded_prefix_parsed)

lemma message_signature_ok:
  assumes "list_all wf_tlv ts"
    and "\<And>i st. entry = Some (i, st) \<Longrightarrow> i < length ts \<and> ts ! i = st \<and> tlv_type st = SIGNATURE"
  shows "message_signature C resolver ts ot oa ok so entry \<noteq> Inl Panicked"
    and "message_signature C resolver ts ot oa ok so entry = Inr (p, auth, dup) \<Longrightarrow>
      authentic C resolver ts (Some p) (Some auth) dup"
proof -
  have *: "message_signature C resolver ts ot oa ok so entry \<noteq> Inl Panicked \<and>
    (\<forall>p auth dup. message_signature C resolver ts ot oa ok so entry = Inr (p, auth, dup) \<longrightarrow>
      authentic C resolver ts (Some p) (Some auth) dup)"
  proof (cases entry)
    case None
    then show ?thesis by (auto simp: message_signature_def authentic_def)
  next
    case (Some e)
    then obtain i st where e: "entry = Some (i, st)" by (cases e) auto
    with assms(2) have i: "i < length ts" "ts ! i = st" "tlv_type st = SIGNATURE" by auto
    show ?thesis
    proof (cases "parse_provenance ot ok so resolver")
      case (Inl err)
      then show ?thesis using no_panic_provenance [of ot ok so resolver] e
        by (auto simp: message_signature_def)
    next
      case (Inr q)
      from parse_provenance_signer [OF this] obtain s where s: "prov_signer q = Some s" "resolves resolver s"
        by blast
      note auth = authentic_signed [OF s(2) s(1) i(1), of "tlv_value st" C _ SignedMessage]
      show ?thesis
        using e Inr i auth
        by (cases "verify_tlv C (seq_bytes (take i ts)) (tlv_value st) (id_key s)")
          (auto simp: message_signature_def check_signature_eq [OF assms(1) i(1) s(1)] parse_signature_def)
    qed
  qed
  then show "message_signature C resolver ts ot oa ok so entry \<noteq> Inl Panicked"
    and "message_signature C resolver ts ot oa ok so entry = Inr (p, auth, dup) \<Longrightarrow>
      authentic C resolver ts (Some p) (Some auth) dup" by blast+
qed

section \<open>The validators\<close>

text \<open>The wire type of each kind of item, and which fields each kind has.\<close>

fun kind_type :: "item_kind \<Rightarrow> u64" where
  "kind_type NetMail = MESSAGE"
| "kind_type EchoMail = MESSAGE"
| "kind_type FileItem = FILE"
| "kind_type FileRequest = FILE_REQUEST"
| "kind_type Accepted = ACCEPTED"
| "kind_type Rejected = REJECTED"
| "kind_type PollMessages = POLL_MESSAGES"
| "kind_type PollFiles = POLL_FILES"
| "kind_type PollFileRequests = POLL_FILE_REQUESTS"
| "kind_type PublicKeyRequest = PUBLIC_KEY_REQUEST"

definition item_shape :: "validated_item \<Rightarrow> bool" where
  "item_shape v \<longleftrightarrow>
     (vi_destination v \<noteq> None \<longleftrightarrow> vi_kind v = NetMail) \<and>
     (vi_kind v = EchoMail \<longrightarrow> vi_area v \<noteq> None) \<and>
     (vi_area v \<noteq> None \<longrightarrow> vi_kind v \<in> {EchoMail, FileItem}) \<and>
     (vi_provenance v \<noteq> None \<longleftrightarrow> vi_kind v \<in> {NetMail, EchoMail, FileItem}) \<and>
     (vi_response_to v \<noteq> None \<longleftrightarrow> vi_kind v \<in> {Accepted, Rejected}) \<and>
     (\<forall>h. vi_response_to v = Some h \<longrightarrow> length h = 32) \<and>
     (vi_rejection v \<noteq> None \<longleftrightarrow> vi_kind v = Rejected) \<and>
     (vi_response_public_key v \<noteq> None \<longrightarrow> vi_kind v = Accepted)"

definition item_sound :: "crypto \<Rightarrow> key_resolver \<Rightarrow> owned_tlv \<Rightarrow> owned_tlv list \<Rightarrow> validated_item \<Rightarrow> bool" where
  "item_sound C resolver t ts v \<longleftrightarrow>
     vi_raw v = t \<and> item_shape v \<and> carries_identifier ts (vi_request_identifier v) \<and>
     authentic C resolver ts (vi_provenance v) (vi_authentication v) (vi_duplicate_identity v)"

lemma authentic_None [simp]: "authentic C resolver ts prov None None"
  by (simp add: authentic_def)

text \<open>A function of an item that does not panic and whose results satisfy \<open>Q\<close> on the item's children.\<close>

definition guards :: "owned_tlv \<Rightarrow> bundle_error + 'a \<Rightarrow> (owned_tlv list \<Rightarrow> 'a \<Rightarrow> bool) \<Rightarrow> bool" where
  "guards t r Q \<longleftrightarrow>
     r \<noteq> Inl Panicked \<and> (\<forall>v. r = Inr v \<longrightarrow> (\<exists>ts. children_of t = Inr ts \<and> Q ts v))"

lemma reader_guards:
  assumes "\<And>ts. children_of t = Inr ts \<Longrightarrow> list_all wf_tlv ts \<Longrightarrow> safe ts (m ts) (Q ts)"
  shows "guards t (and_then (children_of t) (\<lambda>ts. run_step (m ts) ts)) Q"
proof (cases "children_of t")
  case (Inl e)
  then show ?thesis using no_panic_value(7) [of t] by (auto simp: guards_def)
next
  case (Inr ts)
  then have "list_all wf_tlv ts" using parse_sequence_canonical by (auto simp: children_of_def result_simps)
  from run_step_safe [OF assms [OF Inr this]] Inr show ?thesis by (auto simp: guards_def)
qed

lemma guards_weaken: "guards t r P \<Longrightarrow> (\<And>ts v. P ts v \<Longrightarrow> Q ts v) \<Longrightarrow> guards t r Q"
  by (auto simp: guards_def)

lemma guards_map: "guards t r (\<lambda>ts v. Q ts (f v)) \<Longrightarrow> guards t (and_then r (\<lambda>v. Inr (f v))) Q"
  by (cases r) (auto simp: guards_def)

lemmas item_facts = item_sound_def item_shape_def plain_item_def carries_identifier_def

lemma simple_request_guards:
  assumes "kind \<in> {PollMessages, PollFiles, PollFileRequests, PublicKeyRequest}"
  shows "guards t (simple_request t kind) (\<lambda>ts v. item_sound C resolver t ts v \<and> vi_kind v = kind)"
  unfolding simple_request_def
  by (rule reader_guards, intro safe_bind safe_rules safe_return) (use assms in \<open>auto simp: item_facts\<close>)

lemma validate_accepted_guards:
  "guards t (validate_accepted t) (\<lambda>ts v. item_sound C resolver t ts v \<and> vi_kind v = Accepted)"
  unfolding validate_accepted_def
  by (rule reader_guards, intro safe_bind safe_rules safe_return safe_lift no_panic)
    (auto simp: item_facts hash_value_def split: if_splits)

lemma validate_rejected_guards:
  "guards t (validate_rejected t) (\<lambda>ts v. item_sound C resolver t ts v \<and> vi_kind v = Rejected)"
  unfolding validate_rejected_def
  by (rule reader_guards, intro safe_bind safe_rules safe_return safe_lift no_panic)
    (auto simp: item_facts hash_value_def split: if_splits)

lemma validate_file_request_guards:
  "guards t (validate_file_request t) (\<lambda>ts v. item_sound C resolver t ts v \<and> vi_kind v = FileRequest)"
  unfolding validate_file_request_def
  by (rule reader_guards, intro safe_bind safe_rules safe_return safe_lift no_panic)
    (auto simp: item_facts authentic_def split: if_splits)

lemma validate_area_safe [no_panic]: "validate_area t \<noteq> Inl Panicked"
proof -
  have "guards t (validate_area t) (\<lambda>_ _. True)"
    unfolding validate_area_def by (rule reader_guards, intro safe_bind safe_rules safe_return TrueI)
  then show ?thesis by (simp add: guards_def)
qed

text \<open>Rules for the long validators, which keep one continuation where the value is optional.\<close>

lemma safe_opt_any: "(\<And>v. Q v) \<Longrightarrow> safe vs (copt ty) Q"
  by (rule safe_opt)

lemma safe_opt_at_any:
  assumes "\<And>v. (\<And>i t. v = Some (i, t) \<Longrightarrow> i < length vs \<and> vs ! i = t \<and> tlv_type t = ty) \<Longrightarrow> Q v"
  shows "safe vs (copt_at ty) Q"
proof (rule safe_opt_at)
  show "Q None" by (rule assms) simp
  show "Q (Some (i, t))" if "i < length vs" "vs ! i = t" "tlv_type t = ty" for i t
    by (rule assms) (use that in simp)
qed

lemma safe_key_any: "(\<And>v. Q v) \<Longrightarrow> safe vs (conditional_public_key a) Q"
  by (rule safe_key)

lemma safe_file_provenance [safe_rules]:
  "(\<And>p. standalone \<longrightarrow> p \<noteq> None \<Longrightarrow> Q p) \<Longrightarrow> safe vs (file_provenance_parts standalone) Q"
  unfolding file_provenance_parts_def
  by (intro safe_bind safe_opt safe_option safe_if safe_lift safe_return safe_key safe_signed_origin no_panic) auto

lemma file_signature_ok:
  assumes "list_all wf_tlv ts"
    and "\<And>i st. entry = Some (i, st) \<Longrightarrow> i < length ts \<and> ts ! i = st \<and> tlv_type st = SIGNATURE \<and> parts \<noteq> None"
  shows "file_signature C resolver ts parts entry \<noteq> Inl Panicked"
    and "file_signature C resolver ts parts entry = Inr (prov, auth, sig) \<Longrightarrow>
      (prov \<noteq> None \<longleftrightarrow> parts \<noteq> None) \<and> file_duplicate prov sig \<noteq> Inl Panicked \<and>
      (\<forall>dup. file_duplicate prov sig = Inr dup \<longrightarrow> authentic C resolver ts prov auth dup)"
proof -
  have *: "file_signature C resolver ts parts entry \<noteq> Inl Panicked \<and>
    (\<forall>prov auth sig. file_signature C resolver ts parts entry = Inr (prov, auth, sig) \<longrightarrow>
      (prov \<noteq> None \<longleftrightarrow> parts \<noteq> None) \<and> file_duplicate prov sig \<noteq> Inl Panicked \<and>
      (\<forall>dup. file_duplicate prov sig = Inr dup \<longrightarrow> authentic C resolver ts prov auth dup))"
  proof (cases entry)
    case None
    then show ?thesis
      by (cases parts) (auto simp: file_signature_def file_duplicate_def authentic_def split: if_splits)
  next
    case (Some e)
    then obtain i st where e: "entry = Some (i, st)" by (cases e) auto
    with assms(2) have i: "i < length ts" "ts ! i = st" "tlv_type st = SIGNATURE" by auto
    obtain ot oa ok so where parts: "parts = Some (ot, oa, ok, so)" using assms(2) [OF e] by auto
    show ?thesis
    proof (cases "parse_provenance ot ok so resolver")
      case (Inl err)
      then show ?thesis using no_panic_provenance [of ot ok so resolver] e parts
        by (auto simp: file_signature_def parse_signature_def split: if_splits)
    next
      case (Inr q)
      from parse_provenance_signer [OF this] obtain s where s: "prov_signer q = Some s" "resolves resolver s"
        by blast
      note auth = authentic_signed [OF s(2) s(1) i(1), of "tlv_value st" C _ SignedFile]
      show ?thesis
      proof (cases "verify_tlv C (seq_bytes (take i ts)) (tlv_value st) (id_key s)")
        case (Inl a)
        then show ?thesis using e Inr i parts
          by (auto simp: file_signature_def check_signature_eq [OF assms(1) i(1) s(1)] parse_signature_def)
      next
        case (Inr ok)
        with auth [of ok] show ?thesis using e \<open>parse_provenance _ _ _ _ = Inr q\<close> i parts s(1)
          by (cases ok)
            (auto simp: file_signature_def check_signature_eq [OF assms(1) i(1) s(1)] parse_signature_def
              file_duplicate_def)
      qed
    qed
  qed
  then show "file_signature C resolver ts parts entry \<noteq> Inl Panicked"
    and "file_signature C resolver ts parts entry = Inr (prov, auth, sig) \<Longrightarrow>
      (prov \<noteq> None \<longleftrightarrow> parts \<noteq> None) \<and> file_duplicate prov sig \<noteq> Inl Panicked \<and>
      (\<forall>dup. file_duplicate prov sig = Inr dup \<longrightarrow> authentic C resolver ts prov auth dup)" by blast+
qed

lemma safe_lift_file_signature:
  assumes "list_all wf_tlv ts"
    and "\<And>i st. entry = Some (i, st) \<Longrightarrow> i < length ts \<and> ts ! i = st \<and> tlv_type st = SIGNATURE \<and> parts \<noteq> None"
    and "\<And>prov auth sig. (prov \<noteq> None \<longleftrightarrow> parts \<noteq> None) \<Longrightarrow> file_duplicate prov sig \<noteq> Inl Panicked \<Longrightarrow>
      (\<And>dup. file_duplicate prov sig = Inr dup \<Longrightarrow> authentic C resolver ts prov auth dup) \<Longrightarrow>
      Q (prov, auth, sig)"
  shows "safe vs (clift (file_signature C resolver ts parts entry)) Q"
proof (rule safe_lift)
  show "file_signature C resolver ts parts entry \<noteq> Inl Panicked"
    by (rule file_signature_ok(1) [OF assms(1)]) (rule assms(2))
  fix x assume x: "file_signature C resolver ts parts entry = Inr x"
  obtain prov auth sig where [simp]: "x = (prov, auth, sig)" by (cases x) auto
  have "(prov \<noteq> None \<longleftrightarrow> parts \<noteq> None) \<and> file_duplicate prov sig \<noteq> Inl Panicked \<and>
      (\<forall>dup. file_duplicate prov sig = Inr dup \<longrightarrow> authentic C resolver ts prov auth dup)"
    by (rule file_signature_ok(2) [OF assms(1)]) (use assms(2) x in auto)
  then show "Q x" by (auto intro!: assms(3))
qed

lemma safe_file_identifier [safe_rules]:
  assumes "\<And>r. standalone \<longleftrightarrow> r \<noteq> None \<Longrightarrow> \<forall>i. r = Some i \<longrightarrow> carries_identifier vs i \<Longrightarrow> Q r"
  shows "safe vs (if standalone
      then cbind (ctake_u64 REQUEST_IDENTIFIER ''File RequestIdentifier'') (\<lambda>i. creturn (Some i))
      else creturn None) Q"
  using assms by (intro safe_if safe_bind safe_take_u64 safe_return) (auto simp: carries_identifier_def)

text \<open>An attached file has no Signature, so the \<open>expect\<close> on its provenance is not reached.\<close>

lemma signature_has_provenance:
  assumes "(if \<not> standalone \<and> attached_provenance ts then Inl e else Inr ()) = Inr u"
    and "standalone \<longrightarrow> p \<noteq> None"
    and "\<And>i t. v = Some (i, t) \<Longrightarrow> i < length ts \<and> ts ! i = t \<and> tlv_type t = SIGNATURE"
    and "v = Some (i, st)"
  shows "i < length ts \<and> ts ! i = st \<and> tlv_type st = SIGNATURE \<and> p \<noteq> None"
  using assms(3) [OF assms(4)] assms(1,2)
  by (auto simp: attached_provenance_def list_ex_iff dest: nth_mem split: if_splits)

lemma validate_file_guards:
  "guards t (validate_file C t standalone resolver) (\<lambda>ts r.
     case r of None \<Rightarrow> \<not> standalone
     | Some v \<Rightarrow> standalone \<and> item_sound C resolver t ts v \<and> vi_kind v = FileItem)"
  unfolding validate_file_def
  by (rule reader_guards,
      (rule safe_bind safe_lift_file_signature safe_file_identifier safe_opt_any safe_lift no_panic
         safe_take safe_opt_text safe_rep safe_file_provenance safe_opt_at_any safe_prod safe_return
         safe_finish safe_option
       | assumption | (rule signature_has_provenance, assumption+) | simp; fail)+)
    (simp add: item_facts)

lemma no_panic_file [no_panic]: "validate_file C t standalone resolver \<noteq> Inl Panicked"
  using validate_file_guards [of t C standalone resolver] by (simp add: guards_def)

lemma safe_lift_message_signature:
  assumes "list_all wf_tlv ts"
    and "\<And>i st. entry = Some (i, st) \<Longrightarrow> i < length ts \<and> ts ! i = st \<and> tlv_type st = SIGNATURE"
    and "\<And>r. authentic C resolver ts (Some (fst r)) (Some (fst (snd r))) (snd (snd r)) \<Longrightarrow> Q r"
  shows "safe vs (clift (message_signature C resolver ts ot oa ok so entry)) Q"
proof (rule safe_lift)
  show "message_signature C resolver ts ot oa ok so entry \<noteq> Inl Panicked"
    by (rule message_signature_ok(1) [OF assms(1)]) (rule assms(2))
  fix x assume x: "message_signature C resolver ts ot oa ok so entry = Inr x"
  have "authentic C resolver ts (Some (fst x)) (Some (fst (snd x))) (snd (snd x))"
    by (rule message_signature_ok(2) [OF assms(1)]) (use assms(2) x in auto)
  then show "Q x" by (rule assms(3))
qed

lemma safe_take_identifier:
  "(\<And>i. carries_identifier vs i \<Longrightarrow> Q i) \<Longrightarrow> safe vs (ctake_u64 REQUEST_IDENTIFIER name) Q"
  by (rule safe_take_u64) (auto simp: carries_identifier_def)

lemma message_reader_guards:
  assumes "\<And>ts. children_of t = Inr ts \<Longrightarrow> list_all wf_tlv ts \<Longrightarrow> safe ts (m ts) (Q ts)"
    and "\<And>ts. e ts \<noteq> Panicked"
  shows "guards t (and_then (children_of t) (\<lambda>ts. if b ts then Inl (e ts) else run_step (m ts) ts)) Q"
  using reader_guards [of t m Q, OF assms(1)] assms(2)
  by (cases "children_of t") (auto simp: guards_def)

lemma validate_message_guards:
  "guards t (validate_message C t resolver) (\<lambda>ts v.
     item_sound C resolver t ts v \<and> (vi_kind v = NetMail \<or> vi_kind v = EchoMail))"
  unfolding validate_message_def
  by (rule message_reader_guards,
      (rule safe_bind safe_lift_message_signature safe_take_identifier safe_opt_any safe_lift no_panic
         safe_take safe_take_text safe_take_u64 safe_opt_text safe_rep safe_opt_at_any safe_return
         safe_finish safe_option safe_key_any safe_signed_origin safe_destination
       | assumption | simp; fail)+)
    (auto simp: item_facts split: if_splits)

definition item_result ::
    "crypto \<Rightarrow> key_resolver \<Rightarrow> owned_tlv \<Rightarrow> owned_tlv list \<Rightarrow> validated_item option \<Rightarrow> bool" where
  "item_result C resolver t ts r \<longleftrightarrow>
     (case r of None \<Rightarrow> False | Some v \<Rightarrow> item_sound C resolver t ts v \<and> kind_type (vi_kind v) = tlv_type t)"

lemma guards_item:
  assumes "guards t r (\<lambda>ts v. item_sound C resolver t ts v \<and> P v)"
    and "\<And>v. P v \<Longrightarrow> kind_type (vi_kind v) = tlv_type t"
  shows "guards t (and_then r (\<lambda>v. Inr (Some v))) (item_result C resolver t)"
  using assms by (intro guards_map) (auto simp: guards_def item_result_def)

lemma validate_item_guards:
  assumes "is_request (tlv_type t) \<or> tlv_type t = ACCEPTED \<or> tlv_type t = REJECTED"
  shows "guards t (validate_item C t resolver) (item_result C resolver t)"
proof -
  have fil: "tlv_type t = FILE \<Longrightarrow> guards t (validate_file C t True resolver) (item_result C resolver t)"
    by (rule guards_weaken [OF validate_file_guards]) (auto simp: item_result_def split: option.splits)
  have poll: "kind_type k = tlv_type t \<Longrightarrow> k \<in> {PollMessages, PollFiles, PollFileRequests, PublicKeyRequest} \<Longrightarrow>
      guards t (and_then (simple_request t k) (\<lambda>v. Inr (Some v))) (item_result C resolver t)" for k
    by (rule guards_item [OF simple_request_guards]) auto
  have msg: "tlv_type t = MESSAGE \<Longrightarrow>
      guards t (and_then (validate_message C t resolver) (\<lambda>v. Inr (Some v))) (item_result C resolver t)"
    by (rule guards_item [OF validate_message_guards]) auto
  have req: "tlv_type t = FILE_REQUEST \<Longrightarrow>
      guards t (and_then (validate_file_request t) (\<lambda>v. Inr (Some v))) (item_result C resolver t)"
    by (rule guards_item [OF validate_file_request_guards]) auto
  have acc: "tlv_type t = ACCEPTED \<Longrightarrow>
      guards t (and_then (validate_accepted t) (\<lambda>v. Inr (Some v))) (item_result C resolver t)"
    by (rule guards_item [OF validate_accepted_guards]) auto
  have rej: "tlv_type t = REJECTED \<Longrightarrow>
      guards t (and_then (validate_rejected t) (\<lambda>v. Inr (Some v))) (item_result C resolver t)"
    by (rule guards_item [OF validate_rejected_guards]) auto
  show ?thesis
    using assms fil msg req acc rej poll [of PollMessages] poll [of PollFiles] poll [of PollFileRequests]
      poll [of PublicKeyRequest]
    by (auto simp: validate_item_def is_request_def validate_response_def validate_public_key_request_def)
qed

lemma validate_item_other:
  "\<not> is_request (tlv_type t) \<Longrightarrow> tlv_type t \<noteq> ACCEPTED \<Longrightarrow> tlv_type t \<noteq> REJECTED \<Longrightarrow>
   validate_item C t resolver = Inr None \<or>
   validate_item C t resolver = Inl (Unexpected ''Rejected child outside Rejected'')"
  by (auto simp: validate_item_def is_request_def)

lemma validate_item_Some:
  assumes "validate_item C t resolver = Inr (Some v)"
  obtains ts where "children_of t = Inr ts" and "item_sound C resolver t ts v"
    and "kind_type (vi_kind v) = tlv_type t"
    and "is_request (tlv_type t) \<or> tlv_type t = ACCEPTED \<or> tlv_type t = REJECTED"
proof -
  have *: "is_request (tlv_type t) \<or> tlv_type t = ACCEPTED \<or> tlv_type t = REJECTED"
    using validate_item_other [of t C resolver] assms by auto
  from validate_item_guards [OF this, of C resolver] assms that * show ?thesis
    by (auto simp: guards_def item_result_def)
qed

text \<open>
  C30.  Validation never panics.  Whatever the bytes of an item, \<open>validate_item\<close> returns: none of the
  \<open>expect\<close> calls on the provenance, the signer, the signed region or the duplicate identity can
  fail.  A value of a request or response type is never passed over: it is validated or refused.
\<close>

theorem validate_item_no_panic:
  "validate_item C t resolver \<noteq> Inl Panicked \<and>
   (is_request (tlv_type t) \<or> tlv_type t = ACCEPTED \<or> tlv_type t = REJECTED \<longrightarrow>
      validate_item C t resolver \<noteq> Inr None)"
proof (cases "is_request (tlv_type t) \<or> tlv_type t = ACCEPTED \<or> tlv_type t = REJECTED")
  case True
  with validate_item_guards [OF True, of C resolver] show ?thesis by (auto simp: guards_def item_result_def)
next
  case False
  with validate_item_other [of t C resolver] show ?thesis by auto
qed

text \<open>A poll is validated, not passed over.\<close>

theorem validate_item_no_panic_witness:
  "validate_item sample_crypto \<lparr>tlv_type = POLL_FILES, tlv_value = []\<rparr> sample_resolver \<noteq> Inr None"
  using validate_item_no_panic [of sample_crypto "\<lparr>tlv_type = POLL_FILES, tlv_value = []\<rparr>" sample_resolver]
  by (simp add: is_request_def)

text \<open>
  C25.  Validated items are well formed.  An item that \<open>validate_item\<close> returns is the value it was
  given, its kind is that of the value's type, and its fields are those of its kind: a destination
  exactly for NetMail, an area for EchoMail and otherwise at most for a File, provenance exactly
  for messages and files, a 32-byte hash exactly for responses, a rejection exactly for Rejected,
  a response key at most for Accepted; and the request identifier is that of a RequestIdentifier
  child.
\<close>

theorem validated_item_shape:
  assumes "validate_item C t resolver = Inr (Some v)"
  shows "vi_raw v = t \<and> kind_type (vi_kind v) = tlv_type t \<and> item_shape v \<and>
    (\<exists>ts. children_of t = Inr ts \<and> carries_identifier ts (vi_request_identifier v))"
  using validate_item_Some [OF assms] by (metis item_sound_def)

text \<open>The sample NetMail has the shape of its kind.\<close>

theorem validated_item_shape_witness:
  "\<exists>t v. validate_item sample_crypto t sample_resolver = Inr (Some v) \<and> vi_raw v = t \<and>
     kind_type (vi_kind v) = tlv_type t \<and> item_shape v"
proof -
  obtain t v where "validate_item sample_crypto t sample_resolver = Inr (Some v)"
    using sample_message_valid by blast
  with validated_item_shape [OF this] show ?thesis by blast
qed

text \<open>
  C2.  Reported authentication is real.  When a validated item is reported as \<open>OriginValid\<close> or
  \<open>SignedOriginValid\<close> it has a duplicate identity, and then the item carries a 64-byte Signature
  child that verifies, under the signer's key, over the exact encoding of every child before it;
  the signer is one the resolver knows or an anonymous one, it is the signer of the provenance,
  and the report says truly whether it is the origin.
\<close>

theorem validated_item_authentic:
  assumes "validate_item C t resolver = Inr (Some v)"
  shows "\<exists>ts. children_of t = Inr ts \<and>
    authentic C resolver ts (vi_provenance v) (vi_authentication v) (vi_duplicate_identity v)"
  using validate_item_Some [OF assms] by (metis item_sound_def)

text \<open>The sample NetMail is reported as signed by its origin, and carries a signature that verifies.\<close>

theorem validated_item_authentic_witness:
  "\<exists>t v ts. validate_item sample_crypto t sample_resolver = Inr (Some v) \<and>
     vi_authentication v = Some OriginValid \<and> children_of t = Inr ts \<and>
     authentic sample_crypto sample_resolver ts (vi_provenance v) (vi_authentication v) (vi_duplicate_identity v)"
proof -
  obtain t v where v: "validate_item sample_crypto t sample_resolver = Inr (Some v)"
    and auth: "vi_authentication v = Some OriginValid"
    using sample_message_valid by (fastforce simp: item_of_message_def sample_provenance_def)
  from validated_item_authentic [OF v] v auth show ?thesis by blast
qed

end
