(* ===== verification/Bundle_Safety.thy ===== *)
theory Bundle_Safety
  imports Receive Item_Safety
begin

text \<open>
  What bundles promise: the bundle that was built is the bundle that is parsed, and whatever is
  parsed is signed and chained to its header.
\<close>

section \<open>What is built is parsed\<close>

lemma assigned_ok: "ty \<noteq> 0 \<Longrightarrow> assigned ty v = Inr \<lparr>tlv_type = ty, tlv_value = v\<rparr>"
  by (simp add: assigned_def tlv_new_def tlv_header_new_def require_defined_type_def)

lemma bundle_origin_values_eq: "bundle_origin_values False who = Inr (origin_children who)"
  by (simp add: bundle_origin_values_def origin_children_def assigned_ok)

definition header_data :: "identity \<Rightarrow> u64 \<Rightarrow> owned_tlv list" where
  "header_data destination timestamp =
     \<lparr>tlv_type = DESTINATION, tlv_value = address_to_string (id_address destination)\<rparr> #
     (if is_anonymous (id_address destination)
      then [\<lparr>tlv_type = PUBLIC_KEY, tlv_value = id_key destination\<rparr>] else []) @
     [\<lparr>tlv_type = TIMESTAMP, tlv_value = encode_u64 timestamp\<rparr>]"

lemma header_values_eq:
  "header_values (id_address destination) (destination_key destination) timestamp = Inr (header_data destination timestamp)"
  by (simp add: header_values_def header_data_def destination_key_def assigned_ok list_of_option_def)

lemma header_data_wf: "wf_identity destination \<Longrightarrow> list_all wf_tlv (header_data destination timestamp)"
  using encode_u64_length [of timestamp]
  by (auto simp: header_data_def wf_tlv_def wf_identity_def dest: vec_limit_less)

lemma next_value_hit:
  "i < length ts \<Longrightarrow> is_defined (tlv_type (ts ! i)) \<Longrightarrow> next_defined_value ts i = (Some (ts ! i), i + 1)"
  by (subst next_defined_value.simps) (simp add: nth_opt_def)

lemma next_value_end: "length ts \<le> i \<Longrightarrow> next_defined_value ts i = (None, i)"
  by (subst next_defined_value.simps) (simp add: nth_opt_def)

lemma expect_defined_hit:
  "i < length ts \<Longrightarrow> tlv_type (ts ! i) = ty \<Longrightarrow> is_defined ty \<Longrightarrow> expect_defined ts i ty name = Inr (ts ! i, i + 1)"
  by (simp add: expect_defined_def next_value_hit has_type_def)

lemma validate_header_built:
  assumes "wf_identity destination" and "resolves resolver destination"
  shows "validate_header (header_data destination timestamp) resolver = Inr (destination, None, timestamp)"
proof -
  show ?thesis
    using assms identity_of_origin [OF assms] 
    by (cases "is_anonymous (id_address destination)")
      (auto simp: validate_header_def header_data_def expect_defined_hit next_value_end is_defined_def nth_opt_def has_type_def
        wf_identity_def)
qed

lemma seq_bytes_part: "t \<in> set ts \<Longrightarrow> length (tlv_value t) < vec_limit" if "length (seq_bytes ts) < vec_limit"
  using that by (induction ts) (auto simp: tlv_bytes_def)

text \<open>A signed value carries its data, so what fits a bundle has data that fits.\<close>

lemma build_signed_data_length:
  assumes "build_signed_tlv C data signer secret = Inr t"
  shows "length (seq_bytes data) \<le> length (tlv_value t)" and "tlv_type t = SIGNED_TLV"
  by (rule build_signed_tlv_eq [OF assms], simp add: tlv_bytes_def)+

lemma build_signed_fits:
  assumes "build_signed_tlv C data signer secret = Inr t" and "length (tlv_value t) < vec_limit"
  shows "length (seq_bytes data) < vec_limit"
  using assms build_signed_data_length [OF assms(1)] by simp

definition built_payload :: "identity \<Rightarrow> bytes \<Rightarrow> owned_tlv list \<Rightarrow> owned_tlv \<Rightarrow> verified_signed_tlv" where
  "built_payload who header_hash g t =
     \<lparr>ver_encoded = tlv_bytes t, ver_identity = who, ver_data = \<lparr>tlv_type = TLV_HASH, tlv_value = header_hash\<rparr> # g\<rparr>"

text \<open>The signer names itself inside the value, or inherits the origin of the bundle.\<close>

definition signs_for :: "identity option \<Rightarrow> identity \<Rightarrow> identity \<Rightarrow> bool" where
  "signs_for signer origin who \<longleftrightarrow> signer = Some who \<or> signer = None \<and> who = origin"

lemma verify_built_for:
  assumes "crypto_ok C" and "build_signed_tlv C data signer secret = Inr t" and "list_all wf_tlv data"
    and "length (tlv_value t) < vec_limit" and "wf_identity who" and "id_key who = secret_public secret"
    and "resolves resolver who" and "signs_for signer origin who"
  shows "verify_signed_tlv C t (Some origin) resolver =
    Inr \<lparr>ver_encoded = tlv_bytes t, ver_identity = who, ver_data = data\<rparr>"
  unfolding verify_signed_tlv_def using assms(8)
  by (intro verify_built [OF assms(1-3) build_signed_fits [OF assms(2,4)] assms(5-7)]) (auto simp: signs_for_def)

lemma parse_payloads_built:
  assumes "crypto_ok C" and "wf_identity who" and "id_key who = secret_public secret" and "resolves resolver who"
    and "signs_for signer origin who" and "length h = 32"
    and "list_all2 (\<lambda>g t. build_signed_tlv C (\<lparr>tlv_type = TLV_HASH, tlv_value = h\<rparr> # g) signer secret = Inr t) groups ts"
    and "list_all (list_all wf_tlv) groups" and "list_all (\<lambda>t. length (tlv_value t) < vec_limit) ts"
  shows "parse_payloads C origin resolver h ts = Inr (map2 (built_payload who h) groups ts, [])"
  using assms(7-9)
proof (induction groups ts rule: list_all2_induct)
  case (Cons g groups t ts)
  let ?h = "\<lparr>tlv_type = TLV_HASH, tlv_value = h\<rparr>"
  have "wf_tlv ?h" using assms(6) by (simp add: wf_tlv_def)
  then have "verify_signed_tlv C t (Some origin) resolver = Inr (built_payload who h g t)"
    unfolding built_payload_def using Cons.prems
    by (intro verify_built_for [OF assms(1) Cons.hyps(1) _ _ assms(2-5)]) auto
  then have "parse_payload C origin resolver h t = Inr (built_payload who h g t)"
    using assms(6) by (simp add: parse_payload_def built_payload_def)
  with Cons build_signed_data_length(2) [OF Cons.hyps(1)] show ?case by simp
qed simp

lemma origin_key_children:
  assumes "wf_identity origin" and "tlv_type header = SIGNED_TLV"
  shows "origin_key (origin_children origin @ header # ts) (id_address origin) Prohibited =
    Inr (if is_anonymous (id_address origin) then Some \<lparr>tlv_type = PUBLIC_KEY, tlv_value = id_key origin\<rparr> else None,
      None, length (origin_children origin))"
  using assms by (auto simp: origin_key_def origin_children_def nth_opt_def has_type_def)

text \<open>
  A sequence of an origin, a header and payloads chained to it, all signed with one secret, parses:
  the bundle's origin is the identity named first, its signer the one that signs.
\<close>

definition signed_parts ::
    "crypto \<Rightarrow> identity option \<Rightarrow> bytes \<Rightarrow> identity \<Rightarrow> u64 \<Rightarrow> owned_tlv list list \<Rightarrow> owned_tlv \<Rightarrow> bytes \<Rightarrow> owned_tlv list \<Rightarrow> bool" where
  "signed_parts C signer secret destination timestamp groups header h ts \<longleftrightarrow>
     build_signed_tlv C (header_data destination timestamp) signer secret = Inr header \<and>
     hash_tlv C (tlv_bytes header) = Inr h \<and>
     list_all2 (\<lambda>g t. build_signed_tlv C (\<lparr>tlv_type = TLV_HASH, tlv_value = h\<rparr> # g) signer secret = Inr t) groups ts"

definition plain_groups :: "owned_tlv list list \<Rightarrow> bool" where
  "plain_groups groups \<longleftrightarrow> list_all (list_all (\<lambda>v. wf_tlv v \<and> tlv_type v \<noteq> PUBLIC_KEY_REQUEST)) groups"

lemma plain_groups_wf: "plain_groups groups \<Longrightarrow> list_all (list_all wf_tlv) groups"
  by (auto simp: plain_groups_def list_all_iff)

lemma no_request_built:
  "plain_groups groups \<Longrightarrow> \<not> contains_public_key_request (map2 (built_payload who h) groups ts)"
  by (auto simp: plain_groups_def contains_public_key_request_def list_ex_iff list_all_iff built_payload_def
      dest!: set_zip_leftD)

lemma signed_parts_wf:
  assumes "signed_parts C signer secret destination timestamp groups header h ts" and "wf_identity origin"
    and "length (seq_bytes (origin_children origin @ header # ts)) < vec_limit"
  shows "list_all wf_tlv (origin_children origin @ header # ts)"
    and "list_all (\<lambda>t. length (tlv_value t) < vec_limit) (header # ts)"
proof -
  have fits: "t \<in> set (origin_children origin @ header # ts) \<Longrightarrow> length (tlv_value t) < vec_limit" for t
    using seq_bytes_part [OF assms(3)] by blast
  have types: "t \<in> set (header # ts) \<Longrightarrow> tlv_type t = SIGNED_TLV" for t
    using assms(1) build_signed_data_length(2) unfolding signed_parts_def
    by (fastforce simp: list_all2_conv_all_nth in_set_conv_nth)
  show "list_all (\<lambda>t. length (tlv_value t) < vec_limit) (header # ts)" using fits by (auto simp: list_all_iff)
  have "list_all wf_tlv (header # ts)"
    using types fits vec_limit_less unfolding list_all_iff wf_tlv_def by fastforce
  then show "list_all wf_tlv (origin_children origin @ header # ts)" using origin_children_wf [OF assms(2)] by simp
qed

lemma parse_signed_parts:
  assumes parts: "signed_parts C signer secret destination timestamp groups header h ts" and "crypto_ok C"
    and "wf_identity origin" and "resolves resolver origin"
    and "wf_identity who" and "id_key who = secret_public secret" and "resolves resolver who"
    and "signs_for signer origin who" and "wf_identity destination" and "resolves resolver destination"
    and "plain_groups groups" and "length (seq_bytes (origin_children origin @ header # ts)) < vec_limit"
  shows "parse_internal C (seq_bytes (origin_children origin @ header # ts)) resolver Prohibited header_only = Inr
      \<lparr>bun_encoded = seq_bytes (origin_children origin @ header # ts), bun_origin = origin,
       bun_advertised_origin_key = None, bun_destination = destination,
       bun_requested_destination_key = None, bun_timestamp = timestamp,
       bun_header = \<lparr>ver_encoded = tlv_bytes header, ver_identity = who, ver_data = header_data destination timestamp\<rparr>,
       bun_payloads = map2 (built_payload who h) groups ts, bun_unknown_top_level = []\<rparr>"
proof -
  let ?tops = "origin_children origin @ header # ts"
  let ?n = "length (origin_children origin)"
  note wf = signed_parts_wf [OF parts assms(3,12)]
  have header: "build_signed_tlv C (header_data destination timestamp) signer secret = Inr header"
    and h: "hash_tlv C (tlv_bytes header) = Inr h"
    and ts: "list_all2 (\<lambda>g t. build_signed_tlv C (\<lparr>tlv_type = TLV_HASH, tlv_value = h\<rparr> # g) signer secret = Inr t) groups ts"
    using parts by (simp_all add: signed_parts_def)
  have h32: "length h = 32" using assms(2) h by (simp add: crypto_ok_def)
  have hv: "verify_signed_tlv C header (Some origin) resolver =
      Inr \<lparr>ver_encoded = tlv_bytes header, ver_identity = who, ver_data = header_data destination timestamp\<rparr>"
    using wf(2) by (intro verify_built_for [OF assms(2) header header_data_wf [OF assms(9)] _ assms(5-8)]) simp
  have ps: "parse_payloads C origin resolver h ts = Inr (map2 (built_payload who h) groups ts, [])"
    using wf(2) plain_groups_wf [OF assms(11)]
    by (intro parse_payloads_built [OF assms(2,5-8) h32 ts]) simp_all
  have ht: "tlv_type header = SIGNED_TLV" by (rule build_signed_data_length(2) [OF header])
  have origin: "nth_opt ?tops 0 = Some \<lparr>tlv_type = ORIGIN, tlv_value = address_to_string (id_address origin)\<rparr>"
    by (simp add: nth_opt_def origin_children_def)
  have address: "wf_address (id_address origin)" using assms(3) by (simp add: wf_identity_def)
  have expected: "expect_defined ?tops ?n SIGNED_TLV name = Inr (header, ?n + 1)" for name
    using ht expect_defined_hit [of ?n ?tops SIGNED_TLV name] by (simp add: is_defined_def nth_append)
  have unknown: "filter (\<lambda>v. \<not> is_defined (tlv_type v)) (take (?n - 1) (drop 1 ?tops)) = []"
    by (auto simp: origin_children_def is_defined_def)
  show ?thesis
    unfolding parse_internal_def parse_sequence_bytes [OF wf(1)]
    using origin address expected unknown hv ps h no_request_built [OF assms(11)] origin_key_children [OF assms(3) ht, of ts]
      identity_of_origin [OF assms(3,4)] validate_header_built [OF assms(9,10)]
    by simp
qed

lemma build_bundle_parts:
  assumes "build_bundle C origin secret destination timestamp groups = Inr encoded"
  obtains header h ts where "signed_parts C None secret destination timestamp groups header h ts"
    and "encoded = seq_bytes (origin_children origin @ header # ts)"
  using assms
  by (auto simp: build_bundle_def bundle_origin_values_eq header_values_eq signed_bundle_def and_then_eq_Inr
      map_err_eq_Inr tlv_encode_eq concatenate_eq try_map_eq_Inr list_all2_map1 assigned_ok signed_parts_def split: if_splits)

text \<open>
  C3.  Bundles survive the wire.  A bundle that \<open>build_bundle\<close> makes --- for identities the receiver
  can resolve, from payloads of well-formed values none of which is a PublicKeyRequest --- is parsed
  by \<open>TithBundle::parse\<close> into the same origin, destination, timestamp and payloads, each payload
  signed by the origin and opening with the hash of the signed header.
\<close>

theorem bundle_roundtrip:
  assumes "build_bundle C origin secret destination timestamp groups = Inr encoded" and "crypto_ok C"
    and "wf_identity origin" and "id_key origin = secret_public secret" and "resolves resolver origin"
    and "wf_identity destination" and "resolves resolver destination"
    and "plain_groups groups" and "length encoded < vec_limit"
  shows "\<exists>b h ts. bundle_parse C encoded resolver = Inr b \<and> bun_origin b = origin \<and> bun_destination b = destination \<and>
    bun_timestamp b = timestamp \<and> ver_identity (bun_header b) = origin \<and>
    hash_tlv C (ver_encoded (bun_header b)) = Inr h \<and> length ts = length groups \<and>
    bun_payloads b = map2 (built_payload origin h) groups ts \<and> bun_unknown_top_level b = []"
proof -
  from assms(1) obtain header h ts where parts: "signed_parts C None secret destination timestamp groups header h ts"
    and encoded: "encoded = seq_bytes (origin_children origin @ header # ts)"
    by (rule build_bundle_parts)
  from parts have "hash_tlv C (tlv_bytes header) = Inr h" "length ts = length groups"
    by (auto simp: signed_parts_def dest: list_all2_lengthD)
  then show ?thesis
    unfolding bundle_parse_def encoded
    using parse_signed_parts [OF parts assms(2,3,5,3,4,5) _ assms(6,7,8), of False] assms(9) encoded
    by (auto simp: signs_for_def)
qed

text \<open>
  C11.  The origin of a bundle is not authenticated.  TTS-0005 says the header SignedTLV must not contain
  an Origin; the parser lets it name its own signer and never compares that signer with the origin
  of the bundle.  So whoever holds any secret --- with an anonymous identity made up for it --- can
  open a bundle with the address of another node, sign the header and the payloads as itself, and
  both the whole-bundle parser and the header reader report the other node as the origin.
\<close>

theorem forged_origin_accepted:
  assumes "crypto_ok C" and "wf_identity victim" and "resolves resolver victim"
    and "wf_identity forger" and "is_anonymous (id_address forger)" and "id_key forger = secret_public secret"
    and "wf_identity destination" and "resolves resolver destination"
    and "signed_parts C (Some forger) secret destination timestamp groups header h ts" and "plain_groups groups"
    and "length (seq_bytes (origin_children victim @ header # ts)) < vec_limit"
  shows "\<exists>b. bundle_parse C (seq_bytes (origin_children victim @ header # ts)) resolver = Inr b \<and>
    parse_header_prefix C (seq_bytes (origin_children victim @ header # ts)) resolver = Inr b \<and>
    bun_origin b = victim \<and> ver_identity (bun_header b) = forger \<and>
    bun_payloads b = map2 (built_payload forger h) groups ts"
  unfolding bundle_parse_def parse_header_prefix_def
  using parse_signed_parts [OF assms(9,1-4,6) _ _ assms(7,8,10,11)] assms(5)
  by (auto simp: signs_for_def resolves_def)

section \<open>What is received\<close>

primrec received_identifier :: "received_request \<Rightarrow> u64" where
  "received_identifier (ValidRequest v) = vi_request_identifier v"
| "received_identifier (DataError i) = i"

abbreviation requests_of :: "owned_tlv list \<Rightarrow> owned_tlv list" where
  "requests_of items \<equiv> filter (\<lambda>item. is_request (tlv_type item)) items"

text \<open>\<open>preflight\<close> passes exactly the payloads whose requests have distinct identifiers.\<close>

lemma preflight_Inr:
  "preflight ids items = Inr () \<longleftrightarrow>
     (\<exists>ns. map request_identifier (requests_of items) = map Some ns \<and> distinct ns \<and> set ns \<inter> ids = {})"
proof (induction items arbitrary: ids)
  case (Cons item items)
  show ?case
  proof (cases "is_request (tlv_type item)")
    case True
    show ?thesis
    proof (cases "request_identifier item")
      case (Some i)
      with True Cons.IH [of "insert i ids"] show ?thesis by (auto simp: Cons_eq_map_conv)
    qed (use True in \<open>auto simp: Cons_eq_map_conv\<close>)
  qed (use Cons.IH in simp)
qed simp

lemma preflight_not_panicked: "preflight ids items \<noteq> Inl EPanicked"
  by (induction ids items rule: preflight.induct) (auto simp: and_then_eq_Inl ok_or_eq_Inl)

lemma data_errors_of:
  "map request_identifier rs = map Some ns \<Longrightarrow> try_map data_error rs = Inr (map DataError ns)"
  by (induction rs arbitrary: ns) (auto simp: data_error_def Cons_eq_map_conv)

text \<open>An item with one request identifier is validated under that identifier.\<close>

lemma validated_identifier:
  assumes "validate_item C t resolver = Inr (Some v)" and "is_request (tlv_type t)" and "request_identifier t = Some i"
  shows "vi_request_identifier v = i"
proof -
  from validate_item_Some [OF assms(1)] obtain ts where ts: "children_of t = Inr ts" "item_sound C resolver t ts v" .
  from assms(3) obtain c where "parse_sequence (tlv_value t) = Inr ts"
    "filter (\<lambda>c. tlv_type c = REQUEST_IDENTIFIER) ts = [c]" "decode_u64 (tlv_value c) = Inr i"
    using ts(1) by (auto simp: request_identifier_def children_of_def map_err_eq_Inr split: sum.splits list.splits if_splits)
  moreover have "carries_identifier ts (vi_request_identifier v)" using ts(2) by (simp add: item_sound_def)
  ultimately show ?thesis
    by (auto simp: carries_identifier_def value_u64_def map_err_eq_Inr filter_eq_Cons_iff eq_commute [of "[]"] filter_empty_conv)
qed

lemma receive_items_answers:
  assumes "map request_identifier (requests_of items) = map Some ns"
  shows "case receive_items C resolver items of
      Inl e \<Rightarrow> e \<noteq> EPanicked | Inr (requests, responses) \<Rightarrow> map received_identifier requests = ns"
  using assms
proof (induction items arbitrary: ns)
  case (Cons item items)
  show ?case
  proof (cases "is_request (tlv_type item)")
    case True
    then obtain i js where i: "request_identifier item = Some i" "ns = i # js"
      "map request_identifier (requests_of items) = map Some js"
      using Cons.prems by (auto simp: Cons_eq_map_conv)
    have "validate_item C item resolver \<noteq> Inr None"
      using validate_item_guards [of item C resolver] True by (auto simp: guards_def item_result_def)
    then show ?thesis
      using Cons.IH [OF i(3)] i True validated_identifier [of C item resolver]
      by (cases "validate_item C item resolver"; cases "receive_items C resolver items")
        (auto simp: data_error_def split: option.splits)
  next
    case False
    with Cons show ?thesis
      by (cases "validate_item C item resolver"; cases "receive_items C resolver items") auto
  qed
qed simp

lemma authenticate_not_panicked: "authenticate_payload C t origin resolver \<noteq> Inl EPanicked"
  by (cases "verify_signed_tlv C t (Some origin) resolver"; cases "unauthenticated_signed_data t")
    (auto simp: authenticate_payload_def)

text \<open>
  C4.  Every request is answered once.  Receiving a payload never panics on its \<open>expect\<close> calls, and a
  payload that is received yields exactly one entry for each request it holds, in order, under that
  request's identifier, and the identifiers are distinct.  A request is passed on as valid, and a
  response is counted, only when the payload is authenticated and opens with the header's hash.
\<close>

theorem payload_requests_answered:
  assumes "tlv_type t \<noteq> 0"
  shows "case receive_payload C t origin header_hash resolver of
      Inl e \<Rightarrow> e \<noteq> EPanicked
    | Inr p \<Rightarrow> \<exists>data authenticated. authenticate_payload C t origin resolver = Inr (data, authenticated) \<and>
        map request_identifier (requests_of (request_values data)) = map Some (map received_identifier (rp_requests p)) \<and>
        distinct (map received_identifier (rp_requests p)) \<and>
        (authenticated \<and> has_type TLV_HASH (nth_opt data 0) \<and> tlv_value (data ! 0) = header_hash \<or>
         rp_responses p = [] \<and> rp_requests p = map DataError (map received_identifier (rp_requests p)))"
proof (cases "\<exists>h a. hash_tlv C (tlv_bytes t) = Inr h \<and> authenticate_payload C t origin resolver = Inr a")
  case True
  then obtain h data auth where a: "hash_tlv C (tlv_bytes t) = Inr h" "authenticate_payload C t origin resolver = Inr (data, auth)"
    by auto
  show ?thesis
  proof (cases "preflight {} (request_values data)")
    case (Inr u)
    then obtain ns where ns: "map request_identifier (requests_of (request_values data)) = map Some ns" "distinct ns"
      by (auto simp: preflight_Inr)
    have "map (received_identifier \<circ> DataError) ns = ns" by (induction ns) auto
    then show ?thesis
      using a Inr assms ns receive_items_answers [OF ns(1), of C resolver]
      by (cases "receive_items C resolver (request_values data)")
        (auto simp: receive_payload_def tlv_encode_eq refuse_all_def data_errors_of [OF ns(1)] Let_def)
  qed (use a assms preflight_not_panicked in \<open>auto simp: receive_payload_def tlv_encode_eq Let_def\<close>)
next
  case False
  then show ?thesis
    using assms authenticate_not_panicked [of C t origin resolver]
    by (cases "hash_tlv C (tlv_bytes t)"; cases "authenticate_payload C t origin resolver")
      (auto simp: receive_payload_def tlv_encode_eq)
qed

section \<open>Witnesses\<close>

lemma sample_group_plain: "plain_groups [[\<lparr>tlv_type = 5, tlv_value = [1]\<rparr>]]"
  by (simp add: plain_groups_def wf_tlv_def)

lemma sample_bundle_built:
  "\<exists>encoded. build_bundle sample_crypto sample_identity sample_secret sample_identity 5 [[\<lparr>tlv_type = 5, tlv_value = [1]\<rparr>]] =
     Inr encoded \<and> length encoded < vec_limit"
proof -
  have "case build_bundle sample_crypto sample_identity sample_secret sample_identity 5 [[\<lparr>tlv_type = 5, tlv_value = [1]\<rparr>]] of
      Inl _ \<Rightarrow> False | Inr encoded \<Rightarrow> length encoded < 1000" by code_simp
  then show ?thesis by (auto simp: vec_limit_def split: sum.splits)
qed

text \<open>A node sends itself a bundle with one payload.\<close>

theorem bundle_roundtrip_witness:
  "\<exists>encoded b. build_bundle sample_crypto sample_identity sample_secret sample_identity 5 [[\<lparr>tlv_type = 5, tlv_value = [1]\<rparr>]] =
       Inr encoded \<and>
     bundle_parse sample_crypto encoded sample_resolver = Inr b \<and> bun_origin b = sample_identity \<and> length (bun_payloads b) = 1"
proof -
  from sample_bundle_built obtain encoded where e: "build_bundle sample_crypto sample_identity sample_secret sample_identity 5
      [[\<lparr>tlv_type = 5, tlv_value = [1]\<rparr>]] = Inr encoded" "length encoded < vec_limit" by blast
  from bundle_roundtrip [OF e(1) sample_crypto_ok sample_identity_wf sample_identity_key sample_resolves
      sample_identity_wf sample_resolves sample_group_plain e(2)] e(1)
  show ?thesis by auto
qed

definition sample_forger :: identity where
  "sample_forger =
     \<lparr>id_address = \<lparr>domain = lit ''p2p'', zone = -1, net = -1, node = -1, point = 0\<rparr>, id_key = replicate 32 9\<rparr>"

lemma sample_forger_ok:
  "wf_identity sample_forger" "is_anonymous (id_address sample_forger)" "id_key sample_forger = secret_public (replicate 64 9)"
proof -
  have "wf_address (id_address sample_forger)" by code_simp
  moreover have "length (address_to_string (id_address sample_forger)) < 100" by code_simp
  ultimately show "wf_identity sample_forger" by (simp add: wf_identity_def sample_forger_def vec_limit_def)
qed (simp_all add: sample_forger_def is_anonymous_def secret_public_def)

lemma sample_forged:
  "\<exists>header h. signed_parts sample_crypto (Some sample_forger) (replicate 64 9) sample_identity 5 [] header h [] \<and>
     length (seq_bytes (origin_children sample_identity @ [header])) < vec_limit"
proof -
  have "case build_signed_tlv sample_crypto (header_data sample_identity 5) (Some sample_forger) (replicate 64 9) of
      Inl _ \<Rightarrow> False | Inr header \<Rightarrow> length (seq_bytes (origin_children sample_identity @ [header])) < 1000" by code_simp
  then obtain header where "build_signed_tlv sample_crypto (header_data sample_identity 5) (Some sample_forger) (replicate 64 9) =
      Inr header" "length (seq_bytes (origin_children sample_identity @ [header])) < vec_limit"
    by (auto simp: vec_limit_def split: sum.splits)
  then show ?thesis by (auto simp: signed_parts_def sample_crypto_def)
qed

text \<open>A bundle of \<open>fido#1:2/3\<close> made without its secret.\<close>

theorem forged_origin_accepted_witness:
  "\<exists>encoded b. bundle_parse sample_crypto encoded sample_resolver = Inr b \<and> bun_origin b = sample_identity \<and>
     ver_identity (bun_header b) = sample_forger \<and> sample_forger \<noteq> sample_identity"
proof -
  from sample_forged obtain header h where
    f: "signed_parts sample_crypto (Some sample_forger) (replicate 64 9) sample_identity 5 [] header h []"
      "length (seq_bytes (origin_children sample_identity @ [header])) < vec_limit" by blast
  have "plain_groups []" by (simp add: plain_groups_def)
  from forged_origin_accepted [OF sample_crypto_ok sample_identity_wf sample_resolves sample_forger_ok
      sample_identity_wf sample_resolves f(1) this f(2)]
  show ?thesis by (auto simp: sample_forger_def sample_identity_def)
qed

definition sample_poll_item :: owned_tlv where
  "sample_poll_item = \<lparr>tlv_type = POLL_MESSAGES, tlv_value = seq_bytes [\<lparr>tlv_type = REQUEST_IDENTIFIER, tlv_value = [1]\<rparr>]\<rparr>"

lemma sample_poll_identifier: "request_identifier sample_poll_item = Some 1"
proof -
  have "encode_u64 1 = [1]" by code_simp
  then have "decode_u64 [1] = Inr 1" using decode_u64_encode [of 1] by simp
  moreover have "list_all wf_tlv [\<lparr>tlv_type = REQUEST_IDENTIFIER, tlv_value = [1]\<rparr>]" by (simp add: wf_tlv_def)
  ultimately show ?thesis
    using parse_sequence_bytes [of "[\<lparr>tlv_type = REQUEST_IDENTIFIER, tlv_value = [1]\<rparr>]"]
    by (simp add: request_identifier_def sample_poll_item_def)
qed

lemma sample_poll_fits: "length (tlv_value sample_poll_item) < 18446744073709551616"
proof -
  have "length (tlv_value sample_poll_item) < 10" by code_simp
  then show ?thesis by simp
qed

definition sample_payload_data :: "owned_tlv list" where
  "sample_payload_data = [\<lparr>tlv_type = TLV_HASH, tlv_value = replicate 32 1\<rparr>, sample_poll_item]"

lemma sample_payload_received:
  "\<exists>t p. tlv_type t = SIGNED_TLV \<and>
     receive_payload sample_crypto t sample_identity (replicate 32 1) sample_resolver = Inr p \<and> rp_requests p \<noteq> []"
proof -
  have "case build_signed_tlv sample_crypto sample_payload_data None sample_secret of
      Inl _ \<Rightarrow> False | Inr t \<Rightarrow> length (tlv_value t) < 1000" by code_simp
  then obtain t where t: "build_signed_tlv sample_crypto sample_payload_data None sample_secret = Inr t"
    "length (tlv_value t) < vec_limit" by (auto simp: vec_limit_def split: sum.splits)
  note type = build_signed_data_length(2) [OF t(1)]
  have "list_all wf_tlv sample_payload_data" using sample_poll_fits by (simp add: sample_payload_data_def wf_tlv_def) (simp add: sample_poll_item_def)
  from verify_built_for [OF sample_crypto_ok t(1) this t(2) sample_identity_wf sample_identity_key sample_resolves]
  have v: "verify_signed_tlv sample_crypto t (Some sample_identity) sample_resolver =
      Inr \<lparr>ver_encoded = tlv_bytes t, ver_identity = sample_identity, ver_data = sample_payload_data\<rparr>"
    by (simp add: signs_for_def)
  have poll: "is_request (tlv_type sample_poll_item)" by (simp add: sample_poll_item_def is_request_def)
  have "\<exists>h. hash_tlv sample_crypto (tlv_bytes t) = Inr h" by (simp add: sample_crypto_def)
  moreover have "validate_item sample_crypto sample_poll_item sample_resolver \<noteq> Inr None"
    using validate_item_guards [of sample_poll_item sample_crypto sample_resolver] poll by (auto simp: guards_def item_result_def)
  ultimately show ?thesis
    using type v poll sample_poll_identifier
    by (intro exI [of _ t], cases "validate_item sample_crypto sample_poll_item sample_resolver")
      (auto simp: data_error_def receive_payload_def authenticate_payload_def tlv_encode_eq request_values_def sample_payload_data_def
        nth_opt_def has_type_def Let_def)
qed

text \<open>A payload with one poll, received as one request.\<close>

theorem payload_requests_answered_witness:
  "\<exists>t p data. tlv_type t \<noteq> 0 \<and>
     receive_payload sample_crypto t sample_identity (replicate 32 1) sample_resolver = Inr p \<and> rp_requests p \<noteq> [] \<and>
     map request_identifier (requests_of (request_values data)) = map Some (map received_identifier (rp_requests p))"
proof -
  obtain t p where t: "tlv_type t = SIGNED_TLV"
    "receive_payload sample_crypto t sample_identity (replicate 32 1) sample_resolver = Inr p" "rp_requests p \<noteq> []"
    using sample_payload_received by blast
  from t(1) have "tlv_type t \<noteq> 0" by simp
  from payload_requests_answered [OF this, where C = sample_crypto and origin = sample_identity and header_hash = "replicate 32 1"
      and resolver = sample_resolver] t(2)
  obtain data where "map request_identifier (requests_of (request_values data)) = map Some (map received_identifier (rp_requests p))"
    by auto
  with t \<open>tlv_type t \<noteq> 0\<close> show ?thesis by blast
qed

end
