(* ===== verification/Config.thy ===== *)
theory Config
  imports Address
begin

text \<open>
  The configuration set of TSP-0002 (\<open>crates/tith-config/src/lib.rs\<close>): the four text files, their
  lines and fields, the block parsers and the cross-validation of the whole set.

  \<^item> \<open>ConfigError\<close> keeps the file, the line and the message; a panic of the parser is the extra
    constructor \<open>ConfigPanicked\<close>.
  \<^item> The base64 decoder is not part of the repository; it is the argument \<open>decode\<close>.
  \<^item> \<open>BTreeMap<String, Peer>\<close> is the list of its entries in key order, so that iteration over keys
    and values is in the order of the program; \<open>BTreeSet\<close> is a set.
  \<^item> A parser loop over \<open>index\<close> is a recursion over the lines from that index on.
\<close>

section \<open>Data\<close>

datatype config_error = ConfigError string nat str | ConfigPanicked

definition err :: "string \<Rightarrow> nat \<Rightarrow> string \<Rightarrow> config_error" where
  "err file line message = ConfigError file line (lit message)"

datatype identity_ref = RefAddress address | RefPeer str

record config_endpoint =
  ep_server :: str
  ep_port :: nat

record peer =
  peer_name :: str
  peer_address :: address
  peer_public_key :: "bytes option"
  peer_endpoints :: "config_endpoint list"
  peer_trust_on_first_use :: bool
  peer_boss :: "str option"
  peer_hub :: "str option"

datatype branch_kind = BranchZone | BranchRegion | BranchHost | BranchHub
datatype independent_kind = IndependentZone | IndependentRegion

datatype selector =
    SelectAll
  | SelectAddress address
  | SelectPattern address_pattern
  | SelectPeer str
  | SelectBranch branch_kind address
  | SelectIndependent independent_kind address

datatype route_method = Via str | Direct | Boss | Hub | Host | Region | Zone | Hold
datatype disposition = DeadLetter | Discard
datatype notification = NotifyNone | NotifySender | NotifyOriginSysop | NotifyBoth

record failure_policy =
  pol_disposition :: disposition
  pol_notification :: notification

datatype failure_kind = FailAny | FailRelayDenied | FailRejected

record route_rule =
  rule_destination :: selector
  rule_methods :: "route_method list"
  rule_on_failure :: "failure_policy option"

datatype relay_action = RelayAllow "failure_policy option" | RelayDeny

record relay_rule =
  relay_act :: relay_action
  relay_from :: selector
  relay_origin :: selector
  relay_destination :: selector

record failure_rule =
  fail_kind :: failure_kind
  fail_origin :: selector
  fail_destination :: selector
  fail_policy :: failure_policy

record routes =
  rt_local :: identity_ref
  rt_routes :: "route_rule list"
  rt_relay :: "relay_rule list"
  rt_failures :: "failure_rule list"
  rt_failure_default :: failure_policy

record area_link =
  link_peer :: str
  link_class :: str

record area_config =
  ar_file_area :: bool
  ar_name :: str
  ar_receive_from :: "str list"
  ar_send_to :: "area_link list"

record areas =
  as_local :: identity_ref
  as_areas :: "area_config list"

record schedule =
  sch_name :: str
  sch_origin :: identity_ref
  sch_classes :: "str list"
  sch_next_hops :: "selector list"
  sch_polls :: "str list"
  sch_start_local :: bool
  sch_start_minutes :: nat
  sch_duration_minutes :: nat
  sch_repeat_after_minutes :: nat

type_synonym peer_map = "(str \<times> peer) list"

record configuration_set =
  cfg_peers :: peer_map
  cfg_routes :: "routes list"
  cfg_areas :: "areas list"
  cfg_schedules :: "schedule list"

section \<open>Lines and fields\<close>

record line =
  ln_number :: nat
  ln_text :: str

definition is_separator :: "u8 \<Rightarrow> bool" where
  "is_separator b \<longleftrightarrow> b = 32 \<or> b = 9"

text \<open>\<open>str::split_terminator\<close>: no piece after a final separator.\<close>

definition split_terminator :: "u8 \<Rightarrow> str \<Rightarrow> str list" where
  "split_terminator c s =
     (let pieces = split_at c s in if last pieces = [] then butlast pieces else pieces)"

definition trim_separators :: "str \<Rightarrow> str" where
  "trim_separators s = rev (dropWhile is_separator (rev (dropWhile is_separator s)))"

fun lines_loop :: "string \<Rightarrow> nat \<Rightarrow> str list \<Rightarrow> config_error + line list" where
  "lines_loop file index [] = Inr []"
| "lines_loop file index (raw # raws) =
     (if list_ex (\<lambda>c. is_control c \<and> c \<noteq> 9 \<or> c = 0x7f) (chars raw)
      then Inl (err file (index + 1) ''prohibited control character'')
      else and_then (lines_loop file (index + 1) raws) (\<lambda>rest.
        let content = trim_separators raw in
        Inr (if content \<noteq> [] \<and> hd content \<noteq> 59
             then \<lparr>ln_number = index + 1, ln_text = content\<rparr> # rest else rest)))"

definition lines :: "string \<Rightarrow> str \<Rightarrow> config_error + line list" where
  "lines file input =
     (if input \<noteq> [] \<and> last input \<noteq> 10
      then Inl (err file (count_list input 10 + 1) ''missing final LF'')
      else lines_loop file 0 (split_terminator 10 input))"

text \<open>\<open>str::split\<close> at the separators, empty pieces left out.\<close>

fun fields_loop :: "str \<Rightarrow> str \<Rightarrow> str list" where
  "fields_loop piece [] = (if piece \<noteq> [] then [piece] else [])"
| "fields_loop piece (b # bs) =
     (if is_separator b then (if piece \<noteq> [] then [piece] else []) @ fields_loop [] bs
      else fields_loop (piece @ [b]) bs)"

definition line_fields :: "line \<Rightarrow> str list" where
  "line_fields l = fields_loop [] (ln_text l)"

definition valid_name :: "str \<Rightarrow> bool" where
  "valid_name v \<longleftrightarrow>
     v \<noteq> [] \<and> \<not> list_ex (\<lambda>b. b = 32 \<or> b = 9 \<or> b = 64) v \<and> \<not> list_ex is_control (chars v)"

definition starts_with :: "u8 \<Rightarrow> str \<Rightarrow> bool" where
  "starts_with b s \<longleftrightarrow> s \<noteq> [] \<and> hd s = b"

definition peer_ref :: "string \<Rightarrow> nat \<Rightarrow> str \<Rightarrow> config_error + str" where
  "peer_ref file line v =
     (if \<not> starts_with 64 v then Inl (err file line ''expected peer reference'')
      else if valid_name (tl v) then Inr (tl v)
      else Inl (err file line ''invalid peer reference''))"

text \<open>\<open>AddressError\<close>'s \<open>Display\<close>.\<close>

fun address_error_text :: "address_error \<Rightarrow> str" where
  "address_error_text EmptyDomain = lit ''address domain is empty''"
| "address_error_text InvalidDomain = lit ''address domain contains a prohibited value''"
| "address_error_text MissingZone = lit ''address zone is missing''"
| "address_error_text InvalidNumber = lit ''address component is not a canonical decimal number''"
| "address_error_text OutOfRange = lit ''address component is out of range''"
| "address_error_text NonCanonicalAddress = lit ''address contains an explicitly encoded default component''"
| "address_error_text InvalidOrder = lit ''address components are out of order or repeated''"
| "address_error_text InvalidWildcard = lit ''invalid address wildcard''"

definition identity_value :: "string \<Rightarrow> nat \<Rightarrow> str \<Rightarrow> config_error + identity_ref" where
  "identity_value file line v =
     (if starts_with 64 v then and_then (peer_ref file line v) (\<lambda>name. Inr (RefPeer name))
      else and_then (map_err (\<lambda>e. ConfigError file line (address_error_text e)) (address_from_str v)) (\<lambda>a.
        if is_anonymous a then Inl (err file line ''anonymous local identity must be a peer reference'')
        else Inr (RefAddress a)))"

definition branch_kind_of :: "str \<Rightarrow> branch_kind option" where
  "branch_kind_of k =
     (if k = lit ''Zone'' then Some BranchZone
      else if k = lit ''Region'' then Some BranchRegion
      else if k = lit ''Host'' then Some BranchHost
      else if k = lit ''Hub'' then Some BranchHub
      else None)"

definition independent_kind_of :: "str \<Rightarrow> independent_kind option" where
  "independent_kind_of k =
     (if k = lit ''Zone'' then Some IndependentZone
      else if k = lit ''Region'' then Some IndependentRegion
      else None)"

text \<open>The address of a \<open>Branch\<close> or \<open>Independent\<close> selector.\<close>

definition root_address :: "config_error \<Rightarrow> str \<Rightarrow> config_error + address" where
  "root_address bad v =
     and_then (map_err (\<lambda>_. bad) (address_from_str v)) (\<lambda>a.
     if is_anonymous a then Inl bad else Inr a)"

definition parse_selector :: "string \<Rightarrow> nat \<Rightarrow> str list \<Rightarrow> config_error + selector \<times> nat" where
  "parse_selector file line vs =
     (let bad = err file line ''invalid selector'' in
      case vs of
        [] \<Rightarrow> Inl bad
      | w # vs' \<Rightarrow>
          if w = lit ''All'' then Inr (SelectAll, 1)
          else if w = lit ''Address'' then
            (case vs' of
               [] \<Rightarrow> Inl bad
             | v # _ \<Rightarrow>
                 (case address_from_str v of
                    Inr a \<Rightarrow> Inr (SelectAddress a, 2)
                  | Inl _ \<Rightarrow>
                      and_then (map_err (\<lambda>_. bad) (pattern_from_str v)) (\<lambda>p. Inr (SelectPattern p, 2))))
          else if w = lit ''Peer'' then
            (case vs' of
               [] \<Rightarrow> Inl bad
             | v # _ \<Rightarrow> and_then (peer_ref file line v) (\<lambda>name. Inr (SelectPeer name, 2)))
          else if w = lit ''Branch'' then
            (case vs' of
               k # v # _ \<Rightarrow>
                 and_then (ok_or bad (branch_kind_of k)) (\<lambda>kind.
                 and_then (root_address bad v) (\<lambda>a. Inr (SelectBranch kind a, 3)))
             | _ \<Rightarrow> Inl bad)
          else if w = lit ''Independent'' then
            (case vs' of
               k # v # _ \<Rightarrow>
                 and_then (ok_or bad (independent_kind_of k)) (\<lambda>kind.
                 and_then (root_address bad v) (\<lambda>a. Inr (SelectIndependent kind a, 3)))
             | _ \<Rightarrow> Inl bad)
          else Inl bad)"

definition disposition_of :: "str \<Rightarrow> disposition option" where
  "disposition_of v =
     (if v = lit ''Dead-Letter'' then Some DeadLetter
      else if v = lit ''Discard'' then Some Discard else None)"

definition notification_of :: "str \<Rightarrow> notification option" where
  "notification_of v =
     (if v = lit ''None'' then Some NotifyNone
      else if v = lit ''Sender'' then Some NotifySender
      else if v = lit ''Origin-Sysop'' then Some NotifyOriginSysop
      else if v = lit ''Both'' then Some NotifyBoth else None)"

definition parse_policy :: "string \<Rightarrow> nat \<Rightarrow> str list \<Rightarrow> config_error + failure_policy" where
  "parse_policy file line vs =
     (case vs of
        [d, w, n] \<Rightarrow>
          if w \<noteq> lit ''Notify'' then Inl (err file line ''invalid failure policy'')
          else and_then (ok_or (err file line ''invalid disposition'') (disposition_of d)) (\<lambda>disposition.
            and_then (ok_or (err file line ''invalid notification'') (notification_of n)) (\<lambda>notification.
            Inr \<lparr>pol_disposition = disposition, pol_notification = notification\<rparr>))
      | _ \<Rightarrow> Inl (err file line ''invalid failure policy''))"


section \<open>Peers\<close>

text \<open>The peers a peer names: \<open>peer.boss.iter().chain(peer.hub.iter())\<close>.\<close>

definition superiors :: "peer \<Rightarrow> str list" where
  "superiors p = list_of_option (peer_boss p) @ list_of_option (peer_hub p)"

text \<open>
  \<open>visit_peer\<close>, with the sets it mutates threaded through, and the \<open>all\<close> over the peers a peer
  names.  \<open>peers[name]\<close> panics for a name that is no key.
\<close>

function (sequential) visit_peer ::
    "peer_map \<Rightarrow> str \<Rightarrow> str set \<Rightarrow> str set \<Rightarrow> config_error + bool \<times> str set \<times> str set"
  and visit_names ::
    "peer_map \<Rightarrow> str list \<Rightarrow> str set \<Rightarrow> str set \<Rightarrow> config_error + bool \<times> str set \<times> str set" where
  "visit_peer peers name active finished =
     (if name \<in> finished then Inr (True, active, finished)
      else if name \<in> active then Inr (False, active, finished)
      else (case map_of peers name of
              None \<Rightarrow> Inl ConfigPanicked
            | Some p \<Rightarrow>
                and_then (visit_names peers (superiors p) (insert name active) finished)
                  (\<lambda>(ok, active', finished').
                if \<not> ok then Inr (False, active', finished')
                else Inr (True, active' - {name}, insert name finished'))))"
| "visit_names peers [] active finished = Inr (True, active, finished)"
| "visit_names peers (name # names) active finished =
     and_then (visit_peer peers name active finished) (\<lambda>(ok, active', finished').
     if \<not> ok then Inr (False, active', finished')
     else visit_names peers names active' finished')"
  by pat_completeness auto

text \<open>When a visit succeeds the active set is what it was, so the stack of a visit is a simple path.\<close>

lemma visit_restores_active:
  "visit_peer_visit_names_dom (Inl (peers, name, active, finished)) \<Longrightarrow>
   visit_peer peers name active finished = Inr (True, active', finished') \<Longrightarrow> active' = active"
  "visit_peer_visit_names_dom (Inr (peers, names, active, finished)) \<Longrightarrow>
   visit_names peers names active finished = Inr (True, active', finished') \<Longrightarrow> active' = active"
proof (induction peers name active finished and peers names active finished
    arbitrary: active' finished' and active' finished' rule: visit_peer_visit_names.pinduct)
  case (1 peers name active finished)
  from "1.prems" show ?case
    by (auto simp: visit_peer.psimps [OF "1.hyps"] and_then_eq_Inr dest: "1.IH" split: if_splits option.splits)
next
  case (2 peers active finished)
  then show ?case by (simp add: visit_names.psimps)
next
  case (3 peers name names active finished)
  from "3.prems" obtain active1 finished1 where
    "visit_peer peers name active finished = Inr (True, active1, finished1)"
    "visit_names peers names active1 finished1 = Inr (True, active', finished')"
    by (auto simp: visit_names.psimps(2) [OF "3.hyps"] and_then_eq_Inr split: if_splits)
  with "3.IH" show ?case by metis
qed

definition visit_measure ::
    "(peer_map \<times> str \<times> str set \<times> str set) + (peer_map \<times> str list \<times> str set \<times> str set) \<Rightarrow> nat \<times> nat" where
  "visit_measure x =
     (case x of
        Inl (peers, name, active, finished) \<Rightarrow> (card (dom (map_of peers) - active), 0)
      | Inr (peers, names, active, finished) \<Rightarrow> (card (dom (map_of peers) - active), Suc (length names)))"

termination visit_peer
proof (relation "inv_image (less_than <*lex*> less_than) visit_measure")
  fix peers :: peer_map and name active finished p
  assume "name \<notin> active" and "map_of peers name = Some p"
  then have "dom (map_of peers) - insert name active \<subset> dom (map_of peers) - active" by auto
  then have "card (dom (map_of peers) - insert name active) < card (dom (map_of peers) - active)"
    by (intro psubset_card_mono) (auto simp: finite_dom_map_of)
  then show "(Inr (peers, superiors p, insert name active, finished), Inl (peers, name, active, finished))
      \<in> inv_image (less_than <*lex*> less_than) visit_measure"
    by (simp add: visit_measure_def)
next
  fix peers :: peer_map and name names active finished v x xa y ya
  assume "visit_peer_visit_names_dom (Inl (peers, name, active, finished))"
    and "visit_peer peers name active finished = Inr v" and "(x, xa) = v" and "(y, ya) = xa" and "\<not> \<not> x"
  then have "y = active" by (intro visit_restores_active(1) [of peers name active finished y ya]) auto
  then show "(Inr (peers, names, y, ya), Inr (peers, name # names, active, finished))
      \<in> inv_image (less_than <*lex*> less_than) visit_measure"
    by (simp add: visit_measure_def)
qed (auto simp: visit_measure_def)

text \<open>\<open>str::parse\<close> for the unsigned types: an optional plus sign, digits, no overflow.\<close>

definition parse_unsigned :: "int \<Rightarrow> str \<Rightarrow> nat option" where
  "parse_unsigned bound s =
     (let ds = if starts_with 43 s then tl s else s in
      if ds \<noteq> [] \<and> list_all is_digit ds \<and> int (digits_value ds) \<le> bound then Some (digits_value ds) else None)"

definition u16_max :: int where
  "u16_max = 65535"

definition u64_max :: int where
  "u64_max = 18446744073709551615"

text \<open>The variables of the loop over one \<open>Peer\<close> block.\<close>

record peer_block =
  pb_address :: "address option"
  pb_public_key :: "bytes option"
  pb_endpoints :: "config_endpoint list"
  pb_trust_on_first_use :: bool
  pb_boss :: "str option"
  pb_hub :: "str option"

definition empty_peer_block :: peer_block where
  "empty_peer_block =
     \<lparr>pb_address = None, pb_public_key = None, pb_endpoints = [], pb_trust_on_first_use = False,
      pb_boss = None, pb_hub = None\<rparr>"

definition parse_public_key_text :: "(str \<Rightarrow> bytes option) \<Rightarrow> nat \<Rightarrow> str \<Rightarrow> config_error + bytes" where
  "parse_public_key_text decode line v =
     (let bad = err ''peers'' line ''invalid public key'' in
      if length v \<noteq> 43 \<or> 61 \<in> set v then Inl bad
      else (case decode v of
              None \<Rightarrow> Inl bad
            | Some key \<Rightarrow> if length key = 32 then Inr key else Inl bad))"

definition parse_endpoint :: "nat \<Rightarrow> str \<Rightarrow> str \<Rightarrow> config_error + config_endpoint" where
  "parse_endpoint line server port_text =
     and_then (ok_or (err ''peers'' line ''invalid endpoint port'') (parse_unsigned u16_max port_text)) (\<lambda>port.
     if port = 0 \<or> show_nat port \<noteq> port_text \<or> list_ex is_control (chars server)
     then Inl (err ''peers'' line ''invalid endpoint'')
     else Inr \<lparr>ep_server = server, ep_port = port\<rparr>)"

definition peer_directive ::
    "(str \<Rightarrow> bytes option) \<Rightarrow> nat \<Rightarrow> str list \<Rightarrow> peer_block \<Rightarrow> config_error + peer_block" where
  "peer_directive decode line f b =
     (let bad = err ''peers'' line ''unknown, duplicate, or malformed Peer directive'' in
      case f of
        [w] \<Rightarrow>
          if w = lit ''Trust-On-First-Use'' \<and> \<not> pb_trust_on_first_use b
          then Inr (b\<lparr>pb_trust_on_first_use := True\<rparr>) else Inl bad
      | [w, v] \<Rightarrow>
          if w = lit ''Address'' \<and> pb_address b = None
          then and_then (map_err (\<lambda>e. ConfigError ''peers'' line (address_error_text e)) (address_from_str v)) (\<lambda>a.
            Inr (b\<lparr>pb_address := Some a\<rparr>))
          else if w = lit ''Public-Key'' \<and> pb_public_key b = None
          then and_then (parse_public_key_text decode line v) (\<lambda>key. Inr (b\<lparr>pb_public_key := Some key\<rparr>))
          else if w = lit ''Boss'' \<and> pb_boss b = None
          then and_then (peer_ref ''peers'' line v) (\<lambda>name. Inr (b\<lparr>pb_boss := Some name\<rparr>))
          else if w = lit ''Hub'' \<and> pb_hub b = None
          then and_then (peer_ref ''peers'' line v) (\<lambda>name. Inr (b\<lparr>pb_hub := Some name\<rparr>))
          else Inl bad
      | [w, server, port] \<Rightarrow>
          if w = lit ''Endpoint''
          then and_then (parse_endpoint line server port) (\<lambda>e.
            if e \<in> set (pb_endpoints b) then Inl (err ''peers'' line ''duplicate Endpoint'')
            else Inr (b\<lparr>pb_endpoints := pb_endpoints b @ [e]\<rparr>))
          else Inl bad
      | _ \<Rightarrow> Inl bad)"

text \<open>
  The loop over the lines of a block: up to the line \<open>End\<close>, whose number it returns with the lines
  after it.  \<open>stop\<close> is the number the unterminated block is reported at.
\<close>

fun read_block ::
    "config_error \<Rightarrow> (nat \<Rightarrow> str list \<Rightarrow> 'b \<Rightarrow> config_error + 'b) \<Rightarrow> 'b \<Rightarrow> line list
     \<Rightarrow> config_error + 'b \<times> nat \<times> line list" where
  "read_block unterminated directive b [] = Inl unterminated"
| "read_block unterminated directive b (l # ls) =
     (if line_fields l = [lit ''End''] then Inr (b, ln_number l, ls)
      else and_then (directive (ln_number l) (line_fields l) b) (\<lambda>b'.
        read_block unterminated directive b' ls))"

lemma read_block_shorter: "read_block u d b ls = Inr (b', n, rest) \<Longrightarrow> length rest < length ls"
  by (induction ls arbitrary: b) (fastforce simp: and_then_eq_Inr split: if_splits)+

text \<open>\<open>input.last().map_or(1, |v| v.number)\<close>\<close>

definition last_number :: "line list \<Rightarrow> nat" where
  "last_number ls = (if ls = [] then 1 else ln_number (last ls))"

definition finish_peer :: "str \<Rightarrow> nat \<Rightarrow> peer_block \<Rightarrow> config_error + peer" where
  "finish_peer name line b =
     and_then (ok_or (err ''peers'' line ''missing Address'') (pb_address b)) (\<lambda>a.
     if is_anonymous a \<noteq> (pb_public_key b \<noteq> None)
     then Inl (err ''peers'' line ''Public-Key must occur exactly for an anonymous address'')
     else if \<not> is_anonymous a \<and> (pb_boss b \<noteq> None \<or> pb_hub b \<noteq> None)
     then Inl (err ''peers'' line ''Boss and Hub require an anonymous peer'')
     else if pb_trust_on_first_use b \<and> (is_anonymous a \<or> pb_endpoints b = [])
     then Inl (err ''peers'' line ''Trust-On-First-Use requires a non-anonymous address and an Endpoint'')
     else Inr
       \<lparr>peer_name = name, peer_address = a, peer_public_key = pb_public_key b,
        peer_endpoints = pb_endpoints b, peer_trust_on_first_use = pb_trust_on_first_use b,
        peer_boss = pb_boss b, peer_hub = pb_hub b\<rparr>)"

text \<open>\<open>BTreeMap::insert\<close> of a new key, and the identity under which a peer must be unique.\<close>

definition insert_peer :: "str \<Rightarrow> peer \<Rightarrow> peer_map \<Rightarrow> peer_map" where
  "insert_peer name p peers = insort_key fst (name, p) peers"

definition peer_exact :: "peer \<Rightarrow> address \<times> bytes option" where
  "peer_exact p = (peer_address p, peer_public_key p)"

function peers_loop ::
    "(str \<Rightarrow> bytes option) \<Rightarrow> nat \<Rightarrow> peer_map \<Rightarrow> (address \<times> bytes option) set \<Rightarrow> line list
     \<Rightarrow> config_error + peer_map" where
  "peers_loop decode stop peers identities [] = Inr peers"
| "peers_loop decode stop peers identities (l # ls) =
     (case line_fields l of
        [w, name] \<Rightarrow>
          if w \<noteq> lit ''Peer'' \<or> \<not> valid_name name
          then Inl (err ''peers'' (ln_number l) ''expected Peer <name>'')
          else if map_of peers name \<noteq> None
          then Inl (err ''peers'' (ln_number l) ''duplicate peer name'')
          else and_then (read_block (err ''peers'' stop ''unterminated Peer block'') (peer_directive decode)
              empty_peer_block ls) (\<lambda>(b, line, rest).
            and_then (finish_peer name line b) (\<lambda>p.
            if peer_exact p \<in> identities then Inl (err ''peers'' line ''duplicate exact identity'')
            else peers_loop decode stop (insert_peer name p peers) (insert (peer_exact p) identities) rest))
      | _ \<Rightarrow> Inl (err ''peers'' (ln_number l) ''expected Peer <name>''))"
  by pat_completeness auto
termination
  by (relation "measure (\<lambda>(_, _, _, _, ls). length ls)") (auto dest: read_block_shorter)

text \<open>The message \<open>undefined peer\<close> with the first name that is no peer.\<close>

definition check_defined :: "string \<Rightarrow> peer_map \<Rightarrow> str list \<Rightarrow> config_error + unit" where
  "check_defined file peers names =
     (case find (\<lambda>name. map_of peers name = None) names of
        None \<Rightarrow> Inr ()
      | Some name \<Rightarrow> Inl (ConfigError file 0 (lit ''undefined peer @'' @ name)))"

fun check_cycles :: "peer_map \<Rightarrow> str list \<Rightarrow> str set \<Rightarrow> config_error + unit" where
  "check_cycles peers [] finished = Inr ()"
| "check_cycles peers (name # names) finished =
     and_then (visit_peer peers name {} finished) (\<lambda>(ok, active, finished').
     if \<not> ok then Inl (err ''peers'' 0 ''peer relationship cycle'')
     else check_cycles peers names finished')"

definition parse_peers :: "(str \<Rightarrow> bytes option) \<Rightarrow> str \<Rightarrow> config_error + peer_map" where
  "parse_peers decode input =
     and_then (lines ''peers'' input) (\<lambda>ls.
     and_then (peers_loop decode (last_number ls) [] {} ls) (\<lambda>peers.
     and_then (check_defined ''peers'' peers (concat (map (\<lambda>(_, p). superiors p) peers))) (\<lambda>_.
     and_then (check_cycles peers (map fst peers) {}) (\<lambda>_.
     Inr peers))))"

section \<open>Routes\<close>

definition method_of :: "str \<Rightarrow> route_method option" where
  "method_of w =
     (if w = lit ''Direct'' then Some Direct
      else if w = lit ''Boss'' then Some Boss
      else if w = lit ''Hub'' then Some Hub
      else if w = lit ''Host'' then Some Host
      else if w = lit ''Region'' then Some Region
      else if w = lit ''Zone'' then Some Zone
      else if w = lit ''Hold'' then Some Hold
      else None)"

text \<open>One method off the front of the list, with the number of fields it takes.\<close>

definition take_method :: "nat \<Rightarrow> str list \<Rightarrow> config_error + route_method \<times> nat" where
  "take_method line vs =
     (if hd vs = lit ''Via''
      then and_then (ok_or (err ''routes'' line ''missing Via peer'') (case tl vs of [] \<Rightarrow> None | v # _ \<Rightarrow> Some v)) (\<lambda>v.
        and_then (peer_ref ''routes'' line v) (\<lambda>name. Inr (Via name, 2)))
      else and_then (ok_or (err ''routes'' line ''invalid route method'') (method_of (hd vs))) (\<lambda>m. Inr (m, 1)))"

lemma take_method_used: "take_method line vs = Inr (m, used) \<Longrightarrow> 0 < used"
  by (auto simp: take_method_def result_simps split: if_splits)

function methods_loop :: "nat \<Rightarrow> route_method list \<Rightarrow> str list \<Rightarrow> config_error + route_method list" where
  "methods_loop line ms vs =
     (if vs = [] then Inr ms
      else and_then (take_method line vs) (\<lambda>(m, used).
        if m \<in> set ms then Inl (err ''routes'' line ''duplicate route method'')
        else methods_loop line (ms @ [m]) (drop used vs)))"
  by pat_completeness auto
termination
  by (relation "measure (\<lambda>(_, _, vs). length vs)") (auto dest: take_method_used)

declare methods_loop.simps [simp del]

text \<open>The slice before the first \<open>On-Failure\<close>, and the slice after it.\<close>

definition split_failure :: "str list \<Rightarrow> str list \<times> str list option" where
  "split_failure vs =
     (let before = takeWhile (\<lambda>v. v \<noteq> lit ''On-Failure'') vs in
      (before, case dropWhile (\<lambda>v. v \<noteq> lit ''On-Failure'') vs of [] \<Rightarrow> None | _ # after \<Rightarrow> Some after))"

definition parse_methods :: "nat \<Rightarrow> str list \<Rightarrow> config_error + route_method list \<times> failure_policy option" where
  "parse_methods line vs =
     (case split_failure vs of (method_values, failure_values) \<Rightarrow>
        and_then (methods_loop line [] method_values) (\<lambda>ms.
        if ms = [] \<or> Hold \<in> set (butlast ms) then Inl (err ''routes'' line ''invalid method list'')
        else and_then (map_transpose (parse_policy ''routes'' line) failure_values) (\<lambda>policy.
          Inr (ms, policy))))"

record routes_block =
  rb_routes :: "route_rule list"
  rb_relay :: "relay_rule list"
  rb_failures :: "failure_rule list"
  rb_failure_default :: "failure_policy option"

definition empty_routes_block :: routes_block where
  "empty_routes_block = \<lparr>rb_routes = [], rb_relay = [], rb_failures = [], rb_failure_default = None\<rparr>"

text \<open>\<open>f.get(at) != Some(&word)\<close>\<close>

definition keyword_at :: "nat \<Rightarrow> string \<Rightarrow> str list \<Rightarrow> bool" where
  "keyword_at at word f \<longleftrightarrow> at < length f \<and> f ! at = lit word"

definition route_directive :: "nat \<Rightarrow> str list \<Rightarrow> routes_block \<Rightarrow> config_error + routes_block" where
  "route_directive line f b =
     and_then (parse_selector ''routes'' line (drop 1 f)) (\<lambda>(destination, used).
     if \<not> keyword_at (1 + used) ''Using'' f then Inl (err ''routes'' line ''missing Using'')
     else and_then (parse_methods line (drop (used + 2) f)) (\<lambda>(methods, on_failure).
       let rule = \<lparr>rule_destination = destination, rule_methods = methods, rule_on_failure = on_failure\<rparr> in
       if rule \<in> set (rb_routes b) then Inl (err ''routes'' line ''duplicate Route'')
       else Inr (b\<lparr>rb_routes := rb_routes b @ [rule]\<rparr>)))"

definition relay_tail :: "nat \<Rightarrow> str list \<Rightarrow> config_error + failure_policy option" where
  "relay_tail line rest =
     (case rest of
        [] \<Rightarrow> Inr None
      | w # policy \<Rightarrow>
          if w = lit ''On-Failure''
          then and_then (parse_policy ''routes'' line policy) (\<lambda>p. Inr (Some p))
          else Inl (err ''routes'' line ''invalid relay tail''))"

definition relay_directive :: "nat \<Rightarrow> str list \<Rightarrow> routes_block \<Rightarrow> config_error + routes_block" where
  "relay_directive line f b =
     (if \<not> keyword_at 1 ''From'' f then Inl (err ''routes'' line ''missing From'')
      else and_then (parse_selector ''routes'' line (drop 2 f)) (\<lambda>(from_selector, u1).
        let p2 = 2 + u1 in
        if \<not> keyword_at p2 ''Origin'' f then Inl (err ''routes'' line ''missing Origin'')
        else and_then (parse_selector ''routes'' line (drop (p2 + 1) f)) (\<lambda>(origin, u2).
        let p3 = p2 + 1 + u2 in
        if \<not> keyword_at p3 ''Destination'' f then Inl (err ''routes'' line ''missing Destination'')
        else and_then (parse_selector ''routes'' line (drop (p3 + 1) f)) (\<lambda>(destination, u3).
        and_then (relay_tail line (drop (p3 + 1 + u3) f)) (\<lambda>on_failure.
        and_then
          (if hd f = lit ''Allow-Relay'' then Inr (RelayAllow on_failure)
           else if on_failure = None then Inr RelayDeny
           else Inl (err ''routes'' line ''Deny-Relay cannot carry On-Failure'')) (\<lambda>action.
        let rule = \<lparr>relay_act = action, relay_from = from_selector, relay_origin = origin,
              relay_destination = destination\<rparr> in
        if rule \<in> set (rb_relay b) then Inl (err ''routes'' line ''duplicate relay rule'')
        else Inr (b\<lparr>rb_relay := rb_relay b @ [rule]\<rparr>)))))))"

definition failure_kind_of :: "str list \<Rightarrow> failure_kind option" where
  "failure_kind_of f =
     (if keyword_at 1 ''Any'' f then Some FailAny
      else if keyword_at 1 ''Relay-Denied'' f then Some FailRelayDenied
      else if keyword_at 1 ''Rejected'' f then Some FailRejected
      else None)"

definition failure_directive :: "nat \<Rightarrow> str list \<Rightarrow> routes_block \<Rightarrow> config_error + routes_block" where
  "failure_directive line f b =
     and_then (ok_or (err ''routes'' line ''invalid failure kind'') (failure_kind_of f)) (\<lambda>kind.
     if \<not> keyword_at 2 ''Origin'' f then Inl (err ''routes'' line ''missing Origin'')
     else and_then (parse_selector ''routes'' line (drop 3 f)) (\<lambda>(origin, u1).
       let p = 3 + u1 in
       if \<not> keyword_at p ''Destination'' f then Inl (err ''routes'' line ''missing Destination'')
       else and_then (parse_selector ''routes'' line (drop (p + 1) f)) (\<lambda>(destination, u2).
       and_then (parse_policy ''routes'' line (drop (p + 1 + u2) f)) (\<lambda>policy.
       let rule = \<lparr>fail_kind = kind, fail_origin = origin, fail_destination = destination,
             fail_policy = policy\<rparr> in
       if rule \<in> set (rb_failures b) then Inl (err ''routes'' line ''duplicate Failure'')
       else Inr (b\<lparr>rb_failures := rb_failures b @ [rule]\<rparr>)))))"

definition routes_directive :: "nat \<Rightarrow> str list \<Rightarrow> routes_block \<Rightarrow> config_error + routes_block" where
  "routes_directive line f b =
     (if keyword_at 0 ''Route'' f then route_directive line f b
      else if keyword_at 0 ''Allow-Relay'' f \<or> keyword_at 0 ''Deny-Relay'' f then relay_directive line f b
      else if keyword_at 0 ''Failure-Default'' f \<and> rb_failure_default b = None
      then and_then (parse_policy ''routes'' line (drop 1 f)) (\<lambda>p. Inr (b\<lparr>rb_failure_default := Some p\<rparr>))
      else if keyword_at 0 ''Failure'' f then failure_directive line f b
      else Inl (err ''routes'' line ''unknown or malformed Routes directive''))"

definition default_policy :: failure_policy where
  "default_policy = \<lparr>pol_disposition = DeadLetter, pol_notification = NotifyNone\<rparr>"

function routes_loop ::
    "nat \<Rightarrow> routes list \<Rightarrow> identity_ref set \<Rightarrow> line list \<Rightarrow> config_error + routes list" where
  "routes_loop stop output locals [] = Inr output"
| "routes_loop stop output locals (l # ls) =
     (case line_fields l of
        [w, v] \<Rightarrow>
          if w \<noteq> lit ''Routes'' then Inl (err ''routes'' (ln_number l) ''expected Routes <local-identity>'')
          else and_then (identity_value ''routes'' (ln_number l) v) (\<lambda>local.
            if local \<in> locals then Inl (err ''routes'' (ln_number l) ''duplicate Routes identity'')
            else and_then (read_block (err ''routes'' stop ''unterminated Routes block'') routes_directive
                empty_routes_block ls) (\<lambda>(b, line, rest).
              routes_loop stop
                (output @ [\<lparr>rt_local = local, rt_routes = rb_routes b, rt_relay = rb_relay b,
                    rt_failures = rb_failures b,
                    rt_failure_default = (case rb_failure_default b of Some p \<Rightarrow> p | None \<Rightarrow> default_policy)\<rparr>])
                (insert local locals) rest))
      | _ \<Rightarrow> Inl (err ''routes'' (ln_number l) ''expected Routes <local-identity>''))"
  by pat_completeness auto
termination
  by (relation "measure (\<lambda>(_, _, _, ls). length ls)") (auto dest: read_block_shorter)

definition parse_routes :: "str \<Rightarrow> config_error + routes list" where
  "parse_routes input =
     and_then (lines ''routes'' input) (\<lambda>ls.
     and_then (routes_loop (last_number ls) [] {} ls) (\<lambda>output.
     if output = [] then Inl (err ''routes'' 0 ''at least one Routes block is required'') else Inr output))"

section \<open>Areas\<close>

text \<open>The lists a block of one area builds up: \<open>receive_from\<close> and \<open>send_to\<close>.\<close>

definition area_directive ::
    "nat \<Rightarrow> str list \<Rightarrow> str list \<times> area_link list \<Rightarrow> config_error + str list \<times> area_link list" where
  "area_directive line f b =
     (case b of (receive_from, send_to) \<Rightarrow>
      if length f = 2 \<and> keyword_at 0 ''Receive-From'' f
      then and_then (peer_ref ''areas'' line (f ! 1)) (\<lambda>peer.
        if peer \<in> set receive_from then Inl (err ''areas'' line ''duplicate Receive-From'')
        else Inr (receive_from @ [peer], send_to))
      else if keyword_at 0 ''Send-To'' f \<and> (length f = 2 \<or> length f = 4 \<and> keyword_at 2 ''Class'' f)
      then and_then (peer_ref ''areas'' line (f ! 1)) (\<lambda>peer.
        if peer \<in> link_peer ` set send_to then Inl (err ''areas'' line ''duplicate Send-To'')
        else let class = (if 3 < length f then f ! 3 else lit ''Normal'') in
          if \<not> valid_name class then Inl (err ''areas'' line ''invalid class'')
          else Inr (receive_from, send_to @ [\<lparr>link_peer = peer, link_class = class\<rparr>]))
      else Inl (err ''areas'' line ''unknown or malformed area directive''))"

definition file_area_of :: "str \<Rightarrow> bool option" where
  "file_area_of directive =
     (if directive = lit ''EchoArea'' then Some False
      else if directive = lit ''FileArea'' then Some True else None)"

function area_blocks ::
    "nat \<Rightarrow> area_config list \<Rightarrow> (bool \<times> str) set \<Rightarrow> line list \<Rightarrow> config_error + area_config list \<times> line list" where
  "area_blocks stop areas names [] = Inl (err ''areas'' stop ''unterminated Areas block'')"
| "area_blocks stop areas names (l # ls) =
     (if ln_text l = lit ''End'' then Inr (areas, ls)
      else case find_split is_separator (ln_text l) of (directive, found) \<Rightarrow>
        if found = [] then Inl (err ''areas'' (ln_number l) ''expected area name'')
        else let name = trim_separators (tl found) in
          and_then (ok_or (err ''areas'' (ln_number l) ''expected EchoArea, FileArea, or End'')
            (file_area_of directive)) (\<lambda>file_area.
          if name = [] \<or> (file_area, name) \<in> names
          then Inl (err ''areas'' (ln_number l) ''empty or duplicate area'')
          else and_then (read_block (err ''areas'' stop ''unterminated area block'') area_directive ([], []) ls)
            (\<lambda>(lists, line, rest).
            area_blocks stop
              (areas @ [\<lparr>ar_file_area = file_area, ar_name = name, ar_receive_from = fst lists,
                  ar_send_to = snd lists\<rparr>])
              (insert (file_area, name) names) rest)))"
  by pat_completeness auto
termination
  by (relation "measure (\<lambda>(_, _, _, ls). length ls)") (auto dest: read_block_shorter)

lemma area_blocks_shorter: "area_blocks stop areas names ls = Inr (areas', rest) \<Longrightarrow> length rest < length ls"
proof (induction stop areas names ls rule: area_blocks.induct)
  case (2 stop areas names l ls)
  show ?case
  proof (cases "ln_text l = lit ''End''")
    case True
    then show ?thesis using "2.prems" by simp
  next
    case False
    obtain directive found where split: "find_split is_separator (ln_text l) = (directive, found)" by fastforce
    with False "2.prems" obtain file_area lists line rest' where
      ok: "found \<noteq> []" "ok_or (err ''areas'' (ln_number l) ''expected EchoArea, FileArea, or End'')
         (file_area_of directive) = Inr file_area"
      "\<not> (trim_separators (tl found) = [] \<or> (file_area, trim_separators (tl found)) \<in> names)"
      and inner: "read_block (err ''areas'' stop ''unterminated area block'') area_directive ([], []) ls =
         Inr (lists, line, rest')"
      "area_blocks stop (areas @ [\<lparr>ar_file_area = file_area, ar_name = trim_separators (tl found),
         ar_receive_from = fst lists, ar_send_to = snd lists\<rparr>])
         (insert (file_area, trim_separators (tl found)) names) rest' = Inr (areas', rest)"
      by (auto simp: and_then_eq_Inr Let_def split: if_splits prod.splits)
    from "2.IH" [OF False split [symmetric] ok(1) refl ok(2,3) inner(1) refl refl inner(2)]
      read_block_shorter [OF inner(1)] show ?thesis by simp
  qed
qed simp

function areas_loop ::
    "nat \<Rightarrow> areas list \<Rightarrow> identity_ref set \<Rightarrow> line list \<Rightarrow> config_error + areas list" where
  "areas_loop stop output locals [] = Inr output"
| "areas_loop stop output locals (l # ls) =
     (case line_fields l of
        [w, v] \<Rightarrow>
          if w \<noteq> lit ''Areas'' then Inl (err ''areas'' (ln_number l) ''expected Areas <local-identity>'')
          else and_then (identity_value ''areas'' (ln_number l) v) (\<lambda>local.
            if local \<in> locals then Inl (err ''areas'' (ln_number l) ''duplicate Areas identity'')
            else and_then (area_blocks stop [] {} ls) (\<lambda>(group, rest).
              areas_loop stop (output @ [\<lparr>as_local = local, as_areas = group\<rparr>]) (insert local locals) rest))
      | _ \<Rightarrow> Inl (err ''areas'' (ln_number l) ''expected Areas <local-identity>''))"
  by pat_completeness auto
termination
  by (relation "measure (\<lambda>(_, _, _, ls). length ls)") (auto dest: area_blocks_shorter)

definition parse_areas :: "str \<Rightarrow> config_error + areas list" where
  "parse_areas input =
     and_then (lines ''areas'' input) (\<lambda>ls. areas_loop (last_number ls) [] {} ls)"

section \<open>Schedules\<close>

definition decimal_text :: "str \<Rightarrow> bool" where
  "decimal_text v \<longleftrightarrow> v = lit ''0'' \<or> \<not> starts_with 48 v \<and> list_all is_digit v"

definition parse_duration :: "nat \<Rightarrow> str \<Rightarrow> config_error + nat" where
  "parse_duration line v =
     (let invalid = err ''schedules'' line ''invalid duration'';
          overflow = err ''schedules'' line ''duration overflow'' in
      case find_split (\<lambda>b. b = 58) v of (hours, found) \<Rightarrow>
        if found \<noteq> [] then
          let minutes = tl found in
          if \<not> decimal_text hours \<or> length minutes \<noteq> 2 \<or> \<not> list_all is_digit minutes then Inl invalid
          else and_then (ok_or invalid (parse_unsigned u64_max minutes)) (\<lambda>m.
            if 59 < m then Inl invalid
            else (case parse_unsigned u64_max hours of
                    None \<Rightarrow> Inl overflow
                  | Some h \<Rightarrow> if int (h * 60 + m) \<le> u64_max then Inr (h * 60 + m) else Inl overflow))
        else if decimal_text v then ok_or overflow (parse_unsigned u64_max v)
        else Inl invalid)"

text \<open>
  The slices \<open>&value[2..3]\<close>, \<open>&value[..2]\<close> and \<open>&value[3..]\<close> panic unless 2 and 3 are character
  boundaries of the string.
\<close>

definition parse_start :: "nat \<Rightarrow> str \<Rightarrow> config_error + nat" where
  "parse_start line v =
     (let invalid = err ''schedules'' line ''invalid Start'' in
      if length v \<noteq> 5 then Inl invalid
      else if utf8_cont (v ! 2) \<or> utf8_cont (v ! 3) then Inl ConfigPanicked
      else if v ! 2 \<noteq> 58 then Inl invalid
      else and_then (ok_or invalid (parse_unsigned u16_max (take 2 v))) (\<lambda>hour.
        and_then (ok_or invalid (parse_unsigned u16_max (drop 3 v))) (\<lambda>minute.
        if 23 < hour \<or> 59 < minute then Inl invalid else Inr (hour * 60 + minute))))"

record schedule_block =
  sb_origin :: "identity_ref option"
  sb_classes :: "str list"
  sb_next_hops :: "selector list"
  sb_polls :: "str list"
  sb_start :: "(bool \<times> nat) option"
  sb_duration :: "nat option"
  sb_repeat :: "nat option"

definition empty_schedule_block :: schedule_block where
  "empty_schedule_block =
     \<lparr>sb_origin = None, sb_classes = [], sb_next_hops = [], sb_polls = [], sb_start = None,
      sb_duration = None, sb_repeat = None\<rparr>"

definition start_directive :: "nat \<Rightarrow> str list \<Rightarrow> schedule_block \<Rightarrow> config_error + schedule_block" where
  "start_directive line f b =
     and_then
       (case f of
          [_, v] \<Rightarrow> Inr (False, v)
        | [_, w, v] \<Rightarrow> if w = lit ''Local'' then Inr (True, v) else Inl (err ''schedules'' line ''invalid Start'')
        | _ \<Rightarrow> Inl (err ''schedules'' line ''invalid Start'')) (\<lambda>(local, v).
     and_then (parse_start line v) (\<lambda>minutes. Inr (b\<lparr>sb_start := Some (local, minutes)\<rparr>)))"

definition schedule_directive :: "nat \<Rightarrow> str list \<Rightarrow> schedule_block \<Rightarrow> config_error + schedule_block" where
  "schedule_directive line f b =
     (if keyword_at 0 ''Origin'' f \<and> length f = 2 \<and> sb_origin b = None
      then and_then (identity_value ''schedules'' line (f ! 1)) (\<lambda>v. Inr (b\<lparr>sb_origin := Some v\<rparr>))
      else if keyword_at 0 ''Class'' f \<and> length f = 2 \<and> valid_name (f ! 1)
      then if f ! 1 \<in> set (sb_classes b) then Inl (err ''schedules'' line ''duplicate Class'')
        else Inr (b\<lparr>sb_classes := sb_classes b @ [f ! 1]\<rparr>)
      else if keyword_at 0 ''Next-Hop'' f
      then and_then (parse_selector ''schedules'' line (drop 1 f)) (\<lambda>(v, used).
        if used + 1 \<noteq> length f \<or> v \<in> set (sb_next_hops b)
        then Inl (err ''schedules'' line ''invalid or duplicate Next-Hop'')
        else Inr (b\<lparr>sb_next_hops := sb_next_hops b @ [v]\<rparr>))
      else if keyword_at 0 ''Poll'' f \<and> length f = 2
      then and_then (peer_ref ''schedules'' line (f ! 1)) (\<lambda>v.
        if v \<in> set (sb_polls b) then Inl (err ''schedules'' line ''duplicate Poll'')
        else Inr (b\<lparr>sb_polls := sb_polls b @ [v]\<rparr>))
      else if keyword_at 0 ''Start'' f \<and> sb_start b = None then start_directive line f b
      else if keyword_at 0 ''Duration'' f \<and> length f = 2 \<and> sb_duration b = None
      then and_then (parse_duration line (f ! 1)) (\<lambda>v. Inr (b\<lparr>sb_duration := Some v\<rparr>))
      else if keyword_at 0 ''Repeat-After'' f \<and> length f = 2 \<and> sb_repeat b = None
      then and_then (parse_duration line (f ! 1)) (\<lambda>v.
        if v = 0 then Inl (err ''schedules'' line ''Repeat-After must be positive'')
        else Inr (b\<lparr>sb_repeat := Some v\<rparr>))
      else Inl (err ''schedules'' line ''unknown, duplicate, or malformed Schedule directive''))"

definition finish_schedule :: "str \<Rightarrow> nat \<Rightarrow> schedule_block \<Rightarrow> config_error + schedule" where
  "finish_schedule name line b =
     and_then (ok_or (err ''schedules'' line ''missing Origin'') (sb_origin b)) (\<lambda>origin.
     let start = (case sb_start b of Some v \<Rightarrow> v | None \<Rightarrow> (False, 0)) in
     Inr \<lparr>sch_name = name, sch_origin = origin,
       sch_classes = (if sb_classes b = [] then [lit ''Normal''] else sb_classes b),
       sch_next_hops = (if sb_next_hops b = [] then [SelectAll] else sb_next_hops b),
       sch_polls = sb_polls b, sch_start_local = fst start, sch_start_minutes = snd start,
       sch_duration_minutes = (case sb_duration b of Some v \<Rightarrow> v | None \<Rightarrow> 0),
       sch_repeat_after_minutes = (case sb_repeat b of Some v \<Rightarrow> v | None \<Rightarrow> 1)\<rparr>)"

function schedules_loop :: "nat \<Rightarrow> schedule list \<Rightarrow> str set \<Rightarrow> line list \<Rightarrow> config_error + schedule list" where
  "schedules_loop stop output names [] = Inr output"
| "schedules_loop stop output names (l # ls) =
     (case line_fields l of
        [w, name] \<Rightarrow>
          if w \<noteq> lit ''Schedule'' \<or> \<not> valid_name name \<or> name \<in> names
          then Inl (err ''schedules'' (ln_number l) ''invalid or duplicate Schedule name'')
          else and_then (read_block (err ''schedules'' stop ''unterminated Schedule block'') schedule_directive
              empty_schedule_block ls) (\<lambda>(b, line, rest).
            and_then (finish_schedule name line b) (\<lambda>s.
            schedules_loop stop (output @ [s]) (insert name names) rest))
      | _ \<Rightarrow> Inl (err ''schedules'' (ln_number l) ''invalid or duplicate Schedule name''))"
  by pat_completeness auto
termination
  by (relation "measure (\<lambda>(_, _, _, ls). length ls)") (auto dest: read_block_shorter)

definition parse_schedules :: "str \<Rightarrow> config_error + schedule list" where
  "parse_schedules input =
     and_then (lines ''schedules'' input) (\<lambda>ls. schedules_loop (last_number ls) [] {} ls)"

section \<open>The configuration set\<close>

fun selector_peers :: "selector \<Rightarrow> str list" where
  "selector_peers (SelectPeer name) = [name]"
| "selector_peers _ = []"

fun via_peers :: "route_method \<Rightarrow> str list" where
  "via_peers (Via name) = [name]"
| "via_peers _ = []"

fun check_identity :: "string \<Rightarrow> peer_map \<Rightarrow> identity_ref \<Rightarrow> config_error + unit" where
  "check_identity file peers (RefPeer name) = check_defined file peers [name]"
| "check_identity file peers (RefAddress a) = Inr ()"

definition check_routes :: "peer_map \<Rightarrow> routes \<Rightarrow> config_error + unit" where
  "check_routes peers r =
     and_then (check_identity ''routes'' peers (rt_local r)) (\<lambda>_.
     and_then
       (check_defined ''routes'' peers
         (concat (map (\<lambda>rule. selector_peers (rule_destination rule) @ concat (map via_peers (rule_methods rule)))
           (rt_routes r)))) (\<lambda>_.
     check_defined ''routes'' peers
       (concat (map (\<lambda>rule. selector_peers (relay_from rule) @ selector_peers (relay_origin rule)
          @ selector_peers (relay_destination rule)) (rt_relay r)))))"

definition check_areas :: "peer_map \<Rightarrow> identity_ref set \<Rightarrow> areas \<Rightarrow> config_error + unit" where
  "check_areas peers locals g =
     and_then (check_identity ''areas'' peers (as_local g)) (\<lambda>_.
     if as_local g \<notin> locals then Inl (err ''areas'' 0 ''Areas identity has no Routes block'')
     else check_defined ''areas'' peers
       (concat (map (\<lambda>a. ar_receive_from a @ map link_peer (ar_send_to a)) (as_areas g))))"

definition check_schedule :: "peer_map \<Rightarrow> identity_ref set \<Rightarrow> schedule \<Rightarrow> config_error + unit" where
  "check_schedule peers locals s =
     and_then (check_identity ''schedules'' peers (sch_origin s)) (\<lambda>_.
     if sch_origin s \<notin> locals then Inl (err ''schedules'' 0 ''Schedule origin has no Routes block'')
     else check_defined ''schedules'' peers
       (sch_polls s @ concat (map selector_peers (sch_next_hops s))))"

definition parse_configuration ::
    "(str \<Rightarrow> bytes option) \<Rightarrow> str \<Rightarrow> str \<Rightarrow> str \<Rightarrow> str \<Rightarrow> config_error + configuration_set" where
  "parse_configuration decode peers_text routes_text areas_text schedules_text =
     and_then (parse_peers decode peers_text) (\<lambda>peers.
     and_then (parse_routes routes_text) (\<lambda>routes.
     and_then (parse_areas areas_text) (\<lambda>areas.
     and_then (parse_schedules schedules_text) (\<lambda>schedules.
     let locals = rt_local ` set routes in
     and_then (try_map (check_routes peers) routes) (\<lambda>_.
     and_then (try_map (check_areas peers locals) areas) (\<lambda>_.
     and_then (try_map (check_schedule peers locals) schedules) (\<lambda>_.
     Inr \<lparr>cfg_peers = peers, cfg_routes = routes, cfg_areas = areas, cfg_schedules = schedules\<rparr>)))))))"

end
