(* ===== verification/Config_Safety.thy ===== *)
theory Config_Safety
  imports Config
begin

text \<open>
  Correctness of the configuration parser: exactness of the cycle check on peers, the invariants of
  every block kept directive by directive (the interface \<open>block_directive\<close>, interpreted for the four
  kinds of block), and the references of the whole set.
\<close>

section \<open>The peer relation\<close>

declare visit_peer.simps [simp del]

definition edges :: "peer_map \<Rightarrow> (str \<times> str) set" where
  "edges peers = {(a, b). \<exists>p. map_of peers a = Some p \<and> b \<in> set (superiors p)}"

definition closed_peers :: "peer_map \<Rightarrow> bool" where
  "closed_peers peers \<longleftrightarrow> (\<forall>a b. (a, b) \<in> edges peers \<longrightarrow> map_of peers b \<noteq> None)"

text \<open>The peers from which every chain of Boss and Hub references ends.\<close>

definition grounded :: "peer_map \<Rightarrow> str set" where
  "grounded peers = Wellfounded.acc ((edges peers)\<inverse>)"

lemma groundedI: "(\<And>b. (a, b) \<in> edges peers \<Longrightarrow> b \<in> grounded peers) \<Longrightarrow> a \<in> grounded peers"
  unfolding grounded_def by (rule accI) auto

lemma visit_peer_True:
  assumes "visit_peer peers name active finished = Inr (True, active', finished')" and "name \<notin> finished"
  obtains p active1 finished1 where "name \<notin> active" "map_of peers name = Some p"
    and "visit_names peers (superiors p) (insert name active) finished = Inr (True, active1, finished1)"
    and "finished' = insert name finished1" "active' = active1 - {name}"
  using assms by (auto simp: visit_peer.simps [of peers name] and_then_eq_Inr split: if_splits option.splits)

lemma visit_peer_False:
  assumes "visit_peer peers name active finished = Inr (False, active', finished')" and "name \<notin> active"
  obtains p where "name \<notin> finished" "map_of peers name = Some p"
    and "visit_names peers (superiors p) (insert name active) finished = Inr (False, active', finished')"
  using assms by (auto simp: visit_peer.simps [of peers name] and_then_eq_Inr split: if_splits option.splits)

lemma visit_names_Cons:
  assumes "visit_names peers (name # names) active finished = Inr (ok, active', finished')"
  obtains "\<not> ok" and "visit_peer peers name active finished = Inr (False, active', finished')"
  | active1 finished1 where
    "visit_peer peers name active finished = Inr (True, active1, finished1)"
    "visit_names peers names active1 finished1 = Inr (ok, active', finished')"
  using assms by (auto simp: and_then_eq_Inr split: if_splits)

lemma visit_active:
  "visit_peer peers name active finished = Inr (True, active', finished') \<Longrightarrow> active' = active"
  "visit_names peers names active finished = Inr (True, active', finished') \<Longrightarrow> active' = active"
proof (induction peers name active finished and peers names active finished
    arbitrary: active' finished' and active' finished' rule: visit_peer_visit_names.induct)
  case (1 peers name active finished)
  show ?case
  proof (cases "name \<in> finished")
    case True
    with "1.prems" show ?thesis by (simp add: visit_peer.simps)
  next
    case False
    with "1.prems" obtain p active1 finished1 where more: "name \<notin> active" "map_of peers name = Some p"
      and "visit_names peers (superiors p) (insert name active) finished = Inr (True, active1, finished1)"
      and "active' = active1 - {name}"
      by (rule visit_peer_True)
    with "1.IH" [OF False more] show ?thesis by simp
  qed
next
  case (3 peers name names active finished)
  from "3.prems" show ?case
    by (rule visit_names_Cons) (use "3.IH" in \<open>simp, metis\<close>)
qed simp

lemma visit_sound:
  "visit_peer peers name active finished = Inr (True, active', finished') \<Longrightarrow>
     name \<in> finished' \<and> finished \<subseteq> finished' \<and> (finished \<subseteq> grounded peers \<longrightarrow> finished' \<subseteq> grounded peers)"
  "visit_names peers names active finished = Inr (True, active', finished') \<Longrightarrow>
     set names \<subseteq> finished' \<and> finished \<subseteq> finished' \<and> (finished \<subseteq> grounded peers \<longrightarrow> finished' \<subseteq> grounded peers)"
proof (induction peers name active finished and peers names active finished
    arbitrary: active' finished' and active' finished' rule: visit_peer_visit_names.induct)
  case (1 peers name active finished)
  show ?case
  proof (cases "name \<in> finished")
    case True
    with "1.prems" show ?thesis by (simp add: visit_peer.simps)
  next
    case False
    with "1.prems" obtain p active1 finished1 where more: "name \<notin> active" "map_of peers name = Some p"
      and visit: "visit_names peers (superiors p) (insert name active) finished = Inr (True, active1, finished1)"
      and result: "finished' = insert name finished1"
      by (rule visit_peer_True)
    note IH = "1.IH" [OF False more visit]
    have "name \<in> grounded peers" if "finished1 \<subseteq> grounded peers"
    proof (rule groundedI)
      fix b assume "(name, b) \<in> edges peers"
      then have "b \<in> set (superiors p)" using more(2) by (simp add: edges_def)
      then show "b \<in> grounded peers" using IH that by blast
    qed
    with IH result show ?thesis by blast
  qed
next
  case (3 peers name names active finished)
  from "3.prems" show ?case
  proof (rule visit_names_Cons)
    fix active1 finished1
    assume visit: "visit_peer peers name active finished = Inr (True, active1, finished1)"
      "visit_names peers names active1 finished1 = Inr (True, active', finished')"
    from "3.IH"(1) [OF visit(1)] "3.IH"(2) [OF visit(1) refl refl _ visit(2)] show ?thesis by auto
  qed simp
qed simp

lemma visit_complete:
  "visit_peer peers name active finished = Inr (False, active', finished') \<Longrightarrow>
     (\<And>a. a \<in> active \<Longrightarrow> (a, name) \<in> (edges peers)\<^sup>+) \<Longrightarrow> \<not> acyclic (edges peers)"
  "visit_names peers names active finished = Inr (False, active', finished') \<Longrightarrow>
     (\<And>a n. a \<in> active \<Longrightarrow> n \<in> set names \<Longrightarrow> (a, n) \<in> (edges peers)\<^sup>+) \<Longrightarrow> \<not> acyclic (edges peers)"
proof (induction peers name active finished and peers names active finished
    arbitrary: active' finished' and active' finished' rule: visit_peer_visit_names.induct)
  case (1 peers name active finished)
  show ?case
  proof (cases "name \<in> active")
    case True
    with "1.prems"(2) show ?thesis by (auto simp: acyclic_def)
  next
    case False
    with "1.prems"(1) obtain p where more: "name \<notin> finished" "map_of peers name = Some p"
      and visit: "visit_names peers (superiors p) (insert name active) finished = Inr (False, active', finished')"
      by (rule visit_peer_False)
    have "(a, n) \<in> (edges peers)\<^sup>+" if "a \<in> insert name active" "n \<in> set (superiors p)" for a n
    proof -
      have "(name, n) \<in> edges peers" using that(2) more(2) by (auto simp: edges_def)
      with that(1) "1.prems"(2) show ?thesis by (auto intro: trancl_into_trancl)
    qed
    with "1.IH" [OF more(1) False more(2) visit] show ?thesis by blast
  qed
next
  case (3 peers name names active finished)
  from "3.prems"(1) show ?case
  proof (rule visit_names_Cons)
    assume "visit_peer peers name active finished = Inr (False, active', finished')"
    with "3.IH"(1) "3.prems"(2) show ?thesis by simp
  next
    fix active1 finished1
    assume visit: "visit_peer peers name active finished = Inr (True, active1, finished1)"
      "visit_names peers names active1 finished1 = Inr (False, active', finished')"
    have "active1 = active" by (rule visit_active(1) [OF visit(1)])
    with "3.IH"(2) [OF visit(1) refl refl _ visit(2)] "3.prems"(2) show ?thesis by auto
  qed
qed simp

lemma visit_no_error:
  "closed_peers peers \<Longrightarrow> map_of peers name \<noteq> None \<Longrightarrow> visit_peer peers name active finished \<noteq> Inl e"
  "closed_peers peers \<Longrightarrow> (\<And>n. n \<in> set names \<Longrightarrow> map_of peers n \<noteq> None) \<Longrightarrow>
   visit_names peers names active finished \<noteq> Inl e"
proof (induction peers name active finished and peers names active finished
    rule: visit_peer_visit_names.induct)
  case (1 peers name active finished)
  have "map_of peers n \<noteq> None" if "map_of peers name = Some p" "n \<in> set (superiors p)" for p n
    using "1.prems"(1) that by (auto simp: closed_peers_def edges_def simp del: not_None_eq)
  with 1 show ?case
    by (auto simp: visit_peer.simps [of peers name] and_then_eq_Inl simp del: not_None_eq split: if_splits option.splits)
next
  case (3 peers name names active finished)
  then show ?case by (auto simp: and_then_eq_Inl simp del: not_None_eq split: if_splits)
qed simp

lemma check_cycles_sound:
  "check_cycles peers names finished = Inr () \<Longrightarrow> finished \<subseteq> grounded peers \<Longrightarrow> set names \<subseteq> grounded peers"
proof (induction names arbitrary: finished)
  case (Cons name names)
  then obtain active' finished' where visit: "visit_peer peers name {} finished = Inr (True, active', finished')"
    "check_cycles peers names finished' = Inr ()"
    by (auto simp: and_then_eq_Inr split: if_splits)
  with visit_sound(1) [OF visit(1)] Cons.prems(2) Cons.IH [OF visit(2)] show ?case by auto
qed simp

lemma check_cycles_complete:
  assumes "closed_peers peers" and "\<And>n. n \<in> set names \<Longrightarrow> map_of peers n \<noteq> None"
    and "check_cycles peers names finished = Inl e"
  shows "e = err ''peers'' 0 ''peer relationship cycle'' \<and> \<not> acyclic (edges peers)"
  using assms(2,3)
proof (induction names arbitrary: finished)
  case (Cons name names)
  have "visit_peer peers name {} finished \<noteq> Inl e'" for e'
    by (rule visit_no_error(1) [OF assms(1)]) (simp add: Cons.prems(1) del: not_None_eq)
  then obtain ok active' finished' where visit: "visit_peer peers name {} finished = Inr (ok, active', finished')"
    by (cases "visit_peer peers name {} finished") auto
  show ?case
  proof (cases ok)
    case True
    with visit Cons.prems(2) have "check_cycles peers names finished' = Inl e" by simp
    with Cons.IH Cons.prems(1) show ?thesis by simp
  next
    case False
    with visit Cons.prems(2) have "e = err ''peers'' 0 ''peer relationship cycle''" by simp
    with visit_complete(1) [of peers name "{}" finished active' finished'] visit False show ?thesis by simp
  qed
qed simp

lemma grounded_acyclic:
  assumes "fst ` set peers \<subseteq> grounded peers"
  shows "acyclic (edges peers)"
proof -
  have "x \<in> grounded peers" for x
  proof (cases "x \<in> fst ` set peers")
    case True
    with assms show ?thesis by blast
  next
    case False
    then have "map_of peers x = None" by (simp add: map_of_eq_None_iff)
    then have "(x, b) \<notin> edges peers" for b by (simp add: edges_def)
    then show ?thesis using groundedI by blast
  qed
  then have "wf ((edges peers)\<inverse>)" unfolding grounded_def by (rule acc_wfI [rule_format])
  then show ?thesis using wf_acyclic acyclic_converse by blast
qed

text \<open>
  C10.  The cycle check is exact.  For peers all of whose Boss and Hub references are defined, the
  depth-first search from every peer ends with a verdict --- it neither panics on \<open>peers[name]\<close> nor
  runs on --- and accepts exactly the maps whose reference graph has no cycle; the only error it
  reports is the cycle.
\<close>

theorem cycle_check_exact:
  assumes "closed_peers peers"
  shows "check_cycles peers (map fst peers) {} =
    (if acyclic (edges peers) then Inr () else Inl (err ''peers'' 0 ''peer relationship cycle''))"
proof (cases "check_cycles peers (map fst peers) {}")
  case (Inl e)
  have "e = err ''peers'' 0 ''peer relationship cycle'' \<and> \<not> acyclic (edges peers)"
    by (rule check_cycles_complete [OF assms _ Inl]) (auto simp: map_of_eq_None_iff)
  with Inl show ?thesis by simp
next
  case (Inr u)
  then have "acyclic (edges peers)"
    using check_cycles_sound [of peers "map fst peers" "{}"] by (intro grounded_acyclic) simp
  with Inr show ?thesis by simp
qed

text \<open>Two anonymous peers that name each other as Boss.\<close>

definition sample_peer :: "str \<Rightarrow> str \<Rightarrow> peer" where
  "sample_peer name boss =
     \<lparr>peer_name = name, peer_address = \<lparr>domain = lit ''p2p'', zone = -1, net = -1, node = -1, point = 0\<rparr>,
      peer_public_key = Some (replicate 32 (hd name)), peer_endpoints = [], peer_trust_on_first_use = False,
      peer_boss = Some boss, peer_hub = None\<rparr>"

definition sample_cycle :: peer_map where
  "sample_cycle = [(lit ''a'', sample_peer (lit ''a'') (lit ''b'')), (lit ''b'', sample_peer (lit ''b'') (lit ''a''))]"

theorem cycle_check_exact_witness:
  "closed_peers sample_cycle \<and> \<not> acyclic (edges sample_cycle) \<and>
   check_cycles sample_cycle (map fst sample_cycle) {} = Inl (err ''peers'' 0 ''peer relationship cycle'')"
proof -
  have edges: "edges sample_cycle = {(lit ''a'', lit ''b''), (lit ''b'', lit ''a'')}"
    by (auto simp: edges_def sample_cycle_def sample_peer_def superiors_def list_of_option_def split: if_splits)
  have closed: "closed_peers sample_cycle"
    unfolding closed_peers_def edges by (auto simp: sample_cycle_def)
  have "(lit ''a'', lit ''b'') \<in> (edges sample_cycle)\<^sup>+" "(lit ''b'', lit ''a'') \<in> (edges sample_cycle)\<^sup>+"
    using edges by auto
  then have "(lit ''a'', lit ''a'') \<in> (edges sample_cycle)\<^sup>+" by (rule trancl_trans)
  then have "\<not> acyclic (edges sample_cycle)" unfolding acyclic_def by blast
  with cycle_check_exact [OF closed] closed show ?thesis by simp
qed

section \<open>Invariants of blocks\<close>

text \<open>A block is read by directives that keep an invariant of the block's variables.\<close>

locale block_directive =
  fixes directive :: "nat \<Rightarrow> str list \<Rightarrow> 'b \<Rightarrow> config_error + 'b" and ok :: "'b \<Rightarrow> bool" and start :: 'b
  assumes start_ok: "ok start"
    and directive_ok: "ok b \<Longrightarrow> directive line f b = Inr b' \<Longrightarrow> ok b'"
begin

lemma read_ok_from: "ok b \<Longrightarrow> read_block u directive b ls = Inr (b', n, rest) \<Longrightarrow> ok b'"
  by (induction ls arbitrary: b) (auto simp: and_then_eq_Inr dest: directive_ok split: if_splits)

lemma read_ok: "read_block u directive start ls = Inr (b, n, rest) \<Longrightarrow> ok b"
  using read_ok_from [OF start_ok] .

end

definition peer_block_ok :: "peer_block \<Rightarrow> bool" where
  "peer_block_ok b \<longleftrightarrow>
     (\<forall>k. pb_public_key b = Some k \<longrightarrow> length k = 32) \<and> distinct (pb_endpoints b) \<and>
     list_all (\<lambda>e. 0 < ep_port e \<and> int (ep_port e) \<le> u16_max) (pb_endpoints b)"

lemma parse_unsigned_bound: "parse_unsigned bound s = Some n \<Longrightarrow> int n \<le> bound"
  by (auto simp: parse_unsigned_def Let_def split: if_splits)

lemma parse_endpoint_ok: "parse_endpoint line s p = Inr e \<Longrightarrow> 0 < ep_port e \<and> int (ep_port e) \<le> u16_max"
  by (auto simp: parse_endpoint_def result_simps dest: parse_unsigned_bound split: if_splits)

lemma parse_public_key_text_ok: "parse_public_key_text decode line v = Inr k \<Longrightarrow> length k = 32"
  by (auto simp: parse_public_key_text_def Let_def split: if_splits option.splits)

lemma if_Inr: "(if c then x else Inl e) = Inr y \<longleftrightarrow> c \<and> x = Inr y"
  "(if c then Inl e else x) = Inr y \<longleftrightarrow> \<not> c \<and> x = Inr y"
  by simp_all

lemma peer_directive_ok:
  assumes "peer_block_ok b" and "peer_directive decode line f b = Inr b'"
  shows "peer_block_ok b'"
proof -
  consider (one) w where "f = [w]" | (two) w v where "f = [w, v]" | (three) w s p where "f = [w, s, p]"
    | (other) "peer_directive decode line f b = Inl (err ''peers'' line ''unknown, duplicate, or malformed Peer directive'')"
    by (cases f rule: remdups_adj.cases; force simp: peer_directive_def Let_def split: list.splits)
  then show ?thesis
  proof cases
    case one
    with assms show ?thesis by (auto simp: peer_directive_def peer_block_ok_def Let_def split: if_splits)
  next
    case two
    with assms show ?thesis
      by (auto simp: peer_directive_def peer_block_ok_def Let_def result_simps dest: parse_public_key_text_ok
          split: if_splits)
  next
    case three
    with assms show ?thesis
      by (auto simp: peer_directive_def peer_block_ok_def Let_def result_simps dest: parse_endpoint_ok
          split: if_splits)
  qed (use assms in simp)
qed

interpretation peer_lines: block_directive "peer_directive decode" peer_block_ok empty_peer_block
  for decode
proof
  show "peer_block_ok empty_peer_block" by (simp add: peer_block_ok_def empty_peer_block_def)
qed (rule peer_directive_ok)

text \<open>A peer as the configuration promises it.\<close>

definition peer_ok :: "str \<Rightarrow> peer \<Rightarrow> bool" where
  "peer_ok name p \<longleftrightarrow>
     peer_name p = name \<and> valid_name name \<and>
     (is_anonymous (peer_address p) \<longleftrightarrow> peer_public_key p \<noteq> None) \<and>
     (\<forall>k. peer_public_key p = Some k \<longrightarrow> length k = 32) \<and>
     (superiors p \<noteq> [] \<longrightarrow> is_anonymous (peer_address p)) \<and>
     (peer_trust_on_first_use p \<longrightarrow> \<not> is_anonymous (peer_address p) \<and> peer_endpoints p \<noteq> []) \<and>
     distinct (peer_endpoints p) \<and>
     list_all (\<lambda>e. 0 < ep_port e \<and> int (ep_port e) \<le> u16_max) (peer_endpoints p)"

lemma finish_peer_ok:
  "finish_peer name line b = Inr p \<Longrightarrow> peer_block_ok b \<Longrightarrow> valid_name name \<Longrightarrow> peer_ok name p"
  by (auto simp: finish_peer_def peer_block_ok_def peer_ok_def superiors_def list_of_option_def result_simps
      split: if_splits option.splits)

definition peers_ok :: "peer_map \<Rightarrow> bool" where
  "peers_ok peers \<longleftrightarrow>
     sorted_wrt (<) (map fst peers) \<and> (\<forall>(name, p) \<in> set peers. peer_ok name p) \<and>
     distinct (map (\<lambda>(_, p). peer_exact p) peers)"

lemma insert_peer_set: "set (insert_peer name p peers) = insert (name, p) (set peers)"
  by (simp add: insert_peer_def set_insort_key)

lemma insort_distinct_map:
  "distinct (map f (insort_key g x xs)) \<longleftrightarrow> f x \<notin> f ` set xs \<and> distinct (map f xs)"
  by (induction xs) (auto simp: set_insort_key)

lemma insert_peer_ok:
  assumes "peers_ok peers" and "peer_ok name p" and "map_of peers name = None"
    and "peer_exact p \<notin> (\<lambda>(_, p). peer_exact p) ` set peers"
  shows "peers_ok (insert_peer name p peers)"
proof -
  have "name \<notin> set (map fst peers)" using assms(3) by (simp add: map_of_eq_None_iff)
  then have "sorted_wrt (<) (map fst (insert_peer name p peers))"
    using assms(1) by (simp add: insert_peer_def insort_keys peers_ok_def strict_sorted_iff sorted_insort distinct_insort)
  moreover have "distinct (map (\<lambda>(_, p). peer_exact p) (insert_peer name p peers))"
    using assms(1,4) by (simp add: insert_peer_def insort_distinct_map peers_ok_def)
  ultimately show ?thesis using assms(1,2) by (auto simp: peers_ok_def insert_peer_set)
qed

lemma peers_loop_ok:
  "peers_loop decode stop peers identities ls = Inr peers' \<Longrightarrow> peers_ok peers \<Longrightarrow>
   identities = (\<lambda>(_, p). peer_exact p) ` set peers \<Longrightarrow> peers_ok peers'"
proof (induction decode stop peers identities ls rule: peers_loop.induct)
  case (2 decode stop peers identities l ls)
  from "2.prems"(1) obtain name b line rest p where
    f: "line_fields l = [lit ''Peer'', name]" and valid: "valid_name name" and new: "map_of peers name = None"
    and block: "read_block (err ''peers'' stop ''unterminated Peer block'') (peer_directive decode)
      empty_peer_block ls = Inr (b, line, rest)"
    and p: "finish_peer name line b = Inr p" "peer_exact p \<notin> identities"
    and rec: "peers_loop decode stop (insert_peer name p peers) (insert (peer_exact p) identities) rest = Inr peers'"
    by (auto simp: and_then_eq_Inr split: list.splits if_splits)
  have "peer_ok name p" by (rule finish_peer_ok [OF p(1) peer_lines.read_ok [OF block] valid])
  then have ok: "peers_ok (insert_peer name p peers)"
    using insert_peer_ok [OF "2.prems"(2) _ new] p(2) "2.prems"(3) by simp
  show ?case
    using "2.IH" [OF f refl refl _ _ block refl refl p rec ok] valid new "2.prems"(3) by (simp add: insert_peer_set)
qed simp

lemma check_defined_iff:
  "check_defined file peers names = Inr () \<longleftrightarrow> (\<forall>n \<in> set names. map_of peers n \<noteq> None)"
  by (auto simp: check_defined_def find_None_iff find_Some_iff split: option.splits)

lemma parse_peers_ok:
  assumes "parse_peers decode input = Inr peers"
  shows "peers_ok peers \<and> closed_peers peers \<and> acyclic (edges peers)"
proof -
  from assms obtain ls where loop: "peers_loop decode (last_number ls) [] {} ls = Inr peers"
    and defined: "check_defined ''peers'' peers (concat (map (\<lambda>(_, p). superiors p) peers)) = Inr ()"
    and cycles: "check_cycles peers (map fst peers) {} = Inr ()"
    by (auto simp: parse_peers_def result_simps)
  have "closed_peers peers"
    using defined by (fastforce simp: check_defined_iff closed_peers_def edges_def dest: map_of_SomeD)
  moreover have "peers_ok peers" by (rule peers_loop_ok [OF loop]) (auto simp: peers_ok_def)
  moreover have "acyclic (edges peers)"
    using check_cycles_sound [OF cycles] by (intro grounded_acyclic) simp
  ultimately show ?thesis by simp
qed

section \<open>Routes, areas and schedules\<close>

lemma if_InrE: "(if c then x else y) = Inr b \<Longrightarrow> (c \<Longrightarrow> x = Inr b \<Longrightarrow> P) \<Longrightarrow> (\<not> c \<Longrightarrow> y = Inr b \<Longrightarrow> P) \<Longrightarrow> P"
  by (simp split: if_splits)

definition route_rule_ok :: "route_rule \<Rightarrow> bool" where
  "route_rule_ok r \<longleftrightarrow> rule_methods r \<noteq> [] \<and> distinct (rule_methods r) \<and> Hold \<notin> set (butlast (rule_methods r))"

definition routes_block_ok :: "routes_block \<Rightarrow> bool" where
  "routes_block_ok b \<longleftrightarrow>
     list_all route_rule_ok (rb_routes b) \<and> distinct (rb_routes b) \<and> distinct (rb_relay b) \<and> distinct (rb_failures b)"

lemma methods_loop_distinct: "methods_loop line ms vs = Inr ms' \<Longrightarrow> distinct ms \<Longrightarrow> distinct ms'"
proof (induction line ms vs rule: methods_loop.induct)
  case (1 line ms vs)
  show ?case
  proof (cases "vs = []")
    case True
    with "1.prems" show ?thesis by (simp add: methods_loop.simps)
  next
    case False
    with "1.prems"(1) obtain m used where m: "take_method line vs = Inr (m, used)" "m \<notin> set ms"
      and rec: "methods_loop line (ms @ [m]) (drop used vs) = Inr ms'"
      by (subst (asm) methods_loop.simps) (auto simp: and_then_eq_Inr split: if_splits)
    from "1.IH" [OF False m(1) refl m(2) rec] "1.prems"(2) m(2) show ?thesis by simp
  qed
qed

lemma parse_methods_ok:
  "parse_methods line vs = Inr (ms, p) \<Longrightarrow> ms \<noteq> [] \<and> distinct ms \<and> Hold \<notin> set (butlast ms)"
  by (auto simp: parse_methods_def result_simps dest: methods_loop_distinct split: if_splits prod.splits)

lemma route_directive_ok: "routes_block_ok b \<Longrightarrow> route_directive line f b = Inr b' \<Longrightarrow> routes_block_ok b'"
  by (auto simp: route_directive_def routes_block_ok_def route_rule_ok_def result_simps Let_def
      dest: parse_methods_ok split: if_splits)

lemma relay_directive_ok: "routes_block_ok b \<Longrightarrow> relay_directive line f b = Inr b' \<Longrightarrow> routes_block_ok b'"
  by (auto simp: relay_directive_def routes_block_ok_def result_simps Let_def split: if_splits)

lemma failure_directive_ok: "routes_block_ok b \<Longrightarrow> failure_directive line f b = Inr b' \<Longrightarrow> routes_block_ok b'"
  by (auto simp: failure_directive_def routes_block_ok_def result_simps Let_def split: if_splits)

lemma routes_directive_ok:
  assumes "routes_block_ok b" and "routes_directive line f b = Inr b'"
  shows "routes_block_ok b'"
proof -
  have "routes_block_ok (b\<lparr>rb_failure_default := p\<rparr>)" for p using assms(1) by (simp add: routes_block_ok_def)
  with assms(2) show ?thesis unfolding routes_directive_def
    by (elim if_InrE)
      (auto simp: and_then_eq_Inr dest: route_directive_ok [OF assms(1)] relay_directive_ok [OF assms(1)]
        failure_directive_ok [OF assms(1)])
qed

interpretation routes_lines: block_directive routes_directive routes_block_ok empty_routes_block
proof
  show "routes_block_ok empty_routes_block" by (simp add: routes_block_ok_def empty_routes_block_def)
qed (rule routes_directive_ok)

definition routes_ok :: "routes \<Rightarrow> bool" where
  "routes_ok r \<longleftrightarrow>
     list_all route_rule_ok (rt_routes r) \<and> distinct (rt_routes r) \<and> distinct (rt_relay r) \<and> distinct (rt_failures r)"

lemma routes_loop_ok:
  "routes_loop stop out locals ls = Inr out' \<Longrightarrow> list_all routes_ok out \<Longrightarrow> distinct (map rt_local out) \<Longrightarrow>
   locals = rt_local ` set out \<Longrightarrow> list_all routes_ok out' \<and> distinct (map rt_local out')"
proof (induction stop out locals ls rule: routes_loop.induct)
  case (2 stop out locals l ls)
  let ?u = "err ''routes'' stop ''unterminated Routes block''"
  from "2.prems"(1) obtain v local b line rest where
    f: "line_fields l = [lit ''Routes'', v]"
    and local: "identity_value ''routes'' (ln_number l) v = Inr local" "local \<notin> locals"
    and block: "read_block ?u routes_directive empty_routes_block ls = Inr (b, line, rest)"
    and rec: "routes_loop stop
        (out @ [\<lparr>rt_local = local, rt_routes = rb_routes b, rt_relay = rb_relay b, rt_failures = rb_failures b,
           rt_failure_default = (case rb_failure_default b of Some p \<Rightarrow> p | None \<Rightarrow> default_policy)\<rparr>])
        (insert local locals) rest = Inr out'"
    by (auto simp: and_then_eq_Inr split: list.splits if_splits)
  note IH = "2.IH" [OF f refl refl _ local block refl refl rec]
  from IH routes_lines.read_ok [OF block] "2.prems"(2-4) local(2) show ?case
    by (auto simp: routes_ok_def routes_block_ok_def)
qed simp

definition schedule_block_ok :: "schedule_block \<Rightarrow> bool" where
  "schedule_block_ok b \<longleftrightarrow>
     distinct (sb_classes b) \<and> distinct (sb_next_hops b) \<and> distinct (sb_polls b) \<and>
     (\<forall>l m. sb_start b = Some (l, m) \<longrightarrow> m < 1440) \<and>
     (\<forall>d. sb_duration b = Some d \<longrightarrow> int d \<le> u64_max) \<and>
     (\<forall>d. sb_repeat b = Some d \<longrightarrow> 0 < d \<and> int d \<le> u64_max)"

lemma parse_duration_bound: "parse_duration line v = Inr n \<Longrightarrow> int n \<le> u64_max"
  by (auto simp: parse_duration_def Let_def result_simps dest: parse_unsigned_bound
      split: if_splits prod.splits option.splits)

lemma parse_start_bound: "parse_start line v = Inr n \<Longrightarrow> n < 1440"
  by (auto simp: parse_start_def Let_def result_simps split: if_splits)

lemma start_directive_ok: "schedule_block_ok b \<Longrightarrow> start_directive line f b = Inr b' \<Longrightarrow> schedule_block_ok b'"
  by (auto simp: start_directive_def schedule_block_ok_def result_simps dest: parse_start_bound)

lemma schedule_directive_ok:
  assumes "schedule_block_ok b" and "schedule_directive line f b = Inr b'"
  shows "schedule_block_ok b'"
  using assms(2) unfolding schedule_directive_def
  by (elim if_InrE)
    (use assms(1) in \<open>auto simp: schedule_block_ok_def and_then_eq_Inr dest: parse_duration_bound
        start_directive_ok [OF assms(1), unfolded schedule_block_ok_def] split: if_splits\<close>)

interpretation schedule_lines: block_directive schedule_directive schedule_block_ok empty_schedule_block
proof
  show "schedule_block_ok empty_schedule_block" by (simp add: schedule_block_ok_def empty_schedule_block_def)
qed (rule schedule_directive_ok)

definition schedule_ok :: "schedule \<Rightarrow> bool" where
  "schedule_ok s \<longleftrightarrow>
     valid_name (sch_name s) \<and> sch_classes s \<noteq> [] \<and> distinct (sch_classes s) \<and> sch_next_hops s \<noteq> [] \<and>
     distinct (sch_next_hops s) \<and> distinct (sch_polls s) \<and> sch_start_minutes s < 1440 \<and>
     int (sch_duration_minutes s) \<le> u64_max \<and> 0 < sch_repeat_after_minutes s \<and>
     int (sch_repeat_after_minutes s) \<le> u64_max"

lemma finish_schedule_ok:
  assumes "finish_schedule name line b = Inr s" and "schedule_block_ok b" and "valid_name name"
  shows "schedule_ok s \<and> sch_name s = name"
proof -
  have max: "0 \<le> u64_max" "1 \<le> u64_max" by (simp_all add: u64_max_def)
  have lists: "sch_name s = name" "sch_classes s = (if sb_classes b = [] then [lit ''Normal''] else sb_classes b)"
    "sch_next_hops s = (if sb_next_hops b = [] then [SelectAll] else sb_next_hops b)" "sch_polls s = sb_polls b"
    using assms(1) by (auto simp: finish_schedule_def and_then_eq_Inr Let_def)
  have "sch_start_minutes s < 1440"
    using assms(1,2) by (cases "sb_start b") (auto simp: finish_schedule_def and_then_eq_Inr schedule_block_ok_def Let_def)
  moreover have "int (sch_duration_minutes s) \<le> u64_max"
    using assms(1,2) max by (cases "sb_duration b") (auto simp: finish_schedule_def and_then_eq_Inr schedule_block_ok_def Let_def)
  moreover have "0 < sch_repeat_after_minutes s \<and> int (sch_repeat_after_minutes s) \<le> u64_max"
    using assms(1,2) max by (cases "sb_repeat b") (auto simp: finish_schedule_def and_then_eq_Inr schedule_block_ok_def Let_def)
  ultimately show ?thesis using lists assms(2,3) by (simp add: schedule_ok_def schedule_block_ok_def)
qed

lemma schedules_loop_ok:
  "schedules_loop stop out names ls = Inr out' \<Longrightarrow> list_all schedule_ok out \<Longrightarrow> distinct (map sch_name out) \<Longrightarrow>
   names = sch_name ` set out \<Longrightarrow> list_all schedule_ok out' \<and> distinct (map sch_name out')"
proof (induction stop out names ls rule: schedules_loop.induct)
  case (2 stop out names l ls)
  let ?u = "err ''schedules'' stop ''unterminated Schedule block''"
  from "2.prems"(1) obtain name b line rest s where
    f: "line_fields l = [lit ''Schedule'', name]" and name: "valid_name name" "name \<notin> names"
    and block: "read_block ?u schedule_directive empty_schedule_block ls = Inr (b, line, rest)"
    and s: "finish_schedule name line b = Inr s"
    and rec: "schedules_loop stop (out @ [s]) (insert name names) rest = Inr out'"
    by (auto simp: and_then_eq_Inr split: list.splits if_splits)
  have "schedule_ok s \<and> sch_name s = name"
    by (rule finish_schedule_ok [OF s schedule_lines.read_ok [OF block] name(1)])
  with "2.IH" [OF f refl refl _ block refl refl s rec] "2.prems"(2-4) name show ?case by auto
qed simp

definition area_ok :: "area_config \<Rightarrow> bool" where
  "area_ok a \<longleftrightarrow>
     ar_name a \<noteq> [] \<and> distinct (ar_receive_from a) \<and> distinct (map link_peer (ar_send_to a)) \<and>
     list_all (\<lambda>l. valid_name (link_class l)) (ar_send_to a)"

definition area_lists_ok :: "str list \<times> area_link list \<Rightarrow> bool" where
  "area_lists_ok b \<longleftrightarrow>
     distinct (fst b) \<and> distinct (map link_peer (snd b)) \<and> list_all (\<lambda>l. valid_name (link_class l)) (snd b)"

interpretation area_lines: block_directive area_directive area_lists_ok "([], [])"
  by unfold_locales (auto simp: area_lists_ok_def area_directive_def Let_def and_then_eq_Inr elim!: if_InrE split: if_splits)

definition areas_ok :: "areas \<Rightarrow> bool" where
  "areas_ok g \<longleftrightarrow>
     list_all area_ok (as_areas g) \<and> distinct (map (\<lambda>a. (ar_file_area a, ar_name a)) (as_areas g))"

lemma area_blocks_ok:
  "area_blocks stop areas names ls = Inr (areas', rest) \<Longrightarrow> list_all area_ok areas \<Longrightarrow>
   distinct (map (\<lambda>a. (ar_file_area a, ar_name a)) areas) \<Longrightarrow> names = (\<lambda>a. (ar_file_area a, ar_name a)) ` set areas \<Longrightarrow>
   list_all area_ok areas' \<and> distinct (map (\<lambda>a. (ar_file_area a, ar_name a)) areas')"
proof (induction stop areas names ls rule: area_blocks.induct)
  case (2 stop areas names l ls)
  show ?case
  proof (cases "ln_text l = lit ''End''")
    case True
    then show ?thesis using "2.prems" by simp
  next
    case False
    obtain directive found where split: "find_split is_separator (ln_text l) = (directive, found)" by fastforce
    with False "2.prems"(1) obtain file_area lists line rest' where
      ok: "found \<noteq> []" "ok_or (err ''areas'' (ln_number l) ''expected EchoArea, FileArea, or End'')
         (file_area_of directive) = Inr file_area"
      "\<not> (trim_separators (tl found) = [] \<or> (file_area, trim_separators (tl found)) \<in> names)"
      and inner: "read_block (err ''areas'' stop ''unterminated area block'') area_directive ([], []) ls =
         Inr (lists, line, rest')"
      "area_blocks stop (areas @ [\<lparr>ar_file_area = file_area, ar_name = trim_separators (tl found),
         ar_receive_from = fst lists, ar_send_to = snd lists\<rparr>])
         (insert (file_area, trim_separators (tl found)) names) rest' = Inr (areas', rest)"
      by (auto simp: and_then_eq_Inr Let_def split: if_splits prod.splits)
    from "2.IH" [OF False split [symmetric] ok(1) refl ok(2,3) inner(1) refl refl inner(2)]
      area_lines.read_ok [OF inner(1)] "2.prems"(2-4) ok(3)
    show ?thesis by (auto simp: area_ok_def area_lists_ok_def)
  qed
qed simp

lemma areas_loop_ok:
  "areas_loop stop out locals ls = Inr out' \<Longrightarrow> list_all areas_ok out \<Longrightarrow> distinct (map as_local out) \<Longrightarrow>
   locals = as_local ` set out \<Longrightarrow> list_all areas_ok out' \<and> distinct (map as_local out')"
proof (induction stop out locals ls rule: areas_loop.induct)
  case (2 stop out locals l ls)
  from "2.prems"(1) obtain v local group rest where
    f: "line_fields l = [lit ''Areas'', v]"
    and local: "identity_value ''areas'' (ln_number l) v = Inr local" "local \<notin> locals"
    and blocks: "area_blocks stop [] {} ls = Inr (group, rest)"
    and rec: "areas_loop stop (out @ [\<lparr>as_local = local, as_areas = group\<rparr>]) (insert local locals) rest = Inr out'"
    by (auto simp: and_then_eq_Inr split: list.splits if_splits)
  from "2.IH" [OF f refl refl _ local blocks refl rec] area_blocks_ok [OF blocks] "2.prems"(2-4) local(2)
  show ?case by (auto simp: areas_ok_def)
qed simp

section \<open>The configuration set\<close>

definition config_ok :: "configuration_set \<Rightarrow> bool" where
  "config_ok cfg \<longleftrightarrow>
     peers_ok (cfg_peers cfg) \<and> closed_peers (cfg_peers cfg) \<and> acyclic (edges (cfg_peers cfg)) \<and>
     cfg_routes cfg \<noteq> [] \<and> list_all routes_ok (cfg_routes cfg) \<and> distinct (map rt_local (cfg_routes cfg)) \<and>
     list_all areas_ok (cfg_areas cfg) \<and> distinct (map as_local (cfg_areas cfg)) \<and>
     list_all schedule_ok (cfg_schedules cfg) \<and> distinct (map sch_name (cfg_schedules cfg))"

lemma parse_configuration_parts:
  assumes "parse_configuration decode pt rt at st = Inr cfg"
  shows "parse_peers decode pt = Inr (cfg_peers cfg)" "parse_routes rt = Inr (cfg_routes cfg)"
    "parse_areas at = Inr (cfg_areas cfg)" "parse_schedules st = Inr (cfg_schedules cfg)"
    "\<forall>r \<in> set (cfg_routes cfg). check_routes (cfg_peers cfg) r = Inr ()"
    "\<forall>g \<in> set (cfg_areas cfg). check_areas (cfg_peers cfg) (rt_local ` set (cfg_routes cfg)) g = Inr ()"
    "\<forall>s \<in> set (cfg_schedules cfg). check_schedule (cfg_peers cfg) (rt_local ` set (cfg_routes cfg)) s = Inr ()"
  using assms
  by (auto simp: parse_configuration_def and_then_eq_Inr try_map_eq_Inr list_all2_conv_all_nth in_set_conv_nth Let_def)

text \<open>
  C15.  What a configuration set promises.  Every set that \<open>ConfigurationSet::parse\<close> returns has peers
  in strict name order, each stored under its own valid name, with a 32-byte key exactly when its
  address is anonymous, with a Boss or Hub only then and then one that is defined, with trust on
  first use only for a listed address with an endpoint, with distinct endpoints on ports 1 to 65535,
  no two of the same exact identity, and no cycle of references; at least one Routes block, one per
  local identity, whose method lists are non-empty, without repetition and with Hold last, and whose
  rules are not repeated; areas unique by kind and name with each peer linked at most once; and
  schedules unique by name, starting within the day and with a positive repeat interval.
\<close>

theorem configuration_ok:
  assumes "parse_configuration decode peers_text routes_text areas_text schedules_text = Inr cfg"
  shows "config_ok cfg"
proof -
  note parts = parse_configuration_parts [OF assms]
  have "list_all routes_ok (cfg_routes cfg) \<and> distinct (map rt_local (cfg_routes cfg)) \<and> cfg_routes cfg \<noteq> []"
    using parts(2) routes_loop_ok [of _ "[]" "{}"] by (auto simp: parse_routes_def and_then_eq_Inr split: if_splits)
  moreover have "list_all areas_ok (cfg_areas cfg) \<and> distinct (map as_local (cfg_areas cfg))"
    using parts(3) areas_loop_ok [of _ "[]" "{}"] by (auto simp: parse_areas_def and_then_eq_Inr)
  moreover have "list_all schedule_ok (cfg_schedules cfg) \<and> distinct (map sch_name (cfg_schedules cfg))"
    using parts(4) schedules_loop_ok [of _ "[]" "{}"] by (auto simp: parse_schedules_def and_then_eq_Inr)
  ultimately show ?thesis using parse_peers_ok [OF parts(1)] by (simp add: config_ok_def)
qed

definition names_defined :: "configuration_set \<Rightarrow> str list \<Rightarrow> bool" where
  "names_defined cfg names \<longleftrightarrow> (\<forall>n \<in> set names. map_of (cfg_peers cfg) n \<noteq> None)"

fun ref_defined :: "configuration_set \<Rightarrow> identity_ref \<Rightarrow> bool" where
  "ref_defined cfg (RefPeer n) = names_defined cfg [n]"
| "ref_defined cfg (RefAddress a) = True"

lemma check_identity_iff: "check_identity file (cfg_peers cfg) r = Inr () \<longleftrightarrow> ref_defined cfg r"
  by (cases r) (simp_all add: check_defined_iff names_defined_def)

text \<open>The references of each part of a set that have to be defined; Failure rules are not among them.\<close>

definition routes_resolve :: "configuration_set \<Rightarrow> routes \<Rightarrow> bool" where
  "routes_resolve cfg r \<longleftrightarrow>
     ref_defined cfg (rt_local r) \<and>
     (\<forall>rule \<in> set (rt_routes r). names_defined cfg (selector_peers (rule_destination rule)) \<and>
        (\<forall>m \<in> set (rule_methods rule). names_defined cfg (via_peers m))) \<and>
     (\<forall>rule \<in> set (rt_relay r). names_defined cfg (selector_peers (relay_from rule)) \<and>
        names_defined cfg (selector_peers (relay_origin rule)) \<and> names_defined cfg (selector_peers (relay_destination rule)))"

definition areas_resolve :: "configuration_set \<Rightarrow> areas \<Rightarrow> bool" where
  "areas_resolve cfg g \<longleftrightarrow>
     ref_defined cfg (as_local g) \<and> as_local g \<in> rt_local ` set (cfg_routes cfg) \<and>
     (\<forall>a \<in> set (as_areas g). names_defined cfg (ar_receive_from a) \<and>
        (\<forall>l \<in> set (ar_send_to a). names_defined cfg [link_peer l]))"

definition schedule_resolve :: "configuration_set \<Rightarrow> schedule \<Rightarrow> bool" where
  "schedule_resolve cfg s \<longleftrightarrow>
     ref_defined cfg (sch_origin s) \<and> sch_origin s \<in> rt_local ` set (cfg_routes cfg) \<and>
     names_defined cfg (sch_polls s) \<and> (\<forall>h \<in> set (sch_next_hops s). names_defined cfg (selector_peers h))"

definition references_resolve :: "configuration_set \<Rightarrow> bool" where
  "references_resolve cfg \<longleftrightarrow>
     (\<forall>(name, p) \<in> set (cfg_peers cfg). names_defined cfg (list_of_option (peer_boss p)) \<and>
        names_defined cfg (list_of_option (peer_hub p))) \<and>
     (\<forall>r \<in> set (cfg_routes cfg). routes_resolve cfg r) \<and> (\<forall>g \<in> set (cfg_areas cfg). areas_resolve cfg g) \<and>
     (\<forall>s \<in> set (cfg_schedules cfg). schedule_resolve cfg s)"

lemma names_defined_simps [simp]:
  "names_defined cfg []" "names_defined cfg (xs @ ys) \<longleftrightarrow> names_defined cfg xs \<and> names_defined cfg ys"
  "names_defined cfg (concat xss) \<longleftrightarrow> (\<forall>xs \<in> set xss. names_defined cfg xs)"
  "names_defined cfg (map f zs) \<longleftrightarrow> (\<forall>z \<in> set zs. names_defined cfg [f z])"
  by (auto simp: names_defined_def)

lemma check_defined_names: "check_defined file (cfg_peers cfg) names = Inr () \<longleftrightarrow> names_defined cfg names"
  by (simp add: check_defined_iff names_defined_def)

lemma check_routes_iff: "check_routes (cfg_peers cfg) r = Inr () \<longleftrightarrow> routes_resolve cfg r"
  by (auto simp: check_routes_def and_then_eq_Inr check_identity_iff check_defined_names routes_resolve_def)

lemma check_areas_iff:
  "check_areas (cfg_peers cfg) (rt_local ` set (cfg_routes cfg)) g = Inr () \<longleftrightarrow> areas_resolve cfg g"
  by (auto simp: check_areas_def and_then_eq_Inr check_identity_iff check_defined_names areas_resolve_def)

lemma check_schedule_iff:
  "check_schedule (cfg_peers cfg) (rt_local ` set (cfg_routes cfg)) s = Inr () \<longleftrightarrow> schedule_resolve cfg s"
  by (auto simp: check_schedule_def and_then_eq_Inr check_identity_iff check_defined_names schedule_resolve_def)

lemma parse_peers_superiors:
  assumes "parse_peers decode input = Inr (cfg_peers cfg)"
  shows "\<forall>(name, p) \<in> set (cfg_peers cfg). names_defined cfg (superiors p)"
  using assms by (auto simp: parse_peers_def result_simps check_defined_names)

lemma try_map_units: "(\<exists>us. try_map f xs = Inr us) \<longleftrightarrow> (\<forall>x \<in> set xs. f x = Inr ())"
  by (induction xs) (auto simp: and_then_eq_Inr)

text \<open>
  C32.  When a configuration set is accepted.  \<open>ConfigurationSet::parse\<close> returns a set exactly when the
  four files parse to its parts and the references of the set resolve: the Boss and Hub of every
  peer, the local identities, the selectors and Via methods of Route rules and the selectors of Relay
  rules name defined peers, as do the links of areas and the polls and next hops of schedules, and
  the identity of every Areas block and every schedule has a Routes block.  Nothing else is checked
  across the files: the Failure rules, whose selectors name peers as well, can be replaced by any others.
\<close>

theorem configuration_references:
  "(parse_configuration decode peers_text routes_text areas_text schedules_text = Inr cfg \<longleftrightarrow>
     parse_peers decode peers_text = Inr (cfg_peers cfg) \<and> parse_routes routes_text = Inr (cfg_routes cfg) \<and>
     parse_areas areas_text = Inr (cfg_areas cfg) \<and> parse_schedules schedules_text = Inr (cfg_schedules cfg) \<and>
     references_resolve cfg) \<and>
   (references_resolve (cfg\<lparr>cfg_routes := map (\<lambda>r. r\<lparr>rt_failures := failures r\<rparr>) (cfg_routes cfg)\<rparr>) \<longleftrightarrow>
     references_resolve cfg)"
proof
  have "parse_configuration decode peers_text routes_text areas_text schedules_text = Inr cfg \<longleftrightarrow>
     parse_peers decode peers_text = Inr (cfg_peers cfg) \<and> parse_routes routes_text = Inr (cfg_routes cfg) \<and>
     parse_areas areas_text = Inr (cfg_areas cfg) \<and> parse_schedules schedules_text = Inr (cfg_schedules cfg) \<and>
     (\<exists>us. try_map (check_routes (cfg_peers cfg)) (cfg_routes cfg) = Inr us) \<and>
     (\<exists>us. try_map (check_areas (cfg_peers cfg) (rt_local ` set (cfg_routes cfg))) (cfg_areas cfg) = Inr us) \<and>
     (\<exists>us. try_map (check_schedule (cfg_peers cfg) (rt_local ` set (cfg_routes cfg))) (cfg_schedules cfg) = Inr us)"
    by (cases cfg) (auto simp: parse_configuration_def and_then_eq_Inr Let_def)
  then show "parse_configuration decode peers_text routes_text areas_text schedules_text = Inr cfg \<longleftrightarrow>
     parse_peers decode peers_text = Inr (cfg_peers cfg) \<and> parse_routes routes_text = Inr (cfg_routes cfg) \<and>
     parse_areas areas_text = Inr (cfg_areas cfg) \<and> parse_schedules schedules_text = Inr (cfg_schedules cfg) \<and>
     references_resolve cfg"
    using parse_peers_superiors [of decode peers_text cfg]
    by (auto simp: try_map_units check_routes_iff check_areas_iff check_schedule_iff references_resolve_def superiors_def)
next
  let ?cfg = "cfg\<lparr>cfg_routes := map (\<lambda>r. r\<lparr>rt_failures := failures r\<rparr>) (cfg_routes cfg)\<rparr>"
  have names: "names_defined ?cfg = names_defined cfg" by (simp add: names_defined_def fun_eq_iff)
  have refs: "ref_defined ?cfg r = ref_defined cfg r" for r by (cases r) (simp_all add: names)
  have locals: "rt_local ` set (cfg_routes ?cfg) = rt_local ` set (cfg_routes cfg)" by (simp add: image_image)
  show "references_resolve ?cfg \<longleftrightarrow> references_resolve cfg"
    unfolding references_resolve_def routes_resolve_def areas_resolve_def schedule_resolve_def names refs locals by auto
qed

definition config_text :: "string list \<Rightarrow> str" where
  "config_text ls = concat (map (\<lambda>l. lit l @ [10]) ls)"

definition no_keys :: "str \<Rightarrow> bytes option" where
  "no_keys v = None"

text \<open>
  The time of a Start line.  The slices taken of a five-byte time panic when one of the middle
  bytes is inside a character, whatever the rest of the line; and a time with plus signs, which is
  not two digits, a colon and two digits, is accepted.
\<close>

theorem parse_start_panics:
  "(parse_start line v = Inl ConfigPanicked \<longleftrightarrow> length v = 5 \<and> (utf8_cont (v ! 2) \<or> utf8_cont (v ! 3))) \<and>
   valid_utf8 (lit ''a'' @ [195, 169] @ lit ''bc'') \<and>
   parse_start line (lit ''a'' @ [195, 169] @ lit ''bc'') = Inl ConfigPanicked \<and>
   parse_start line (lit ''+1:+2'') = Inr 62"
proof (intro conjI)
  show "parse_start line v = Inl ConfigPanicked \<longleftrightarrow> length v = 5 \<and> (utf8_cont (v ! 2) \<or> utf8_cont (v ! 3))"
    by (auto simp: parse_start_def Let_def and_then_eq_Inl ok_or_eq_Inl err_def)
  show "valid_utf8 (lit ''a'' @ [195, 169] @ lit ''bc'')" by code_simp
  show "parse_start line (lit ''a'' @ [195, 169] @ lit ''bc'') = Inl ConfigPanicked"
    by (simp add: parse_start_def utf8_cont_def Let_def)
  show "parse_start line (lit ''+1:+2'') = Inr 62"
    by (simp add: parse_start_def utf8_cont_def Let_def parse_unsigned_def starts_with_def is_digit_def u16_max_def
        digits_value_def)
qed

text \<open>A small configuration set: a peer, a route through it, an area linked to it and a schedule.\<close>

definition sample_config :: "config_error + configuration_set" where
  "sample_config = parse_configuration no_keys
     (config_text [''Peer n'', ''Address f#1:2'', ''Endpoint e 9'', ''End''])
     (config_text [''Routes f#1:2'', ''Route All Using Via @n Hold'', ''End''])
     (config_text [''Areas f#1:2'', ''EchoArea X'', ''Send-To @n'', ''End'', ''End''])
     (config_text [''Schedule s'', ''Origin f#1:2'', ''Poll @n'', ''Duration 5'', ''End''])"

definition sample_address :: address where
  "sample_address = \<lparr>domain = lit ''f'', zone = 1, net = 2, node = 0, point = 0\<rparr>"

lemma sample_address_parses: "address_from_str (lit ''f#1:2'') = Inr sample_address"
proof -
  have "chars (lit ''f'') = [102]" "valid_utf8 (lit ''f'')" by code_simp+
  then have "wf_address sample_address"
    by (simp add: sample_address_def wf_address_def address_new_eq_Inr validate_domain_def tts_whitespace_def
        is_control_def)
  moreover have "address_to_string sample_address = lit ''f#1:2''" by code_simp
  ultimately show ?thesis using address_from_str_show [of sample_address] by simp
qed

lemma sample_names: "valid_name (lit ''n'')" "valid_name (lit ''s'')" "valid_name (lit ''Normal'')"
  "\<not> list_ex is_control (chars (lit ''e''))"
  by code_simp+

lemma sample_lines:
  "lines ''peers'' (config_text [''Peer n'', ''Address f#1:2'', ''Endpoint e 9'', ''End'']) =
     Inr [\<lparr>ln_number = 1, ln_text = lit ''Peer n''\<rparr>, \<lparr>ln_number = 2, ln_text = lit ''Address f#1:2''\<rparr>,
       \<lparr>ln_number = 3, ln_text = lit ''Endpoint e 9''\<rparr>, \<lparr>ln_number = 4, ln_text = lit ''End''\<rparr>]"
  "lines ''routes'' (config_text [''Routes f#1:2'', ''Route All Using Via @n Hold'', ''End'']) =
     Inr [\<lparr>ln_number = 1, ln_text = lit ''Routes f#1:2''\<rparr>,
       \<lparr>ln_number = 2, ln_text = lit ''Route All Using Via @n Hold''\<rparr>, \<lparr>ln_number = 3, ln_text = lit ''End''\<rparr>]"
  "lines ''areas'' (config_text [''Areas f#1:2'', ''EchoArea X'', ''Send-To @n'', ''End'', ''End'']) =
     Inr [\<lparr>ln_number = 1, ln_text = lit ''Areas f#1:2''\<rparr>, \<lparr>ln_number = 2, ln_text = lit ''EchoArea X''\<rparr>,
       \<lparr>ln_number = 3, ln_text = lit ''Send-To @n''\<rparr>, \<lparr>ln_number = 4, ln_text = lit ''End''\<rparr>,
       \<lparr>ln_number = 5, ln_text = lit ''End''\<rparr>]"
  "lines ''schedules'' (config_text [''Schedule s'', ''Origin f#1:2'', ''Poll @n'', ''Duration 5'', ''End'']) =
     Inr [\<lparr>ln_number = 1, ln_text = lit ''Schedule s''\<rparr>, \<lparr>ln_number = 2, ln_text = lit ''Origin f#1:2''\<rparr>,
       \<lparr>ln_number = 3, ln_text = lit ''Poll @n''\<rparr>, \<lparr>ln_number = 4, ln_text = lit ''Duration 5''\<rparr>,
       \<lparr>ln_number = 5, ln_text = lit ''End''\<rparr>]"
  by code_simp+

lemmas sample_eval =
  sample_address_parses [simplified] sample_names [simplified] line_fields_def is_separator_def starts_with_def
  keyword_at_def peer_ref_def identity_value_def parse_unsigned_def u16_max_def u64_max_def is_digit_def
  digits_value_def find_split_def trim_separators_def check_defined_def

lemma sample_peers:
  "parse_peers no_keys (config_text [''Peer n'', ''Address f#1:2'', ''Endpoint e 9'', ''End'']) =
     Inr [(lit ''n'', \<lparr>peer_name = lit ''n'', peer_address = sample_address, peer_public_key = None,
       peer_endpoints = [\<lparr>ep_server = lit ''e'', ep_port = 9\<rparr>], peer_trust_on_first_use = False,
       peer_boss = None, peer_hub = None\<rparr>)]"
  unfolding parse_peers_def sample_lines
  by (simp add: sample_eval peer_directive_def parse_endpoint_def empty_peer_block_def finish_peer_def insert_peer_def
      is_anonymous_def sample_address_def visit_peer.simps superiors_def list_of_option_def show_nat.simps)

lemma sample_routes:
  "parse_routes (config_text [''Routes f#1:2'', ''Route All Using Via @n Hold'', ''End'']) =
     Inr [\<lparr>rt_local = RefAddress sample_address,
       rt_routes = [\<lparr>rule_destination = SelectAll, rule_methods = [Via (lit ''n''), Hold], rule_on_failure = None\<rparr>],
       rt_relay = [], rt_failures = [], rt_failure_default = default_policy\<rparr>]"
  unfolding parse_routes_def sample_lines
  by (simp add: sample_eval routes_directive_def route_directive_def parse_selector_def parse_methods_def
      split_failure_def methods_loop.simps take_method_def method_of_def empty_routes_block_def is_anonymous_def
      sample_address_def)

lemma sample_areas:
  "parse_areas (config_text [''Areas f#1:2'', ''EchoArea X'', ''Send-To @n'', ''End'', ''End'']) =
     Inr [\<lparr>as_local = RefAddress sample_address, as_areas = [\<lparr>ar_file_area = False, ar_name = lit ''X'',
       ar_receive_from = [], ar_send_to = [\<lparr>link_peer = lit ''n'', link_class = lit ''Normal''\<rparr>]\<rparr>]\<rparr>]"
  unfolding parse_areas_def sample_lines
  by (simp add: sample_eval area_directive_def file_area_of_def is_anonymous_def sample_address_def)

lemma sample_schedules:
  "parse_schedules (config_text [''Schedule s'', ''Origin f#1:2'', ''Poll @n'', ''Duration 5'', ''End'']) =
     Inr [\<lparr>sch_name = lit ''s'', sch_origin = RefAddress sample_address, sch_classes = [lit ''Normal''],
       sch_next_hops = [SelectAll], sch_polls = [lit ''n''], sch_start_local = False, sch_start_minutes = 0,
       sch_duration_minutes = 5, sch_repeat_after_minutes = 1\<rparr>]"
  unfolding parse_schedules_def sample_lines
  by (simp add: sample_eval schedule_directive_def parse_duration_def decimal_text_def empty_schedule_block_def
      finish_schedule_def is_anonymous_def sample_address_def)

lemma sample_config_parses: "\<exists>cfg. sample_config = Inr cfg \<and> map sch_polls (cfg_schedules cfg) = [[lit ''n'']]"
  unfolding sample_config_def parse_configuration_def sample_peers sample_routes sample_areas sample_schedules
  by (simp add: check_routes_def check_areas_def check_schedule_def check_defined_def)

theorem configuration_ok_witness: "\<exists>cfg. sample_config = Inr cfg \<and> config_ok cfg"
  using sample_config_parses configuration_ok unfolding sample_config_def by blast

text \<open>The references of the sample, and of the sample with any Failure rules.\<close>

theorem configuration_references_witness:
  "\<exists>cfg. sample_config = Inr cfg \<and> references_resolve cfg \<and>
     references_resolve (cfg\<lparr>cfg_routes := map (\<lambda>r. r\<lparr>rt_failures := []\<rparr>) (cfg_routes cfg)\<rparr>)"
proof -
  obtain cfg where c: "sample_config = Inr cfg" using sample_config_parses by blast
  then have "references_resolve cfg" using configuration_references unfolding sample_config_def by blast
  moreover from this have "references_resolve (cfg\<lparr>cfg_routes := map (\<lambda>r. r\<lparr>rt_failures := []\<rparr>) (cfg_routes cfg)\<rparr>)"
    using configuration_references [of _ _ _ _ _ cfg "\<lambda>_. []"] by blast
  ultimately show ?thesis using c by blast
qed

end
