(* ===== verification/Nodelist.thy ===== *)
theory Nodelist
  imports Common
begin

text \<open>
  The nodelist (\<open>crates/tith-nodelist/src/document.rs\<close>): the validator of data records with the
  hierarchy that gives each record its address and its branch, the streaming reader and writer over
  it, and the table of entries that routing looks up.  The typed flags and the services they resolve
  to are those of \<open>crates/tith-nodelist/src/flags.rs\<close>.

  The text grammar of the five flag fields (\<open>parse_system\<close>, \<open>parse_pstn_isdn\<close>, \<open>parse_internet\<close>,
  \<open>parse_email\<close> and \<open>parse_other\<close>) is not modelled: it is the argument \<open>flag_grammar\<close> of the
  validator, about which nothing is assumed but that each parser returns, so the theorems hold for
  every such grammar.  An entry keeps the fields that routing reads.

  \<open>Nodelist\<close> holds a \<open>BTreeMap<Address, Entry>\<close>; only lookups by address are used, so it is a map.
\<close>

section \<open>Entries\<close>

datatype keyword =
    KwNormal | KwPrivate | KwHold | KwDown | KwZone | KwRegion | KwHost | KwHub

datatype endpoint_port = RegisteredDefault | Explicit u16

record nodelist_endpoint =
  nep_server :: "str option"
  nep_port :: endpoint_port

definition REGISTERED_TITH_PORT :: "u16 option" where
  "REGISTERED_TITH_PORT = None"

definition resolved_port :: "nodelist_endpoint \<Rightarrow> u16 option" where
  "resolved_port e =
     (case nep_port e of RegisteredDefault \<Rightarrow> REGISTERED_TITH_PORT | Explicit port \<Rightarrow> Some port)"

definition is_usable :: "nodelist_endpoint \<Rightarrow> bool" where
  "is_usable e \<longleftrightarrow> nep_server e \<noteq> None \<and> resolved_port e \<noteq> None"

record tith_service =
  svc_endpoints :: "nodelist_endpoint list"
  svc_public_key :: bytes

record branch =
  br_zone :: address
  br_region :: "address option"
  br_host :: "address option"
  br_hub :: "address option"

record entry =
  ent_keyword :: keyword
  ent_address :: address
  ent_tith :: "tith_service option"
  ent_branch :: branch

type_synonym nodelist = "address \<Rightarrow> entry option"

definition nodelist_get :: "nodelist \<Rightarrow> address \<Rightarrow> entry option" where
  "nodelist_get n a = n a"

definition nodelist_public_key :: "nodelist \<Rightarrow> key_resolver" where
  "nodelist_public_key n a =
     (case nodelist_get n a of None \<Rightarrow> None | Some e \<Rightarrow> map_option svc_public_key (ent_tith e))"

section \<open>Errors\<close>

datatype nodelist_error_kind =
    Io | NotUtf8 | MissingFinalLineFeed | ControlCharacter | InvalidComment | WrongFieldCount
  | InvalidKeyword | InvalidNodeNumber | InvalidHierarchy | DuplicateAddress | InvalidPhone | PrivateContact
  | InvalidFlag | InvalidPublicKey | InvalidEndpoint | InvalidPublication | ApplicationKeyMismatch
  | BadAddress address_error

section \<open>Flags\<close>

datatype file_request_flag = Xa | Xb | Xc | Xp | Xr | Xw | Xx

text \<open>A mail period is \<open>bell_212a\<close> and an hour, an online period its first and last half hour.\<close>

datatype system_flag =
    ContinuousMail | ListedOnly | ManualPackets | InternetContinuousMail
  | FileRequest file_request_flag | MailPeriod bool u8 | OnlinePeriod u8 u8

record endpoint_spec =
  es_server :: "str option"
  es_port :: "u16 option"

datatype internet_flag =
    DefaultServer str | TithFlag endpoint_spec bytes
  | Binkp endpoint_spec | Ifcico endpoint_spec | Ftp endpoint_spec | Telnet endpoint_spec
  | Vmodem endpoint_spec | UnspecifiedService endpoint_spec | NoIncomingIpv4

datatype email_flag =
    DefaultMail "str option" | Transx "str option" | Uuencode "str option" | Mime "str option"
  | Seat "str option" | Voyager "str option" | OtherMethod "str option"

datatype other_flag =
    MailOnly | EmailGateway | Ping | Trace | ZoneEchomailCoordinator | RegionalEchomailCoordinator
  | NetworkEchomailCoordinator | NetworkCoordinator | SoftwareDistributionSystem | SecureMailHub
  | RegionalPointlistKeeper | NetPointlistKeeper | EncryptedMail | CdPoint | Extension str

datatype internet_protocol =
    ProtoTith | ProtoBinkp | ProtoIfcico | ProtoFtp | ProtoTelnet | ProtoVmodem | ProtoUnspecified

record resolved_endpoint =
  re_server :: "str option"
  re_port :: "u16 option"

definition resolved_usable :: "resolved_endpoint \<Rightarrow> bool" where
  "resolved_usable e \<longleftrightarrow> re_server e \<noteq> None \<and> re_port e \<noteq> None"

record resolved_service =
  rs_protocol :: internet_protocol
  rs_public_key :: "bytes option"
  rs_endpoints :: "resolved_endpoint list"

definition resolved_endpoints :: "endpoint_spec \<Rightarrow> str list \<Rightarrow> u16 option \<Rightarrow> resolved_endpoint list" where
  "resolved_endpoints e defaults default_port =
     (let port = (case es_port e of Some p \<Rightarrow> Some p | None \<Rightarrow> default_port) in
      case es_server e of
        Some server \<Rightarrow> [\<lparr>re_server = Some server, re_port = port\<rparr>]
      | None \<Rightarrow>
          if defaults = [] then [\<lparr>re_server = None, re_port = port\<rparr>]
          else map (\<lambda>server. \<lparr>re_server = Some server, re_port = port\<rparr>) defaults)"

fun default_server :: "internet_flag \<Rightarrow> str option" where
  "default_server (DefaultServer server) = Some server"
| "default_server _ = None"

fun resolve_flag :: "str list \<Rightarrow> internet_flag \<Rightarrow> resolved_service option" where
  "resolve_flag ds (DefaultServer _) = None"
| "resolve_flag ds NoIncomingIpv4 = None"
| "resolve_flag ds (TithFlag e key) =
     Some \<lparr>rs_protocol = ProtoTith, rs_public_key = Some key, rs_endpoints = resolved_endpoints e ds None\<rparr>"
| "resolve_flag ds (Binkp e) =
     Some \<lparr>rs_protocol = ProtoBinkp, rs_public_key = None, rs_endpoints = resolved_endpoints e ds (Some 24554)\<rparr>"
| "resolve_flag ds (Ifcico e) =
     Some \<lparr>rs_protocol = ProtoIfcico, rs_public_key = None, rs_endpoints = resolved_endpoints e ds (Some 60179)\<rparr>"
| "resolve_flag ds (Ftp e) =
     Some \<lparr>rs_protocol = ProtoFtp, rs_public_key = None, rs_endpoints = resolved_endpoints e ds (Some 21)\<rparr>"
| "resolve_flag ds (Telnet e) =
     Some \<lparr>rs_protocol = ProtoTelnet, rs_public_key = None, rs_endpoints = resolved_endpoints e ds (Some 23)\<rparr>"
| "resolve_flag ds (Vmodem e) =
     Some \<lparr>rs_protocol = ProtoVmodem, rs_public_key = None, rs_endpoints = resolved_endpoints e ds (Some 3141)\<rparr>"
| "resolve_flag ds (UnspecifiedService e) =
     Some \<lparr>rs_protocol = ProtoUnspecified, rs_public_key = None, rs_endpoints = resolved_endpoints e ds None\<rparr>"

definition resolved_services :: "internet_flag list \<Rightarrow> resolved_service list" where
  "resolved_services flags = List.map_filter (resolve_flag (List.map_filter default_server flags)) flags"

fun publishes_email_contact :: "email_flag \<Rightarrow> bool" where
  "publishes_email_contact (DefaultMail a) \<longleftrightarrow> a \<noteq> None"
| "publishes_email_contact (Transx a) \<longleftrightarrow> a \<noteq> None"
| "publishes_email_contact (Uuencode a) \<longleftrightarrow> a \<noteq> None"
| "publishes_email_contact (Mime a) \<longleftrightarrow> a \<noteq> None"
| "publishes_email_contact (Seat a) \<longleftrightarrow> a \<noteq> None"
| "publishes_email_contact (Voyager a) \<longleftrightarrow> a \<noteq> None"
| "publishes_email_contact (OtherMethod a) \<longleftrightarrow> a \<noteq> None"

text \<open>The parsers of the five flag fields; the PSTN and ISDN flags are validated and kept, never read.\<close>

record flag_grammar =
  gr_system :: "str \<Rightarrow> nodelist_error_kind + system_flag list"
  gr_pstn_isdn :: "str \<Rightarrow> nodelist_error_kind + str list"
  gr_internet :: "str \<Rightarrow> nodelist_error_kind + internet_flag list"
  gr_email :: "str \<Rightarrow> nodelist_error_kind + email_flag list"
  gr_other :: "str \<Rightarrow> nodelist_error_kind + other_flag list"

section \<open>Fields of a record\<close>

definition parse_keyword :: "str \<Rightarrow> keyword option" where
  "parse_keyword v =
     (if v = [] then Some KwNormal
      else if v = lit ''Pvt'' then Some KwPrivate
      else if v = lit ''Hold'' then Some KwHold
      else if v = lit ''Down'' then Some KwDown
      else if v = lit ''Zone'' then Some KwZone
      else if v = lit ''Region'' then Some KwRegion
      else if v = lit ''Host'' then Some KwHost
      else if v = lit ''Hub'' then Some KwHub
      else None)"

definition parse_node_number :: "str \<Rightarrow> int option" where
  "parse_node_number v =
     (if v = [] \<or> hd v = 48 \<or> \<not> list_all is_digit v then None
      else (case parse_i32 v of
              None \<Rightarrow> None
            | Some number \<Rightarrow> if 1 \<le> number \<and> number \<le> 32767 then Some number else None))"

definition validate_phone :: "str \<Rightarrow> bool" where
  "validate_phone phone \<longleftrightarrow>
     phone = [] \<or>
     3 \<le> length phone \<and> length phone \<le> 29 \<and> 2 \<le> length (split_at 45 phone) \<and>
     list_all (\<lambda>piece. piece \<noteq> [] \<and> list_all is_digit piece) (split_at 45 phone)"

section \<open>The hierarchy\<close>

datatype initial_context = InZone | WithinZone int | WithinLocalNet int int

text \<open>A failed \<open>expect\<close> is an error of its own, beside the error kinds of the source.\<close>

datatype nodelist_error = Failed nodelist_error_kind | NodelistPanicked

record hierarchy =
  hi_zone :: "int option"
  hi_region :: "address option"
  hi_host :: "address option"
  hi_hub :: "address option"

definition segment_validated :: "str \<Rightarrow> initial_context \<Rightarrow> nodelist_error + str \<times> initial_context" where
  "segment_validated d initial =
     (case (case initial of InZone \<Rightarrow> (1, 1) | WithinZone z \<Rightarrow> (z, z) | WithinLocalNet z n \<Rightarrow> (z, n)) of
        (z, n) \<Rightarrow> and_then (map_err (\<lambda>e. Failed (BadAddress e)) (address_new d z n 0 0)) (\<lambda>_. Inr (d, initial)))"

text \<open>\<open>Address::new(\<dots>).expect(\<dots>)\<close>\<close>

definition expect_address :: "str \<Rightarrow> int \<Rightarrow> int \<Rightarrow> int \<Rightarrow> nodelist_error + address" where
  "expect_address d z n f = map_err (\<lambda>_. NodelistPanicked) (address_new d z n f 0)"

definition hierarchy_new :: "str \<Rightarrow> initial_context \<Rightarrow> nodelist_error + hierarchy" where
  "hierarchy_new d initial =
     (let none = \<lparr>hi_zone = None, hi_region = None, hi_host = None, hi_hub = None\<rparr> in
      case initial of
        InZone \<Rightarrow> Inr none
      | WithinZone z \<Rightarrow> Inr (none\<lparr>hi_zone := Some z\<rparr>)
      | WithinLocalNet z n \<Rightarrow>
          and_then (expect_address d z n 0) (\<lambda>a. Inr (none\<lparr>hi_zone := Some z, hi_host := Some a\<rparr>)))"

text \<open>The check on the first data record of a segment.\<close>

definition first_valid :: "initial_context \<Rightarrow> keyword \<Rightarrow> bool" where
  "first_valid initial k \<longleftrightarrow>
     (case initial of
        InZone \<Rightarrow> k = KwZone
      | WithinZone _ \<Rightarrow> k = KwRegion \<or> k = KwHost
      | WithinLocalNet _ _ \<Rightarrow> k = KwHub)"

definition address_for :: "str \<Rightarrow> hierarchy \<Rightarrow> keyword \<Rightarrow> int \<Rightarrow> nodelist_error + hierarchy \<times> address" where
  "address_for d h k number =
     (if k = KwZone then
        and_then (expect_address d number number 0) (\<lambda>a.
        Inr (\<lparr>hi_zone = Some number, hi_region = None, hi_host = None, hi_hub = None\<rparr>, a))
      else if k = KwRegion then
        and_then (ok_or NodelistPanicked (hi_zone h)) (\<lambda>z.
        and_then (expect_address d z number 0) (\<lambda>a.
        Inr (h\<lparr>hi_host := None, hi_hub := None, hi_region := Some a\<rparr>, a)))
      else if k = KwHost then
        and_then (ok_or NodelistPanicked (hi_zone h)) (\<lambda>z.
        and_then (expect_address d z number 0) (\<lambda>a.
        Inr (h\<lparr>hi_hub := None, hi_host := Some a\<rparr>, a)))
      else if k = KwHub then
        and_then (ok_or (Failed InvalidHierarchy) (hi_host h)) (\<lambda>host.
        and_then (expect_address d (zone host) (net host) number) (\<lambda>a.
        Inr (h\<lparr>hi_hub := Some a\<rparr>, a)))
      else
        and_then (ok_or NodelistPanicked (hi_zone h)) (\<lambda>z.
        let n = (case hi_host h of
                   Some host \<Rightarrow> net host
                 | None \<Rightarrow> (case hi_region h of Some region \<Rightarrow> net region | None \<Rightarrow> z)) in
        and_then (expect_address d z n number) (\<lambda>a. Inr (h, a))))"

text \<open>The branch of the record, from the hierarchy its address left behind.\<close>

definition branch_for :: "str \<Rightarrow> hierarchy \<Rightarrow> nodelist_error + branch" where
  "branch_for d h =
     and_then (ok_or NodelistPanicked (hi_zone h)) (\<lambda>z.
     and_then (expect_address d z z 0) (\<lambda>a.
     Inr \<lparr>br_zone = a, br_region = hi_region h, br_host = hi_host h, br_hub = hi_hub h\<rparr>))"

section \<open>The validator\<close>

record validator =
  va_domain :: str
  va_initial :: initial_context
  va_requires_data :: bool
  va_first_data :: bool
  va_hierarchy :: hierarchy
  va_addresses :: "address set"
  va_zones_with_zec :: "int set"
  va_regions_with_rec :: "(int \<times> int) set"
  va_regions_with_rpk :: "(int \<times> int) set"
  va_echomail_coordinator_nets :: "(int \<times> int) set"
  va_pointlist_keeper_nets :: "(int \<times> int) set"
  va_coordinator_override_nets :: "(int \<times> int) set"

definition validator_new :: "str \<times> initial_context \<Rightarrow> bool \<Rightarrow> nodelist_error + validator" where
  "validator_new ctx requires_data =
     (case ctx of (d, initial) \<Rightarrow>
        and_then (hierarchy_new d initial) (\<lambda>h.
        Inr \<lparr>va_domain = d, va_initial = initial, va_requires_data = requires_data, va_first_data = True,
             va_hierarchy = h, va_addresses = {}, va_zones_with_zec = {}, va_regions_with_rec = {},
             va_regions_with_rpk = {}, va_echomail_coordinator_nets = {}, va_pointlist_keeper_nets = {},
             va_coordinator_override_nets = {}\<rparr>))"

definition prohibited_character :: "nat \<Rightarrow> bool" where
  "prohibited_character c \<longleftrightarrow> c \<le> 0x1f \<or> 0x7f \<le> c \<and> c \<le> 0x9f"

definition system_flags_valid :: "system_flag list \<Rightarrow> bool" where
  "system_flags_valid flags \<longleftrightarrow>
     length (filter (\<lambda>f. case f of FileRequest _ \<Rightarrow> True | _ \<Rightarrow> False) flags) \<le> 1 \<and>
     \<not> (ContinuousMail \<in> set flags \<and>
        list_ex (\<lambda>f. case f of InternetContinuousMail \<Rightarrow> True | MailPeriod _ _ \<Rightarrow> True | OnlinePeriod _ _ \<Rightarrow> True
                   | _ \<Rightarrow> False) flags)"

definition is_member_keyword :: "keyword \<Rightarrow> bool" where
  "is_member_keyword k \<longleftrightarrow> k \<in> {KwNormal, KwPrivate, KwHold, KwDown}"

text \<open>
  One coordinator flag: whether it is allowed, and the validator with its claim recorded.
  \<open>BTreeSet::insert\<close> answers whether the element is new.
\<close>

definition claim_flag :: "keyword \<Rightarrow> int \<Rightarrow> int option \<Rightarrow> int \<Rightarrow> validator \<Rightarrow> other_flag \<Rightarrow> validator \<times> bool" where
  "claim_flag k z region n v flag =
     (case flag of
        ZoneEchomailCoordinator \<Rightarrow>
          (v\<lparr>va_zones_with_zec := insert z (va_zones_with_zec v)\<rparr>, z \<notin> va_zones_with_zec v)
      | RegionalEchomailCoordinator \<Rightarrow>
          (case region of
             None \<Rightarrow> (v, False)
           | Some r \<Rightarrow> (v\<lparr>va_regions_with_rec := insert (z, r) (va_regions_with_rec v)\<rparr>,
               (z, r) \<notin> va_regions_with_rec v))
      | RegionalPointlistKeeper \<Rightarrow>
          (case region of
             None \<Rightarrow> (v, False)
           | Some r \<Rightarrow> (v\<lparr>va_regions_with_rpk := insert (z, r) (va_regions_with_rpk v)\<rparr>,
               (z, r) \<notin> va_regions_with_rpk v))
      | NetworkEchomailCoordinator \<Rightarrow>
          (v\<lparr>va_echomail_coordinator_nets := insert (z, n) (va_echomail_coordinator_nets v)\<rparr>,
           (z, n) \<notin> va_echomail_coordinator_nets v)
      | NetPointlistKeeper \<Rightarrow>
          (v\<lparr>va_pointlist_keeper_nets := insert (z, n) (va_pointlist_keeper_nets v)\<rparr>,
           (z, n) \<notin> va_pointlist_keeper_nets v)
      | NetworkCoordinator \<Rightarrow>
          (if hi_host (va_hierarchy v) \<noteq> None \<and> is_member_keyword k
           then (v\<lparr>va_coordinator_override_nets := insert (z, n) (va_coordinator_override_nets v)\<rparr>,
                 (z, n) \<notin> va_coordinator_override_nets v)
           else (v, False))
      | _ \<Rightarrow> (v, True))"

fun claim_flags ::
    "keyword \<Rightarrow> int \<Rightarrow> int option \<Rightarrow> int \<Rightarrow> validator \<Rightarrow> other_flag list \<Rightarrow> validator \<times> (nodelist_error + unit)" where
  "claim_flags k z region n v [] = (v, Inr ())"
| "claim_flags k z region n v (f # fs) =
     (case claim_flag k z region n v f of
        (v', valid) \<Rightarrow> if valid then claim_flags k z region n v' fs else (v', Inl (Failed InvalidFlag)))"

definition validate_flags ::
    "keyword \<Rightarrow> address \<Rightarrow> system_flag list \<Rightarrow> other_flag list \<Rightarrow> validator \<Rightarrow> validator \<times> (nodelist_error + unit)" where
  "validate_flags k a system other v =
     (if \<not> system_flags_valid system then (v, Inl (Failed InvalidFlag))
      else case hi_zone (va_hierarchy v) of
        None \<Rightarrow> (v, Inl NodelistPanicked)
      | Some z \<Rightarrow> claim_flags k z (map_option net (hi_region (va_hierarchy v))) (net a) v other)"

text \<open>The TITH service of a record: the endpoints of all its TITH flags under the key of the first.\<close>

definition tith_of :: "resolved_service list \<Rightarrow> nodelist_error + tith_service option" where
  "tith_of resolved =
     (case filter (\<lambda>s. rs_protocol s = ProtoTith) resolved of
        [] \<Rightarrow> Inr None
      | s # ss \<Rightarrow>
          and_then (ok_or NodelistPanicked (rs_public_key s)) (\<lambda>key.
          Inr (Some
            \<lparr>svc_endpoints = map (\<lambda>e. \<lparr>nep_server = re_server e,
                 nep_port = (case re_port e of None \<Rightarrow> RegisteredDefault | Some p \<Rightarrow> Explicit p)\<rparr>)
               (concat (map rs_endpoints (s # ss))),
             svc_public_key = key\<rparr>)))"

definition usable_contact :: "str \<Rightarrow> internet_flag list \<Rightarrow> email_flag list \<Rightarrow> bool" where
  "usable_contact phone internet email \<longleftrightarrow>
     phone \<noteq> [] \<or>
     list_ex (\<lambda>service. list_ex resolved_usable (rs_endpoints service)) (resolved_services internet) \<or>
     list_ex publishes_email_contact email"

text \<open>
  The rest of a data line once its address is known.  The fields of a line are keyword, number,
  node name, location, sysop name, phone and the five flag fields.
\<close>

definition parse_flag_fields ::
    "flag_grammar \<Rightarrow> str list \<Rightarrow> nodelist_error_kind + system_flag list \<times> internet_flag list \<times> email_flag list \<times> other_flag list" where
  "parse_flag_fields G columns =
     and_then (gr_system G (columns ! 6)) (\<lambda>system.
     and_then (gr_pstn_isdn G (columns ! 7)) (\<lambda>_.
     and_then (gr_internet G (columns ! 8)) (\<lambda>internet.
     and_then (gr_email G (columns ! 9)) (\<lambda>email.
     and_then (gr_other G (columns ! 10)) (\<lambda>other.
     Inr (system, internet, email, other))))))"

definition parse_entry ::
    "flag_grammar \<Rightarrow> str list \<Rightarrow> keyword \<Rightarrow> address \<Rightarrow> validator \<Rightarrow> validator \<times> (nodelist_error + entry)" where
  "parse_entry G columns k a v =
     (if k = KwPrivate \<and> hi_host (va_hierarchy v) = None then (v, Inl (Failed InvalidHierarchy))
      else if \<not> validate_phone (columns ! 5) then (v, Inl (Failed InvalidPhone))
      else case parse_flag_fields G columns of
        Inl kind \<Rightarrow> (v, Inl (Failed kind))
      | Inr (system, internet, email, other) \<Rightarrow>
          if k \<in> {KwNormal, KwPrivate} \<and> (k = KwPrivate) = usable_contact (columns ! 5) internet email
          then (v, Inl (Failed PrivateContact))
          else (case validate_flags k a system other v of
            (v', Inl e) \<Rightarrow> (v', Inl e)
          | (v', Inr _) \<Rightarrow>
              (v', and_then (tith_of (resolved_services internet)) (\<lambda>tith.
                   and_then (branch_for (va_domain v') (va_hierarchy v')) (\<lambda>b.
                   Inr \<lparr>ent_keyword = k, ent_address = a, ent_tith = tith, ent_branch = b\<rparr>)))))"

definition parse_data_fields ::
    "flag_grammar \<Rightarrow> str list \<Rightarrow> validator \<Rightarrow> validator \<times> (nodelist_error + entry)" where
  "parse_data_fields G columns v =
     (case parse_keyword (columns ! 0) of
        None \<Rightarrow> (v, Inl (Failed InvalidKeyword))
      | Some k \<Rightarrow>
          if va_first_data v \<and> \<not> first_valid (va_initial v) k then (v, Inl (Failed InvalidHierarchy))
          else let v1 = v\<lparr>va_first_data := False\<rparr> in
            (case parse_node_number (columns ! 1) of
               None \<Rightarrow> (v1, Inl (Failed InvalidNodeNumber))
             | Some number \<Rightarrow>
                 (case address_for (va_domain v1) (va_hierarchy v1) k number of
                    Inl e \<Rightarrow> (v1, Inl e)
                  | Inr (h, a) \<Rightarrow>
                      let v2 = v1\<lparr>va_hierarchy := h, va_addresses := insert a (va_addresses v1)\<rparr> in
                      if a \<in> va_addresses v1 then (v2, Inl (Failed DuplicateAddress))
                      else parse_entry G columns k a v2)))"

definition parse_data_line ::
    "flag_grammar \<Rightarrow> nat \<Rightarrow> str \<Rightarrow> validator \<Rightarrow> validator \<times> (nat \<times> nodelist_error + entry)" where
  "parse_data_line G line raw v =
     (if list_ex (\<lambda>c. prohibited_character c \<and> c \<noteq> 9) (chars raw) then (v, Inl (line, Failed ControlCharacter))
      else let columns = split_at 9 raw in
        if length columns \<noteq> 11 then (v, Inl (line, Failed WrongFieldCount))
        else case parse_data_fields G columns v of (v', r) \<Rightarrow> (v', map_err (Pair line) r))"

datatype nodelist_record = CommentRecord str str | EntryRecord entry

definition is_ascii_alphabetic :: "u8 \<Rightarrow> bool" where
  "is_ascii_alphabetic b \<longleftrightarrow> 65 \<le> unat b \<and> unat b \<le> 90 \<or> 97 \<le> unat b \<and> unat b \<le> 122"

definition parse_line ::
    "flag_grammar \<Rightarrow> nat \<Rightarrow> str \<Rightarrow> validator \<Rightarrow> validator \<times> (nat \<times> nodelist_error + nodelist_record)" where
  "parse_line G line raw v =
     (if raw \<noteq> [] \<and> hd raw = 59 then
        if list_ex prohibited_character (chars raw) then (v, Inl (line, Failed ControlCharacter))
        else (v, Inr (CommentRecord (takeWhile is_ascii_alphabetic (tl raw)) (dropWhile is_ascii_alphabetic (tl raw))))
      else case parse_data_line G line raw v of (v', r) \<Rightarrow> (v', and_then r (\<lambda>e. Inr (EntryRecord e))))"

section \<open>The streaming reader\<close>

text \<open>
  What a \<open>BufRead\<close> delivers: bytes, and then the end of the input or an error.  \<open>read_until\<close> at a
  line feed gives the bytes through the line feed, or what is left.
\<close>

record buf_read =
  buf_bytes :: bytes
  buf_fails :: bool

definition read_until :: "u8 \<Rightarrow> buf_read \<Rightarrow> (unit + bytes) \<times> buf_read" where
  "read_until c r =
     (let head = takeWhile (\<lambda>b. b \<noteq> c) (buf_bytes r) in
      if c \<in> set (buf_bytes r)
      then (Inr (head @ [c]), r\<lparr>buf_bytes := drop (length head + 1) (buf_bytes r)\<rparr>)
      else (if buf_fails r then Inl () else Inr head, r\<lparr>buf_bytes := []\<rparr>))"

record reader_state =
  rd_validator :: validator
  rd_line :: nat
  rd_done :: bool

definition nodelist_reader_new :: "validator \<Rightarrow> reader_state" where
  "nodelist_reader_new v = \<lparr>rd_validator = v, rd_line = 0, rd_done = False\<rparr>"

definition reader_next ::
    "flag_grammar \<Rightarrow> reader_state \<Rightarrow> buf_read \<Rightarrow> reader_state \<times> buf_read \<times> (nat \<times> nodelist_error + nodelist_record) option" where
  "reader_next G st r =
     (if rd_done st then (st, r, None)
      else case read_until 10 r of
        (Inl _, r') \<Rightarrow> (st\<lparr>rd_done := True\<rparr>, r', Some (Inl (rd_line st + 1, Failed Io)))
      | (Inr buffer, r') \<Rightarrow>
          if buffer = [] then
            (st\<lparr>rd_done := True\<rparr>, r',
             if va_requires_data (rd_validator st) \<and> va_first_data (rd_validator st)
             then Some (Inl (rd_line st + 1, Failed InvalidHierarchy)) else None)
          else
            let st1 = st\<lparr>rd_line := rd_line st + 1\<rparr> in
            if last buffer \<noteq> 10 then
              (st1\<lparr>rd_done := True\<rparr>, r', Some (Inl (rd_line st1, Failed MissingFinalLineFeed)))
            else if \<not> valid_utf8 (butlast buffer) then
              (st1\<lparr>rd_done := True\<rparr>, r', Some (Inl (rd_line st1, Failed NotUtf8)))
            else (case parse_line G (rd_line st1) (butlast buffer) (rd_validator st1) of
              (v', res) \<Rightarrow>
                (st1\<lparr>rd_validator := v', rd_done := isl res\<rparr>, r', Some res)))"

lemma read_until_shorter:
  "read_until c r = (Inr buffer, r') \<Longrightarrow> buffer \<noteq> [] \<Longrightarrow> length (buf_bytes r') < length (buf_bytes r)"
proof -
  assume a: "read_until c r = (Inr buffer, r')" and b: "buffer \<noteq> []"
  then have "buf_bytes r \<noteq> []" by (auto simp: read_until_def Let_def split: if_splits)
  with a show ?thesis by (auto simp: read_until_def Let_def split: if_splits)
qed

text \<open>What one call of the iterator does, branch by branch.\<close>

lemma reader_next_cases:
  assumes "reader_next G st r = (st', r', Some item)"
  obtains (refused) line kind where "item = Inl (line, Failed kind)" "\<not> rd_done st" "rd_done st'"
  | (parsed) buffer v where "\<not> rd_done st" "read_until 10 r = (Inr buffer, r')" "buffer \<noteq> []"
      "valid_utf8 (butlast buffer)"
      "parse_line G (rd_line st + 1) (butlast buffer) (rd_validator st) = (v, item)"
      "st' = st\<lparr>rd_line := rd_line st + 1, rd_validator := v, rd_done := isl item\<rparr>"
proof (cases "rd_done st")
  case True
  with assms show ?thesis by (simp add: reader_next_def)
next
  case False
  obtain x q where until: "read_until 10 r = (x, q)" by (rule prod.exhaust)
  show ?thesis
  proof (cases x)
    case (Inl u)
    have "reader_next G st r = (st\<lparr>rd_done := True\<rparr>, q, Some (Inl (rd_line st + 1, Failed Io)))"
      unfolding reader_next_def until Inl using False by simp
    with assms have "st' = st\<lparr>rd_done := True\<rparr>" "item = Inl (rd_line st + 1, Failed Io)" by auto
    with False show ?thesis by (intro refused) simp_all
  next
    case (Inr buffer)
    consider "buffer = []" | "buffer \<noteq> []" "last buffer \<noteq> 10"
      | "buffer \<noteq> []" "last buffer = 10" "\<not> valid_utf8 (butlast buffer)"
      | "buffer \<noteq> []" "last buffer = 10" "valid_utf8 (butlast buffer)" by blast
    then show ?thesis
    proof cases
      case 1
      with assms until False Inr show ?thesis by (intro refused) (auto simp: reader_next_def split: if_splits)
    next
      case 2
      with assms until False Inr show ?thesis by (intro refused) (auto simp: reader_next_def Let_def)
    next
      case 3
      with assms until False Inr show ?thesis by (intro refused) (auto simp: reader_next_def Let_def)
    next
      case 4
      obtain v res where p: "parse_line G (rd_line st + 1) (butlast buffer) (rd_validator st) = (v, res)"
        by (rule prod.exhaust)
      have "reader_next G st r =
          (st\<lparr>rd_line := rd_line st + 1, rd_validator := v, rd_done := isl res\<rparr>, q, Some res)"
        using 4 until False Inr p by (simp add: reader_next_def Let_def)
      with assms have "st' = st\<lparr>rd_line := rd_line st + 1, rd_validator := v, rd_done := isl item\<rparr>" "q = r'" "res = item"
        by auto
      with 4 until False Inr p show ?thesis by (intro parsed) simp_all
    qed
  qed
qed

lemma reader_next_progress:
  assumes "reader_next G st r = (st', r', Some item)"
  shows "\<not> rd_done st \<and> (rd_done st' \<or> length (buf_bytes r') < length (buf_bytes r))"
  using assms by (cases rule: reader_next_cases) (auto dest: read_until_shorter)

text \<open>The items the iterator yields until it ends.\<close>

function reader_items ::
    "flag_grammar \<Rightarrow> reader_state \<Rightarrow> buf_read \<Rightarrow> (nat \<times> nodelist_error + nodelist_record) list" where
  "reader_items G st r =
     (case reader_next G st r of
        (_, _, None) \<Rightarrow> []
      | (st', r', Some item) \<Rightarrow> item # reader_items G st' r')"
  by pat_completeness auto
termination
  by (relation "measure (\<lambda>(G, st, r). if rd_done st then 0 else Suc (length (buf_bytes r)))")
    (auto dest!: reader_next_progress [OF sym])

declare reader_items.simps [simp del]

definition insert_record :: "nodelist \<Rightarrow> nodelist_record \<Rightarrow> nodelist" where
  "insert_record entries rcd =
     (case rcd of EntryRecord e \<Rightarrow> entries(ent_address e \<mapsto> e) | CommentRecord _ _ \<Rightarrow> entries)"

fun insert_records ::
    "nodelist \<Rightarrow> (nat \<times> nodelist_error + nodelist_record) list \<Rightarrow> nat \<times> nodelist_error + nodelist" where
  "insert_records entries [] = Inr entries"
| "insert_records entries (item # items) =
     and_then item (\<lambda>rcd. insert_records (insert_record entries rcd) items)"

text \<open>A distribution is a Zone segment that may be empty.\<close>

definition distribution :: "str \<Rightarrow> nat \<times> nodelist_error + validator" where
  "distribution d = map_err (Pair 0) (and_then (segment_validated d InZone) (\<lambda>ctx. validator_new ctx False))"

definition nodelist_read :: "flag_grammar \<Rightarrow> str \<Rightarrow> buf_read \<Rightarrow> nat \<times> nodelist_error + nodelist" where
  "nodelist_read G d r =
     and_then (distribution d) (\<lambda>v. insert_records Map.empty (reader_items G (nodelist_reader_new v) r))"

section \<open>The streaming writer\<close>

text \<open>The flag lists of an input enter as the text \<open>Display\<close> writes for them.\<close>

record entry_input =
  in_keyword :: keyword
  in_number :: u16
  in_node_name :: str
  in_location :: str
  in_sysop_name :: str
  in_phone :: str
  in_system_flags :: str
  in_pstn_isdn_flags :: str
  in_internet_flags :: str
  in_email_flags :: str
  in_other_flags :: str

datatype publication_source = Ordinary | FirstPublicationFromAnonymousApplication bytes

record nodelist_writer =
  wr_output :: bytes
  wr_validator :: validator
  wr_line :: nat

definition writer_new :: "validator \<Rightarrow> nodelist_writer" where
  "writer_new v = \<lparr>wr_output = [], wr_validator = v, wr_line = 0\<rparr>"

fun keyword_text :: "keyword \<Rightarrow> str" where
  "keyword_text KwNormal = []"
| "keyword_text KwPrivate = lit ''Pvt''"
| "keyword_text KwHold = lit ''Hold''"
| "keyword_text KwDown = lit ''Down''"
| "keyword_text KwZone = lit ''Zone''"
| "keyword_text KwRegion = lit ''Region''"
| "keyword_text KwHost = lit ''Host''"
| "keyword_text KwHub = lit ''Hub''"

definition input_fields :: "entry_input \<Rightarrow> str list" where
  "input_fields i =
     [keyword_text (in_keyword i), show_nat (unat (in_number i)), in_node_name i, in_location i, in_sysop_name i,
      in_phone i, in_system_flags i, in_pstn_isdn_flags i, in_internet_flags i, in_email_flags i, in_other_flags i]"

definition validate_publication_source :: "entry \<Rightarrow> publication_source \<Rightarrow> nodelist_error + unit" where
  "validate_publication_source e source =
     (case source of
        Ordinary \<Rightarrow> Inr ()
      | FirstPublicationFromAnonymousApplication key \<Rightarrow>
          if map_option svc_public_key (ent_tith e) \<noteq> Some key then Inl (Failed ApplicationKeyMismatch) else Inr ())"

text \<open>\<open>io\<close> tells whether \<open>write_all\<close> and \<open>flush\<close> succeed.\<close>

definition write_entry ::
    "flag_grammar \<Rightarrow> entry_input \<Rightarrow> publication_source \<Rightarrow> bool \<Rightarrow> nodelist_writer
     \<Rightarrow> nodelist_writer \<times> (nat \<times> nodelist_error + entry)" where
  "write_entry G i source io w =
     (let line = join_with 9 (input_fields i); number = wr_line w + 1 in
      case parse_data_line G number line (wr_validator w) of
        (v, r) \<Rightarrow>
          let w' = w\<lparr>wr_validator := v, wr_line := number\<rparr> in
          (case and_then r (\<lambda>e. and_then (map_err (Pair number) (validate_publication_source e source)) (\<lambda>_. Inr e)) of
            Inl e \<Rightarrow> (w', Inl e)
          | Inr e \<Rightarrow>
              if io then (w'\<lparr>wr_output := wr_output w @ line @ [10]\<rparr>, Inr e)
              else (w', Inl (number, Failed Io))))"

definition validate_comment :: "str \<Rightarrow> str \<Rightarrow> nodelist_error + unit" where
  "validate_comment interests remainder =
     (if \<not> list_all is_ascii_alphabetic interests \<or> remainder \<noteq> [] \<and> is_ascii_alphabetic (hd remainder)
      then Inl (Failed InvalidComment) else Inr ())"

definition write_comment ::
    "flag_grammar \<Rightarrow> str \<Rightarrow> str \<Rightarrow> bool \<Rightarrow> nodelist_writer \<Rightarrow> nodelist_writer \<times> (nat \<times> nodelist_error + unit)" where
  "write_comment G interests remainder io w =
     (case validate_comment interests remainder of
        Inl e \<Rightarrow> (w, Inl (wr_line w + 1, e))
      | Inr _ \<Rightarrow>
          let line = 59 # interests @ remainder; number = wr_line w + 1 in
          (case parse_line G number line (wr_validator w) of
            (v, r) \<Rightarrow>
              let w' = w\<lparr>wr_validator := v, wr_line := number\<rparr> in
              (case r of
                Inl e \<Rightarrow> (w', Inl e)
              | Inr _ \<Rightarrow>
                  if io then (w'\<lparr>wr_output := wr_output w @ line @ [10]\<rparr>, Inr ())
                  else (w', Inl (number, Failed Io)))))"

definition writer_finish :: "bool \<Rightarrow> nodelist_writer \<Rightarrow> nat \<times> nodelist_error + bytes" where
  "writer_finish io w =
     (if va_requires_data (wr_validator w) \<and> va_first_data (wr_validator w)
      then Inl (wr_line w + 1, Failed InvalidHierarchy)
      else if io then Inr (wr_output w) else Inl (wr_line w, Failed Io))"

section \<open>The hierarchy never fails its expectations\<close>

definition node_number :: "int \<Rightarrow> bool" where
  "node_number n \<longleftrightarrow> 1 \<le> n \<and> n \<le> 32767"

definition listed_address :: "str \<Rightarrow> address \<Rightarrow> bool" where
  "listed_address d a \<longleftrightarrow> domain a = d \<and> node_number (zone a) \<and> node_number (net a) \<and> point a = 0"

definition listed_option :: "str \<Rightarrow> address option \<Rightarrow> bool" where
  "listed_option d v \<longleftrightarrow> (\<forall>a. v = Some a \<longrightarrow> listed_address d a)"

definition hierarchy_ok :: "str \<Rightarrow> hierarchy \<Rightarrow> bool" where
  "hierarchy_ok d h \<longleftrightarrow>
     (\<exists>z. hi_zone h = Some z \<and> node_number z) \<and> listed_option d (hi_region h) \<and> listed_option d (hi_host h) \<and>
     listed_option d (hi_hub h)"

definition branch_ok :: "str \<Rightarrow> branch \<Rightarrow> bool" where
  "branch_ok d b \<longleftrightarrow>
     listed_address d (br_zone b) \<and> listed_option d (br_region b) \<and> listed_option d (br_host b) \<and>
     listed_option d (br_hub b)"

definition listed_domain :: "str \<Rightarrow> bool" where
  "listed_domain d \<longleftrightarrow> validate_domain d = Inr () \<and> d \<noteq> lit ''p2p''"

lemma parse_node_number_range: "parse_node_number v = Some n \<Longrightarrow> node_number n"
  by (auto simp: parse_node_number_def node_number_def split: if_splits option.splits)

lemma expect_address_ok:
  assumes "listed_domain d" and "node_number z" and "node_number n" and "0 \<le> f" and "f \<le> 32767"
  shows "expect_address d z n f = Inr \<lparr>domain = d, zone = z, net = n, node = f, point = 0\<rparr>"
proof -
  have "address_new d z n f 0 = Inr \<lparr>domain = d, zone = z, net = n, node = f, point = 0\<rparr>"
    using assms by (simp add: address_new_eq_Inr listed_domain_def node_number_def)
  then show ?thesis by (simp add: expect_address_def)
qed

lemma segment_validated_domain:
  assumes "segment_validated d initial = Inr v"
  shows "listed_domain d"
    and "\<And>z. initial = WithinZone z \<Longrightarrow> node_number z"
    and "\<And>z n. initial = WithinLocalNet z n \<Longrightarrow> node_number z \<and> node_number n"
  using assms
  by (auto simp: segment_validated_def listed_domain_def node_number_def and_then_eq_Inr map_err_eq_Inr
      address_new_eq_Inr split: initial_context.splits)

lemma listed_record [simp]:
  "listed_address d \<lparr>domain = d, zone = z, net = n, node = f, point = 0\<rparr> \<longleftrightarrow> node_number z \<and> node_number n"
  by (simp add: listed_address_def)

lemma address_for_ok:
  assumes "listed_domain d" and "node_number number" and "hierarchy_ok d h \<or> k = KwZone"
  shows "(\<exists>h' a. address_for d h k number = Inr (h', a) \<and> hierarchy_ok d h' \<and> listed_address d a) \<or>
    address_for d h k number = Inl (Failed InvalidHierarchy) \<and> k = KwHub"
proof -
  have n: "0 \<le> number" "number \<le> 32767" using assms(2) by (simp_all add: node_number_def)
  show ?thesis
  proof (cases "k = KwZone")
    case True
    then show ?thesis using assms(1,2)
      by (simp add: address_for_def expect_address_ok hierarchy_ok_def listed_option_def)
  next
    case False
    with assms(3) obtain z where h: "hi_zone h = Some z" "node_number z" "listed_option d (hi_region h)"
      "listed_option d (hi_host h)" "listed_option d (hi_hub h)" by (auto simp: hierarchy_ok_def)
    have host: "node_number (zone a) \<and> node_number (net a)" if "hi_host h = Some a" for a
      using h(4) that by (simp add: listed_option_def listed_address_def)
    have region: "node_number (net a)" if "hi_region h = Some a" for a
      using h(3) that by (simp add: listed_option_def listed_address_def)
    consider "k = KwRegion" | "k = KwHost" | "k = KwHub" | "k \<notin> {KwZone, KwRegion, KwHost, KwHub}" using False by blast
    then show ?thesis
    proof cases
      case 3
      then show ?thesis using assms(1) h host n
        by (cases "hi_host h") (auto simp: address_for_def expect_address_ok hierarchy_ok_def listed_option_def)
    next
      case 4
      have "node_number (case hi_host h of Some host \<Rightarrow> net host
          | None \<Rightarrow> (case hi_region h of Some region \<Rightarrow> net region | None \<Rightarrow> z))"
        using h(2) host region by (simp split: option.splits)
      with 4 show ?thesis using assms(1) h n
        by (simp add: address_for_def expect_address_ok hierarchy_ok_def Let_def)
    qed (use assms(1,2) h in \<open>simp_all add: address_for_def expect_address_ok hierarchy_ok_def listed_option_def\<close>)
  qed
qed

lemma branch_for_ok: "listed_domain d \<Longrightarrow> hierarchy_ok d h \<Longrightarrow> \<exists>b. branch_for d h = Inr b \<and> branch_ok d b"
  by (auto simp: hierarchy_ok_def branch_for_def branch_ok_def expect_address_ok)

section \<open>One data record\<close>

text \<open>
  A validator is ready when the expectations on its hierarchy hold: an active Zone, or a Zone segment
  whose first record, which has to be a Zone, is still to come.
\<close>

definition validator_ready :: "validator \<Rightarrow> bool" where
  "validator_ready v \<longleftrightarrow>
     listed_domain (va_domain v) \<and>
     (hierarchy_ok (va_domain v) (va_hierarchy v) \<or> va_first_data v \<and> va_initial v = InZone)"

text \<open>The coordinator flags touch neither the hierarchy nor the addresses.\<close>

definition same_place :: "validator \<Rightarrow> validator \<Rightarrow> bool" where
  "same_place v v' \<longleftrightarrow>
     va_domain v' = va_domain v \<and> va_initial v' = va_initial v \<and> va_hierarchy v' = va_hierarchy v \<and>
     va_addresses v' = va_addresses v"

lemma claim_flag_place: "claim_flag k z region n v f = (v', valid) \<Longrightarrow> same_place v v'"
  by (cases f) (auto simp: claim_flag_def same_place_def split: if_splits option.splits)

lemma claim_flags_place:
  "claim_flags k z region n v fs = (v', r) \<Longrightarrow> same_place v v' \<and> r \<noteq> Inl NodelistPanicked"
proof (induction fs arbitrary: v)
  case Nil
  then show ?case by (auto simp: same_place_def)
next
  case (Cons f fs)
  obtain v1 valid where "claim_flag k z region n v f = (v1, valid)" by (rule prod.exhaust)
  with Cons claim_flag_place [OF this] show ?case by (fastforce simp: same_place_def split: if_splits)
qed

lemma validate_flags_place:
  assumes "hi_zone (va_hierarchy v) \<noteq> None" and "validate_flags k a system other v = (v', r)"
  shows "same_place v v' \<and> r \<noteq> Inl NodelistPanicked"
  using assms claim_flags_place by (auto simp: validate_flags_def same_place_def split: if_splits)

text \<open>A resolved TITH service always has its key.\<close>

lemma resolve_flag_key: "resolve_flag ds f = Some s \<Longrightarrow> rs_protocol s = ProtoTith \<Longrightarrow> rs_public_key s \<noteq> None"
  by (cases f) auto

lemma tith_of_resolved: "\<exists>tith. tith_of (resolved_services flags) = Inr tith"
proof (cases "filter (\<lambda>s. rs_protocol s = ProtoTith) (resolved_services flags)")
  case (Cons s ss)
  then have "s \<in> set (filter (\<lambda>s. rs_protocol s = ProtoTith) (resolved_services flags))" by simp
  then have "s \<in> set (resolved_services flags)" and p: "rs_protocol s = ProtoTith" by auto
  then obtain ds f where "resolve_flag ds f = Some s"
    by (auto simp: resolved_services_def List.map_filter_def)
  from resolve_flag_key [OF this p] Cons show ?thesis by (auto simp: tith_of_def)
qed (simp add: tith_of_def)

lemma parse_entry_result:
  assumes "listed_domain (va_domain v)" and "hierarchy_ok (va_domain v) (va_hierarchy v)"
    and "parse_entry G columns k a v = (v', r)"
  shows "same_place v v'" and "r \<noteq> Inl NodelistPanicked"
    and "\<And>e. r = Inr e \<Longrightarrow> ent_keyword e = k \<and> ent_address e = a \<and>
      branch_for (va_domain v) (va_hierarchy v) = Inr (ent_branch e)"
proof -
  have zone: "hi_zone (va_hierarchy v) \<noteq> None" using assms(2) by (auto simp: hierarchy_ok_def)
  obtain b where b: "branch_for (va_domain v) (va_hierarchy v) = Inr b" using branch_for_ok [OF assms(1,2)] by blast
  have "same_place v v' \<and> r \<noteq> Inl NodelistPanicked \<and> (\<forall>e. r = Inr e \<longrightarrow> ent_keyword e = k \<and> ent_address e = a \<and>
      branch_for (va_domain v) (va_hierarchy v) = Inr (ent_branch e))"
  proof (cases "(k = KwPrivate \<and> hi_host (va_hierarchy v) = None) \<or> \<not> validate_phone (columns ! 5)")
    case True
    with assms(3) show ?thesis by (auto simp: parse_entry_def same_place_def split: if_splits)
  next
    case guards: False
    show ?thesis
    proof (cases "parse_flag_fields G columns")
      case (Inl kind)
      with assms(3) guards show ?thesis by (auto simp: parse_entry_def same_place_def)
    next
      case (Inr fs)
      obtain system internet email other where fs: "fs = (system, internet, email, other)" by (cases fs)
      obtain v1 q where q: "validate_flags k a system other v = (v1, q)" by (rule prod.exhaust)
      obtain tith where t: "tith_of (resolved_services internet) = Inr tith" using tith_of_resolved by blast
      note place = validate_flags_place [OF zone q]
      then have "branch_for (va_domain v1) (va_hierarchy v1) = Inr b" using b by (simp add: same_place_def)
      with assms(3) guards Inr fs q t place b show ?thesis
        by (cases q) (auto simp: parse_entry_def same_place_def split: if_splits)
    qed
  qed
  then show "same_place v v'" and "r \<noteq> Inl NodelistPanicked"
    and "\<And>e. r = Inr e \<Longrightarrow> ent_keyword e = k \<and> ent_address e = a \<and>
      branch_for (va_domain v) (va_hierarchy v) = Inr (ent_branch e)" by blast+
qed

text \<open>
  The effect of an accepted record: the validator stays ready, and the record has a new address and
  a branch, both from the hierarchy that \<open>address_for\<close> leaves behind.
\<close>

definition record_accepted :: "validator \<Rightarrow> validator \<Rightarrow> entry \<Rightarrow> bool" where
  "record_accepted v v' e \<longleftrightarrow>
     validator_ready v' \<and> va_domain v' = va_domain v \<and> va_initial v' = va_initial v \<and>
     ent_address e \<notin> va_addresses v \<and> va_addresses v' = insert (ent_address e) (va_addresses v) \<and>
     listed_address (va_domain v) (ent_address e) \<and>
     branch_for (va_domain v) (va_hierarchy v') = Inr (ent_branch e) \<and>
     branch_ok (va_domain v) (ent_branch e) \<and>
     (\<exists>number. address_for (va_domain v) (va_hierarchy v) (ent_keyword e) number = Inr (va_hierarchy v', ent_address e))"

text \<open>
  What a ready validator does with the fields of a data line: no expectation fails, and an accepted
  record leaves it ready, with the hierarchy and the new address that \<open>address_for\<close> gives.
\<close>

lemma parse_data_fields_ready:
  assumes "validator_ready v" and "parse_data_fields G columns v = (v', r)"
  shows "r \<noteq> Inl NodelistPanicked"
    and "\<And>e. r = Inr e \<Longrightarrow> record_accepted v v' e"
    and "validator_ready v' \<or> va_first_data v \<and> va_initial v = InZone \<and> r = Inl (Failed InvalidNodeNumber)"
    and "va_initial v' = va_initial v"
proof -
  let ?d = "va_domain v" and ?h = "va_hierarchy v"
  have dom: "listed_domain ?d" using assms(1) by (simp add: validator_ready_def)
  let ?goal = "r \<noteq> Inl NodelistPanicked \<and> (\<forall>e. r = Inr e \<longrightarrow> record_accepted v v' e) \<and>
    (validator_ready v' \<or> va_first_data v \<and> va_initial v = InZone \<and> r = Inl (Failed InvalidNodeNumber)) \<and>
    va_initial v' = va_initial v"
  have ?goal
  proof (cases "parse_keyword (columns ! 0)")
    case None
    with assms show ?thesis by (auto simp: parse_data_fields_def)
  next
    case k: (Some k)
    show ?thesis
    proof (cases "va_first_data v \<and> \<not> first_valid (va_initial v) k")
      case True
      with assms k show ?thesis by (auto simp: parse_data_fields_def)
    next
      case first: False
      show ?thesis
      proof (cases "parse_node_number (columns ! 1)")
        case None
        with assms k first show ?thesis by (auto simp: parse_data_fields_def validator_ready_def Let_def)
      next
        case number: (Some number)
        have zone_or: "hierarchy_ok ?d ?h \<or> k = KwZone"
          using assms(1) first by (auto simp: validator_ready_def first_valid_def)
        from address_for_ok [OF dom parse_node_number_range [OF number] zone_or]
        consider (placed) h a where "address_for ?d ?h k number = Inr (h, a)" "hierarchy_ok ?d h" "listed_address ?d a"
          | (refused) "address_for ?d ?h k number = Inl (Failed InvalidHierarchy)" by blast
        then show ?thesis
        proof cases
          case placed
          let ?v2 = "v\<lparr>va_first_data := False, va_hierarchy := h, va_addresses := insert a (va_addresses v)\<rparr>"
          have step: "(v', r) = (if a \<in> va_addresses v then (?v2, Inl (Failed DuplicateAddress)) else parse_entry G columns k a ?v2)"
            using assms(2) k first number placed(1) by (auto simp: parse_data_fields_def Let_def)
          show ?thesis
          proof (cases "a \<in> va_addresses v")
            case True
            with step dom placed(2) show ?thesis by (simp add: validator_ready_def)
          next
            case False
            with step have p: "parse_entry G columns k a ?v2 = (v', r)" by simp
            note res = parse_entry_result [OF _ _ p, simplified, OF dom placed(2)]
            from branch_for_ok [OF dom placed(2)] obtain b where "branch_for ?d h = Inr b" "branch_ok ?d b" by blast
            with res placed dom False show ?thesis by (auto simp: record_accepted_def same_place_def validator_ready_def)
          qed
        next
          case refused
          then have "hierarchy_ok ?d ?h"
            using zone_or refused dom parse_node_number_range [OF number] by (auto simp: address_for_def expect_address_ok)
          with assms k first number refused show ?thesis
            by (auto simp: parse_data_fields_def Let_def validator_ready_def)
        qed
      qed
    qed
  qed
  then show "r \<noteq> Inl NodelistPanicked" and "\<And>e. r = Inr e \<Longrightarrow> record_accepted v v' e"
    and "validator_ready v' \<or> va_first_data v \<and> va_initial v = InZone \<and> r = Inl (Failed InvalidNodeNumber)"
    and "va_initial v' = va_initial v" by blast+
qed

section \<open>A whole segment\<close>

lemma parse_data_line_ready:
  assumes "validator_ready v" and "parse_data_line G line raw v = (v', r)"
  shows "r \<noteq> Inl (l, NodelistPanicked)" and "\<And>e. r = Inr e \<Longrightarrow> record_accepted v v' e"
    and "validator_ready v' \<or> va_first_data v \<and> va_initial v = InZone \<and> r = Inl (line, Failed InvalidNodeNumber)"
    and "va_initial v' = va_initial v"
proof -
  obtain w q where wq: "parse_data_fields G (split_at 9 raw) v = (w, q)" by (rule prod.exhaust)
  note ready = parse_data_fields_ready [OF assms(1) wq]
  show "r \<noteq> Inl (l, NodelistPanicked)" using assms(2) wq ready(1)
    by (auto simp: parse_data_line_def Let_def map_err_eq_Inl split: if_splits)
  show "record_accepted v v' e" if "r = Inr e" for e using assms(2) wq ready(2) that
    by (auto simp: parse_data_line_def Let_def map_err_eq_Inr split: if_splits)
  show "validator_ready v' \<or> va_first_data v \<and> va_initial v = InZone \<and> r = Inl (line, Failed InvalidNodeNumber)"
    using assms wq ready(3) by (auto simp: parse_data_line_def Let_def split: if_splits)
  show "va_initial v' = va_initial v"
    using assms(2) wq ready(4) by (auto simp: parse_data_line_def Let_def split: if_splits)
qed

lemma parse_line_ready:
  assumes "validator_ready v" and "parse_line G line raw v = (v', r)"
  shows "r \<noteq> Inl (l, NodelistPanicked)" and "\<And>e. r = Inr (EntryRecord e) \<Longrightarrow> record_accepted v v' e"
    and "\<And>x y. r = Inr (CommentRecord x y) \<Longrightarrow> v' = v"
proof -
  obtain w q where wq: "parse_data_line G line raw v = (w, q)" by (rule prod.exhaust)
  note ready = parse_data_line_ready [OF assms(1) wq]
  show "r \<noteq> Inl (l, NodelistPanicked)" using assms(2) wq ready(1)
    by (auto simp: parse_line_def and_then_eq_Inl split: if_splits)
  show "record_accepted v v' e" if "r = Inr (EntryRecord e)" for e using assms(2) wq ready(2) that
    by (auto simp: parse_line_def and_then_eq_Inr split: if_splits)
  show "v' = v" if "r = Inr (CommentRecord x y)" for x y using assms(2) wq that
    by (auto simp: parse_line_def and_then_eq_Inr split: if_splits)
qed

text \<open>
  The coordinators a segment knows: those of the records read and those its context supplies.
\<close>

definition context_root :: "str \<Rightarrow> initial_context \<Rightarrow> keyword \<Rightarrow> address \<Rightarrow> bool" where
  "context_root d initial k a \<longleftrightarrow>
     (case initial of
        InZone \<Rightarrow> False
      | WithinZone z \<Rightarrow> k = KwZone \<and> a = \<lparr>domain = d, zone = z, net = z, node = 0, point = 0\<rparr>
      | WithinLocalNet z n \<Rightarrow>
          k = KwZone \<and> a = \<lparr>domain = d, zone = z, net = z, node = 0, point = 0\<rparr> \<or>
          k = KwHost \<and> a = \<lparr>domain = d, zone = z, net = n, node = 0, point = 0\<rparr>)"

definition root_known :: "str \<Rightarrow> initial_context \<Rightarrow> entry list \<Rightarrow> keyword \<Rightarrow> address \<Rightarrow> bool" where
  "root_known d initial es k a \<longleftrightarrow>
     context_root d initial k a \<or> (\<exists>e \<in> set es. ent_keyword e = k \<and> ent_address e = a)"

definition branch_known :: "str \<Rightarrow> initial_context \<Rightarrow> entry list \<Rightarrow> branch \<Rightarrow> bool" where
  "branch_known d initial es b \<longleftrightarrow>
     root_known d initial es KwZone (br_zone b) \<and> pred_option (root_known d initial es KwRegion) (br_region b) \<and>
     pred_option (root_known d initial es KwHost) (br_host b) \<and> pred_option (root_known d initial es KwHub) (br_hub b)"

text \<open>The entries of a segment: listed addresses, each once, and branches of known coordinators.\<close>

definition entries_ok :: "str \<Rightarrow> initial_context \<Rightarrow> entry list \<Rightarrow> bool" where
  "entries_ok d initial es \<longleftrightarrow>
     distinct (map ent_address es) \<and>
     list_all (\<lambda>e. listed_address d (ent_address e) \<and> branch_ok d (ent_branch e) \<and>
       branch_known d initial es (ent_branch e)) es"

lemma root_known_mono: "root_known d initial es k a \<Longrightarrow> set es \<subseteq> set es' \<Longrightarrow> root_known d initial es' k a"
  by (auto simp: root_known_def)

lemma branch_known_mono: "branch_known d initial es b \<Longrightarrow> set es \<subseteq> set es' \<Longrightarrow> branch_known d initial es' b"
  by (auto simp: branch_known_def root_known_mono elim!: option.pred_mono_strong)

text \<open>The hierarchy holds known coordinators only; one more record keeps it so.\<close>

definition hierarchy_known :: "str \<Rightarrow> initial_context \<Rightarrow> entry list \<Rightarrow> hierarchy \<Rightarrow> bool" where
  "hierarchy_known d initial es h \<longleftrightarrow>
     (\<forall>z. hi_zone h = Some z \<longrightarrow> root_known d initial es KwZone \<lparr>domain = d, zone = z, net = z, node = 0, point = 0\<rparr>) \<and>
     pred_option (root_known d initial es KwRegion) (hi_region h) \<and>
     pred_option (root_known d initial es KwHost) (hi_host h) \<and> pred_option (root_known d initial es KwHub) (hi_hub h)"

lemma hierarchy_known_mono: "hierarchy_known d initial es h \<Longrightarrow> set es \<subseteq> set es' \<Longrightarrow> hierarchy_known d initial es' h"
  by (auto simp: hierarchy_known_def root_known_mono elim!: option.pred_mono_strong)

lemma expect_address_fields:
  "expect_address d z n f = Inr a \<Longrightarrow> a = \<lparr>domain = d, zone = z, net = n, node = f, point = 0\<rparr>"
  by (simp add: expect_address_def map_err_eq_Inr address_new_eq_Inr)

lemma address_for_known:
  assumes "hierarchy_known d initial es h"
    and "address_for d h (ent_keyword e) number = Inr (h', ent_address e)"
  shows "hierarchy_known d initial (es @ [e]) h'"
proof -
  have old: "hierarchy_known d initial (es @ [e]) h" by (rule hierarchy_known_mono [OF assms(1)]) auto
  have new: "root_known d initial (es @ [e]) (ent_keyword e) (ent_address e)" by (simp add: root_known_def)
  show ?thesis using old new assms(2)
    by (cases "ent_keyword e")
      (auto simp: address_for_def Let_def and_then_eq_Inr ok_or_eq_Inr hierarchy_known_def dest!: expect_address_fields)
qed

lemma branch_for_known:
  "hierarchy_known d initial es h \<Longrightarrow> branch_for d h = Inr b \<Longrightarrow> branch_known d initial es b"
  by (auto simp: branch_for_def and_then_eq_Inr ok_or_eq_Inr hierarchy_known_def branch_known_def
      dest!: expect_address_fields)

definition validator_holds :: "str \<Rightarrow> initial_context \<Rightarrow> entry list \<Rightarrow> validator \<Rightarrow> bool" where
  "validator_holds d initial es v \<longleftrightarrow>
     validator_ready v \<and> va_domain v = d \<and> va_initial v = initial \<and> va_addresses v = ent_address ` set es \<and>
     entries_ok d initial es \<and> hierarchy_known d initial es (va_hierarchy v)"

lemma validator_holds_accept:
  assumes "validator_holds d initial es v" and "record_accepted v v' e"
  shows "validator_holds d initial (es @ [e]) v'"
proof -
  have known: "hierarchy_known d initial (es @ [e]) (va_hierarchy v')"
    using assms address_for_known by (auto simp: validator_holds_def record_accepted_def)
  then have "branch_known d initial (es @ [e]) (ent_branch e)"
    using assms branch_for_known by (auto simp: validator_holds_def record_accepted_def)
  moreover have "branch_known d initial (es @ [e]) (ent_branch x)" if "x \<in> set es" for x
    using assms(1) that by (auto simp: validator_holds_def entries_ok_def list_all_iff intro: branch_known_mono)
  ultimately show ?thesis using assms known
    by (auto simp: validator_holds_def record_accepted_def entries_ok_def list_all_iff)
qed

lemma validator_new_holds:
  assumes "segment_validated d initial = Inr ctx"
  shows "\<exists>v. validator_new ctx requires_data = Inr v \<and> validator_holds d initial [] v \<and> va_first_data v"
proof -
  note dom = segment_validated_domain [OF assms]
  have ctx: "ctx = (d, initial)"
    using assms by (auto simp: segment_validated_def and_then_eq_Inr split: initial_context.splits)
  show ?thesis
  proof (cases initial)
    case (WithinLocalNet z n)
    then have "expect_address d z n 0 = Inr \<lparr>domain = d, zone = z, net = n, node = 0, point = 0\<rparr>"
      using dom by (simp add: expect_address_ok)
    with WithinLocalNet dom show ?thesis
      by (simp add: ctx validator_new_def hierarchy_new_def validator_holds_def validator_ready_def hierarchy_ok_def
          listed_option_def entries_ok_def hierarchy_known_def root_known_def context_root_def)
  qed (use dom in \<open>simp_all add: ctx validator_new_def hierarchy_new_def validator_holds_def validator_ready_def
      hierarchy_ok_def listed_option_def entries_ok_def hierarchy_known_def root_known_def context_root_def\<close>)
qed

fun item_entries :: "(nat \<times> nodelist_error + nodelist_record) list \<Rightarrow> entry list" where
  "item_entries [] = []"
| "item_entries (Inr (EntryRecord e) # items) = e # item_entries items"
| "item_entries (_ # items) = item_entries items"

lemma reader_items_done: "rd_done st \<Longrightarrow> reader_items G st r = []"
  by (subst reader_items.simps) (simp add: reader_next_def)

lemma reader_items_ok:
  assumes "validator_holds d initial es (rd_validator st)"
  shows "entries_ok d initial (es @ item_entries (reader_items G st r)) \<and>
    (\<forall>l. Inl (l, NodelistPanicked) \<notin> set (reader_items G st r)) \<and>
    list_all (\<lambda>item. \<not> isl item) (butlast (reader_items G st r))"
  using assms
proof (induction G st r arbitrary: es rule: reader_items.induct)
  case (1 G st r)
  obtain st' r' x where step: "reader_next G st r = (st', r', x)" by (metis prod_cases3)
  show ?case
  proof (cases x)
    case None
    with step 1(2) show ?thesis by (simp add: reader_items.simps [of G st r] validator_holds_def)
  next
    case (Some item)
    with step have items: "reader_items G st r = item # reader_items G st' r'"
      by (simp add: reader_items.simps [of G st r])
    from step Some have "reader_next G st r = (st', r', Some item)" by simp
    then show ?thesis
    proof (cases rule: reader_next_cases)
      case refused
      with 1(2) items show ?thesis by (simp add: reader_items_done validator_holds_def)
    next
      case (parsed buffer v)
      have ready: "validator_ready (rd_validator st)" using 1(2) by (simp add: validator_holds_def)
      note line = parse_line_ready [OF ready parsed(5)]
      show ?thesis
      proof (cases item)
        case (Inl e)
        with parsed have "rd_done st'" by simp
        with Inl items line(1) 1(2) show ?thesis by (cases e) (auto simp: reader_items_done validator_holds_def)
      next
        case (Inr rcd)
        note IH = 1(1) [OF step [symmetric] refl Some]
        show ?thesis
        proof (cases rcd)
          case (CommentRecord a b)
          with Inr line(3) parsed 1(2) have "validator_holds d initial es (rd_validator st')" by simp
          from IH [OF this] Inr CommentRecord items show ?thesis by auto
        next
          case (EntryRecord e)
          with Inr line(2) parsed 1(2) have "validator_holds d initial (es @ [e]) (rd_validator st')"
            by (simp add: validator_holds_accept)
          from IH [OF this] Inr EntryRecord items show ?thesis by auto
        qed
      qed
    qed
  qed
qed

lemma new_reader_items:
  assumes "validator_holds d initial [] v"
  shows "entries_ok d initial (item_entries (reader_items G (nodelist_reader_new v) r))"
    and "Inl (l, NodelistPanicked) \<notin> set (reader_items G (nodelist_reader_new v) r)"
    and "list_all (\<lambda>item. \<not> isl item) (butlast (reader_items G (nodelist_reader_new v) r))"
  using reader_items_ok [of d initial "[]" "nodelist_reader_new v" G r] assms
  by (simp_all add: nodelist_reader_new_def)

section \<open>The table of a distribution\<close>

lemma insert_records_Inr:
  "insert_records m items = Inr n \<Longrightarrow> n = m ++ map_of (rev (map (\<lambda>e. (ent_address e, e)) (item_entries items)))"
proof (induction items arbitrary: m)
  case (Cons item items)
  then obtain rcd where item: "item = Inr rcd" and rest: "insert_records (insert_record m rcd) items = Inr n"
    by (auto simp: and_then_eq_Inr)
  from Cons.IH [OF rest] show ?case by (cases rcd) (auto simp: item insert_record_def map_add_def fun_eq_iff split: option.splits)
qed simp

lemma insert_records_Inl: "insert_records m items = Inl e \<Longrightarrow> Inl e \<in> set items"
  by (induction m items rule: insert_records.induct) (auto simp: and_then_eq_Inl)

text \<open>Every coordinator of a branch is itself listed, under the keyword of its level.\<close>

definition listed_as :: "nodelist \<Rightarrow> keyword \<Rightarrow> address \<Rightarrow> bool" where
  "listed_as n k a \<longleftrightarrow> (case n a of Some e \<Rightarrow> ent_keyword e = k | None \<Rightarrow> False)"

definition branch_listed :: "nodelist \<Rightarrow> branch \<Rightarrow> bool" where
  "branch_listed n b \<longleftrightarrow>
     listed_as n KwZone (br_zone b) \<and> pred_option (listed_as n KwRegion) (br_region b) \<and>
     pred_option (listed_as n KwHost) (br_host b) \<and> pred_option (listed_as n KwHub) (br_hub b)"

lemma distribution_holds: "distribution d = Inr v \<Longrightarrow> validator_holds d InZone [] v"
  using validator_new_holds [of d InZone _ False] by (fastforce simp: distribution_def map_err_eq_Inr and_then_eq_Inr)

lemma distribution_no_panic: "distribution d \<noteq> Inl (l, NodelistPanicked)"
  using validator_new_holds [of d InZone _ False]
  by (fastforce simp: distribution_def map_err_eq_Inl and_then_eq_Inl segment_validated_def)

lemma nodelist_read_no_panic: "nodelist_read G d r \<noteq> Inl (l, NodelistPanicked)"
proof
  assume "nodelist_read G d r = Inl (l, NodelistPanicked)"
  then obtain v where v: "distribution d = Inr v"
    and "insert_records Map.empty (reader_items G (nodelist_reader_new v) r) = Inl (l, NodelistPanicked)"
    using distribution_no_panic by (auto simp: nodelist_read_def and_then_eq_Inl)
  then have "Inl (l, NodelistPanicked) \<in> set (reader_items G (nodelist_reader_new v) r)" by (simp add: insert_records_Inl)
  then show False using new_reader_items(2) [OF distribution_holds [OF v]] by blast
qed

lemma nodelist_read_entries:
  assumes "nodelist_read G d r = Inr n"
  obtains es where "entries_ok d InZone es" and "n = map_of (map (\<lambda>e. (ent_address e, e)) es)"
proof -
  from assms obtain v where v: "distribution d = Inr v"
    and n: "insert_records Map.empty (reader_items G (nodelist_reader_new v) r) = Inr n"
    by (auto simp: nodelist_read_def and_then_eq_Inr)
  let ?es = "item_entries (reader_items G (nodelist_reader_new v) r)"
  have ok: "entries_ok d InZone ?es" by (rule new_reader_items(1) [OF distribution_holds [OF v]])
  then have "map_of (rev (map (\<lambda>e. (ent_address e, e)) ?es)) = map_of (map (\<lambda>e. (ent_address e, e)) ?es)"
    by (intro map_of_inject_set [THEN iffD2]) (simp_all add: entries_ok_def comp_def flip: rev_map)
  with insert_records_Inr [OF n] ok that show ?thesis by simp
qed

lemma nodelist_read_entry:
  assumes "nodelist_read G d r = Inr n" and "n a = Some e"
  shows "ent_address e = a" and "listed_address d a" and "branch_ok d (ent_branch e)" and "branch_listed n (ent_branch e)"
proof -
  obtain es where es: "entries_ok d InZone es" and n: "n = map_of (map (\<lambda>e. (ent_address e, e)) es)"
    by (rule nodelist_read_entries [OF assms(1)])
  have iff: "n x = Some y \<longleftrightarrow> y \<in> set es \<and> ent_address y = x" for x y
    using es by (auto simp: n entries_ok_def comp_def)
  with assms(2) have e: "e \<in> set es" "ent_address e = a" by auto
  with es show "ent_address e = a" and "listed_address d a" and "branch_ok d (ent_branch e)"
    by (auto simp: entries_ok_def list_all_iff)
  have "listed_as n k x" if known: "root_known d InZone es k x" for k x
  proof -
    from known obtain y where "y \<in> set es" "ent_keyword y = k" "ent_address y = x"
      by (auto simp: root_known_def context_root_def)
    with iff [of x y] show ?thesis by (simp add: listed_as_def)
  qed
  with e es show "branch_listed n (ent_branch e)"
    by (auto simp: entries_ok_def list_all_iff branch_known_def branch_listed_def elim!: option.pred_mono_strong)
qed

text \<open>
  C35.  Reading a nodelist.  In a validated context, whatever the input and the flag grammar, no
  \<open>expect\<close> of the validator fails; the reader stops at its first error; the entries it yields have
  distinct addresses of the segment's domain, with zone and net in range and point zero, and every
  coordinator of their branches is a record of its level in the segment or comes from the context.
  \<open>Nodelist::read\<close> does not panic either, and in the table it returns every entry stands under its own
  address and the Zone, Region, Host and Hub of its branch are listed under these keywords.
\<close>

theorem nodelist_reader_hierarchy:
  assumes "segment_validated d initial = Inr ctx"
  shows "(\<exists>v. validator_new ctx requires_data = Inr v \<and>
      (let items = reader_items G (nodelist_reader_new v) input in
       entries_ok d initial (item_entries items) \<and> (\<forall>l. Inl (l, NodelistPanicked) \<notin> set items) \<and>
       list_all (\<lambda>item. \<not> isl item) (butlast items))) \<and>
    (\<forall>l. nodelist_read G d input \<noteq> Inl (l, NodelistPanicked)) \<and>
    (\<forall>n a e. nodelist_read G d input = Inr n \<longrightarrow> n a = Some e \<longrightarrow>
       ent_address e = a \<and> listed_address d a \<and> branch_listed n (ent_branch e))"
proof -
  obtain v where "validator_new ctx requires_data = Inr v" and holds: "validator_holds d initial [] v"
    using validator_new_holds [OF assms] by blast
  with new_reader_items [OF holds, where G = G and r = input] have "\<exists>v. validator_new ctx requires_data = Inr v \<and>
      (let items = reader_items G (nodelist_reader_new v) input in
       entries_ok d initial (item_entries items) \<and> (\<forall>l. Inl (l, NodelistPanicked) \<notin> set items) \<and>
       list_all (\<lambda>item. \<not> isl item) (butlast items))" by (simp add: Let_def)
  moreover have "\<forall>l. nodelist_read G d input \<noteq> Inl (l, NodelistPanicked)" by (simp add: nodelist_read_no_panic)
  moreover have "\<forall>n a e. nodelist_read G d input = Inr n \<longrightarrow> n a = Some e \<longrightarrow>
      ent_address e = a \<and> listed_address d a \<and> branch_listed n (ent_branch e)"
    using nodelist_read_entry(1,2,4) by blast
  ultimately show ?thesis by blast
qed

section \<open>Writing a record\<close>

text \<open>A plain text has no tab, no line feed and no other prohibited character.\<close>

definition plain :: "str \<Rightarrow> bool" where
  "plain s \<longleftrightarrow> valid_utf8 s \<and> \<not> list_ex prohibited_character (chars s)"

definition plain_input :: "entry_input \<Rightarrow> bool" where
  "plain_input i \<longleftrightarrow>
     list_all plain [in_node_name i, in_location i, in_sysop_name i, in_phone i, in_system_flags i,
       in_pstn_isdn_flags i, in_internet_flags i, in_email_flags i, in_other_flags i]"

lemma plain_ascii: "list_all (\<lambda>b. 32 \<le> unat b \<and> unat b < 127) s \<Longrightarrow> plain s"
proof -
  assume s: "list_all (\<lambda>b. 32 \<le> unat b \<and> unat b < 127) s"
  then have "ascii s" by (auto simp: ascii_def list_all_iff)
  then have "valid_utf8 s" "chars s = map unat s"
    by (simp_all add: valid_utf8_ascii chars_def chars_of_ascii)
  with s show ?thesis by (auto simp: plain_def list_ex_iff list_all_iff prohibited_character_def)
qed

lemma plain_no_tab: "plain s \<Longrightarrow> 9 \<notin> set s"
proof
  assume p: "plain s" and t: "9 \<in> set s"
  then have "9 \<in> set (chars s)" using in_chars_ascii [of s 9] by (auto simp: plain_def intro!: bexI [of _ 9])
  with p show False by (auto simp: plain_def list_ex_iff prohibited_character_def)
qed

lemma plain_keyword: "plain (keyword_text k)"
  by (cases k) (rule plain_ascii, simp add: lit_def)+

lemma plain_decimal: "plain (show_nat n)"
  by (rule plain_ascii) (auto simp: list_all_iff is_digit_def dest: show_nat_digits)

lemma plain_join:
  "list_all plain ps \<Longrightarrow> valid_utf8 (join_with 9 ps) \<and>
     \<not> list_ex (\<lambda>c. prohibited_character c \<and> c \<noteq> 9) (chars (join_with 9 ps))"
proof (induction "9 :: u8" ps rule: join_with.induct)
  case (3 s t ts)
  let ?rest = "join_with 9 (t # ts)"
  from 3 have s: "plain s" and rest: "valid_utf8 ?rest" "\<not> list_ex (\<lambda>c. prohibited_character c \<and> c \<noteq> 9) (chars ?rest)"
    by simp_all
  have tab: "valid_utf8 ((9 :: u8) # ?rest)" "chars (9 # ?rest) = 9 # chars ?rest"
    using rest(1) by (auto simp: valid_utf8_def chars_def chars_of_ascii_Cons split: option.splits)
  with s rest show ?case
    by (auto simp: plain_def chars_append valid_utf8_append list_ex_iff)
qed (auto simp: plain_def list_ex_iff chars_def)

lemma parse_keyword_text: "parse_keyword (keyword_text k) = Some k"
  by (cases k) (simp_all add: parse_keyword_def lit_def)

lemma parse_node_number_show:
  "parse_node_number (show_nat n) = (if node_number (int n) then Some (int n) else None)"
proof (cases "n = 0")
  case True
  then show ?thesis by (simp add: parse_node_number_def node_number_def show_nat.simps)
next
  case False
  then have "hd (show_nat n) \<noteq> 48" "list_all is_digit (show_nat n)"
    using show_nat_head [of n] show_nat_digits [of _ n] by (auto simp: list_all_iff)
  then show ?thesis by (auto simp: parse_node_number_def parse_i32_def node_number_def i32_max_def)
qed

text \<open>The line of a plain input has the fields of the input again.\<close>

lemma parse_data_line_input:
  assumes "plain_input i"
  shows "parse_data_line G line (join_with 9 (input_fields i)) v =
    (case parse_data_fields G (input_fields i) v of (v', r) \<Rightarrow> (v', map_err (Pair line) r))"
proof -
  have p: "list_all plain (input_fields i)"
    using assms by (simp add: plain_input_def input_fields_def plain_keyword plain_decimal)
  then have "split_at 9 (join_with 9 (input_fields i)) = input_fields i"
    by (intro split_at_join) (auto simp: list_all_iff plain_no_tab, simp add: input_fields_def)
  moreover have "length (input_fields i) = 11" by (simp add: input_fields_def)
  ultimately show ?thesis using plain_join [OF p] by (simp add: parse_data_line_def Let_def)
qed

text \<open>A session of the writer: its calls, one after the other, and what they answer.\<close>

datatype write_call = WriteEntry entry_input publication_source bool | WriteComment str str bool

fun write_call_step ::
    "flag_grammar \<Rightarrow> write_call \<Rightarrow> nodelist_writer \<Rightarrow> nodelist_writer \<times> (nat \<times> nodelist_error + unit)" where
  "write_call_step G (WriteEntry i source io) w =
     (case write_entry G i source io w of (w', r) \<Rightarrow> (w', and_then r (\<lambda>_. Inr ())))"
| "write_call_step G (WriteComment interests remainder io) w = write_comment G interests remainder io w"

fun write_run :: "flag_grammar \<Rightarrow> nodelist_writer \<Rightarrow> write_call list \<Rightarrow> (nat \<times> nodelist_error + unit) list" where
  "write_run G w [] = []"
| "write_run G w (c # cs) = (case write_call_step G c w of (w', r) \<Rightarrow> r # write_run G w' cs)"

lemma publication_source_no_panic: "validate_publication_source e source \<noteq> Inl NodelistPanicked"
  by (cases source) (auto simp: validate_publication_source_def)

lemma write_entry_ready:
  assumes "validator_ready (wr_validator w)" and "write_entry G i source io w = (w', r)"
  shows "r \<noteq> Inl (l, NodelistPanicked)"
    and "validator_ready (wr_validator w') \<or>
      va_initial (wr_validator w) = InZone \<and> r = Inl (wr_line w + 1, Failed InvalidNodeNumber)"
    and "va_initial (wr_validator w') = va_initial (wr_validator w)"
proof -
  obtain v q where vq: "parse_data_line G (wr_line w + 1) (join_with 9 (input_fields i)) (wr_validator w) = (v, q)"
    by (rule prod.exhaust)
  note ready = parse_data_line_ready [OF assms(1) vq]
  show "r \<noteq> Inl (l, NodelistPanicked)" using assms(2) vq ready(1) publication_source_no_panic
    by (auto simp: write_entry_def Let_def and_then_eq_Inl map_err_eq_Inl split: sum.splits if_splits)
  show "validator_ready (wr_validator w') \<or>
      va_initial (wr_validator w) = InZone \<and> r = Inl (wr_line w + 1, Failed InvalidNodeNumber)"
    using assms(2) vq ready(3) by (auto simp: write_entry_def Let_def split: sum.splits if_splits)
  show "va_initial (wr_validator w') = va_initial (wr_validator w)"
    using assms(2) vq ready(4) by (auto simp: write_entry_def Let_def split: sum.splits if_splits)
qed

lemma write_comment_keeps:
  assumes "write_comment G interests remainder io w = (w', r)"
  shows "r \<noteq> Inl (l, NodelistPanicked) \<and> wr_validator w' = wr_validator w"
  using assms by (auto simp: write_comment_def validate_comment_def parse_line_def Let_def split: if_splits)

lemma write_run_panic:
  assumes "validator_ready (wr_validator w)" and "j < length calls"
    and "write_run G w calls ! j = Inl (l, NodelistPanicked)"
  shows "va_initial (wr_validator w) = InZone \<and> (\<exists>i < j. \<exists>m. write_run G w calls ! i = Inl (m, Failed InvalidNodeNumber))"
  using assms
proof (induction calls arbitrary: w j)
  case (Cons c cs)
  obtain w' r where step: "write_call_step G c w = (w', r)" by (rule prod.exhaust)
  have one: "r \<noteq> Inl (l, NodelistPanicked) \<and> va_initial (wr_validator w') = va_initial (wr_validator w) \<and>
    (validator_ready (wr_validator w') \<or>
     va_initial (wr_validator w) = InZone \<and> r = Inl (wr_line w + 1, Failed InvalidNodeNumber))"
  proof (cases c)
    case (WriteEntry i source io)
    obtain w1 q where "write_entry G i source io w = (w1, q)" by (rule prod.exhaust)
    with write_entry_ready [OF Cons.prems(1) this] step WriteEntry show ?thesis
      by (auto simp: and_then_eq_Inl)
  next
    case (WriteComment interests remainder io)
    with step Cons.prems(1) show ?thesis by (auto dest: write_comment_keeps)
  qed
  with Cons.prems(3) step obtain k where j: "j = Suc k" by (cases j) auto
  show ?case
  proof (cases "validator_ready (wr_validator w')")
    case True
    from Cons.IH [OF True, of k] Cons.prems(2,3) step j obtain i m where
      zone: "va_initial (wr_validator w') = InZone" and "i < k" and "write_run G w' cs ! i = Inl (m, Failed InvalidNodeNumber)"
      by auto
    then have "Suc i < j" and "write_run G w (c # cs) ! Suc i = Inl (m, Failed InvalidNodeNumber)" using step j by simp_all
    with zone one show ?thesis by metis
  next
    case False
    with one step have "write_run G w (c # cs) ! 0 = Inl (wr_line w + 1, Failed InvalidNodeNumber)" by simp
    with False one j show ?thesis by blast
  qed
qed simp

lemma write_run_length [simp]: "length (write_run G w calls) = length calls"
  by (induction calls arbitrary: w) (simp_all split: prod.splits)

lemma write_entry_bad_number:
  assumes "plain_input i" and "in_keyword i = KwZone" and "\<not> node_number (int (unat (in_number i)))"
    and "va_initial (wr_validator w) = InZone"
  shows "write_entry G i source io w =
    (w\<lparr>wr_validator := (wr_validator w)\<lparr>va_first_data := False\<rparr>, wr_line := wr_line w + 1\<rparr>,
     Inl (wr_line w + 1, Failed InvalidNodeNumber))"
proof -
  have "parse_data_fields G (input_fields i) (wr_validator w) =
      ((wr_validator w)\<lparr>va_first_data := False\<rparr>, Inl (Failed InvalidNodeNumber))"
    using assms by (simp add: parse_data_fields_def input_fields_def parse_keyword_text parse_node_number_show
        first_valid_def del: keyword_text.simps)
  then show ?thesis using assms(1) by (simp add: write_entry_def parse_data_line_input Let_def)
qed

lemma write_entry_no_zone:
  assumes "plain_input i" and "in_keyword i \<notin> {KwZone, KwHub}" and "node_number (int (unat (in_number i)))"
    and "hi_zone (va_hierarchy (wr_validator w)) = None" and "\<not> va_first_data (wr_validator w)"
  shows "\<exists>w'. write_entry G i source io w = (w', Inl (wr_line w + 1, NodelistPanicked))"
proof -
  have "address_for d (va_hierarchy (wr_validator w)) (in_keyword i) n = Inl NodelistPanicked" for d n
    using assms(2,4) by (simp add: address_for_def)
  then have "\<exists>v. parse_data_fields G (input_fields i) (wr_validator w) = (v, Inl NodelistPanicked)"
    using assms(3,5) by (simp add: parse_data_fields_def input_fields_def parse_keyword_text parse_node_number_show
        Let_def del: keyword_text.simps)
  then show ?thesis using assms(1) by (auto simp: write_entry_def parse_data_line_input Let_def)
qed

text \<open>
  C33.  When the nodelist writer panics.  In a validated context a session of the writer fails an
  \<open>expect\<close> only in a Zone segment and only after a call that was refused for its node number.  And
  it does: on a new Zone segment, a Zone record with a number outside 1 to 32767 is refused, but has
  used up the check on the first record, so that a following member, Region or Host record with a
  proper number panics for want of a Zone.
\<close>

theorem nodelist_writer_panics:
  assumes "segment_validated d initial = Inr ctx" and "validator_new ctx requires_data = Inr v"
  shows "(j < length calls \<and> write_run G (writer_new v) calls ! j = Inl (l, NodelistPanicked) \<longrightarrow>
      initial = InZone \<and> (\<exists>i < j. \<exists>m. write_run G (writer_new v) calls ! i = Inl (m, Failed InvalidNodeNumber))) \<and>
    (initial = InZone \<and> plain_input first \<and> in_keyword first = KwZone \<and> \<not> node_number (int (unat (in_number first))) \<and>
     plain_input second \<and> in_keyword second \<notin> {KwZone, KwHub} \<and> node_number (int (unat (in_number second))) \<longrightarrow>
     write_run G (writer_new v) [WriteEntry first source io, WriteEntry second source' io'] =
       [Inl (1, Failed InvalidNodeNumber), Inl (2, NodelistPanicked)])"
proof -
  have v: "validator_holds d initial [] v" "va_first_data v"
    using validator_new_holds [OF assms(1), of requires_data] assms(2) by simp_all
  then have ready: "validator_ready (wr_validator (writer_new v))" and i: "va_initial v = initial"
    by (simp_all add: writer_new_def validator_holds_def)
  have zone: "hi_zone (va_hierarchy v) = None" if "initial = InZone"
    using assms that by (auto simp: validator_new_def segment_validated_def hierarchy_new_def and_then_eq_Inr Let_def)
  have two: "write_run G (writer_new v) [WriteEntry first source io, WriteEntry second source' io'] =
       [Inl (1, Failed InvalidNodeNumber), Inl (2, NodelistPanicked)]"
    if z: "initial = InZone" and a: "plain_input first" "in_keyword first = KwZone"
      "\<not> node_number (int (unat (in_number first)))" and b: "plain_input second" "in_keyword second \<notin> {KwZone, KwHub}"
      "node_number (int (unat (in_number second)))"
  proof -
    let ?w = "(writer_new v)\<lparr>wr_validator := v\<lparr>va_first_data := False\<rparr>, wr_line := 1\<rparr>"
    have "write_entry G first source io (writer_new v) = (?w, Inl (1, Failed InvalidNodeNumber))"
      using write_entry_bad_number [OF a, of "writer_new v"] i z by (simp add: writer_new_def)
    moreover obtain w' where "write_entry G second source' io' ?w = (w', Inl (2, NodelistPanicked))"
      using write_entry_no_zone [OF b, of ?w G source' io'] zone [OF z] by (auto simp: numeral_2_eq_2)
    ultimately show ?thesis by simp
  qed
  show ?thesis using write_run_panic [OF ready] two i by (auto simp: writer_new_def)
qed

section \<open>Samples\<close>

text \<open>A grammar that accepts no flags, and records with nothing but a keyword and a number.\<close>

definition no_flags :: "str \<Rightarrow> nodelist_error_kind + 'a list" where
  "no_flags s = (if s = [] then Inr [] else Inl InvalidFlag)"

definition plain_grammar :: flag_grammar where
  "plain_grammar =
     \<lparr>gr_system = no_flags, gr_pstn_isdn = no_flags, gr_internet = no_flags, gr_email = no_flags, gr_other = no_flags\<rparr>"

definition bare_input :: "keyword \<Rightarrow> u16 \<Rightarrow> entry_input" where
  "bare_input k n =
     \<lparr>in_keyword = k, in_number = n, in_node_name = [], in_location = [], in_sysop_name = [], in_phone = [],
      in_system_flags = [], in_pstn_isdn_flags = [], in_internet_flags = [], in_email_flags = [], in_other_flags = []\<rparr>"

definition zone_line :: bytes where
  "zone_line = join_with 9 (input_fields (bare_input KwZone 1)) @ [10]"

lemma bare_input_plain: "plain_input (bare_input k n)"
  by (simp add: plain_input_def bare_input_def plain_def chars_def)

lemma sample_domain: "listed_domain (lit ''f'')"
proof -
  have "chars (lit ''f'') = [102]" by code_simp
  then show ?thesis by (simp add: listed_domain_def validate_domain_def tts_whitespace_def is_control_def)
qed

lemma sample_context: "segment_validated (lit ''f'') InZone = Inr (lit ''f'', InZone)"
  using sample_domain by (simp add: segment_validated_def address_new_def listed_domain_def)

definition sample_validator :: validator where
  "sample_validator =
     \<lparr>va_domain = lit ''f'', va_initial = InZone, va_requires_data = False, va_first_data = True,
      va_hierarchy = \<lparr>hi_zone = None, hi_region = None, hi_host = None, hi_hub = None\<rparr>, va_addresses = {},
      va_zones_with_zec = {}, va_regions_with_rec = {}, va_regions_with_rpk = {}, va_echomail_coordinator_nets = {},
      va_pointlist_keeper_nets = {}, va_coordinator_override_nets = {}\<rparr>"

lemma sample_validator_new: "validator_new (lit ''f'', InZone) False = Inr sample_validator"
  by (simp add: validator_new_def hierarchy_new_def sample_validator_def)

definition sample_entry :: entry where
  "sample_entry =
     (let a = \<lparr>domain = lit ''f'', zone = 1, net = 1, node = 0, point = 0\<rparr> in
      \<lparr>ent_keyword = KwZone, ent_address = a, ent_tith = None,
       ent_branch = \<lparr>br_zone = a, br_region = None, br_host = None, br_hub = None\<rparr>\<rparr>)"

lemma sample_zone_record:
  "\<exists>v. parse_data_fields plain_grammar (input_fields (bare_input KwZone 1)) sample_validator = (v, Inr sample_entry) \<and>
     \<not> va_requires_data v"
proof -
  have "parse_keyword (keyword_text KwZone) = Some KwZone" "parse_node_number (show_nat 1) = Some 1"
    by (simp_all add: parse_keyword_text parse_node_number_show node_number_def del: keyword_text.simps)
  then show ?thesis using expect_address_ok [OF sample_domain, of 1 1 0]
    by (simp add: parse_data_fields_def input_fields_def bare_input_def sample_validator_def first_valid_def
        address_for_def node_number_def Let_def parse_entry_def validate_phone_def parse_flag_fields_def
        plain_grammar_def no_flags_def validate_flags_def system_flags_valid_def resolved_services_def
        tith_of_def branch_for_def sample_entry_def List.map_filter_def del: keyword_text.simps)
qed

lemma sample_items:
  "reader_items plain_grammar (nodelist_reader_new sample_validator) \<lparr>buf_bytes = zone_line, buf_fails = False\<rparr> =
     [Inr (EntryRecord sample_entry)]"
proof -
  let ?line = "join_with 9 (input_fields (bare_input KwZone 1))"
  have bytes: "?line = [90, 111, 110, 101, 9, 49, 9, 9, 9, 9, 9, 9, 9, 9, 9]"
    by (simp add: input_fields_def bare_input_def lit_def show_nat.simps)
  then have until: "read_until 10 \<lparr>buf_bytes = zone_line, buf_fails = False\<rparr> =
      (Inr (?line @ [10]), \<lparr>buf_bytes = [], buf_fails = False\<rparr>)"
    by (simp add: zone_line_def read_until_def)
  have utf8: "valid_utf8 ?line" unfolding bytes by (rule valid_utf8_ascii) (simp add: ascii_def)
  obtain v where p: "parse_data_fields plain_grammar (input_fields (bare_input KwZone 1)) sample_validator =
      (v, Inr sample_entry)" and data: "\<not> va_requires_data v" using sample_zone_record by blast
  from p have "parse_line plain_grammar 1 ?line sample_validator = (v, Inr (EntryRecord sample_entry))"
    by (simp add: parse_line_def bytes parse_data_line_input bare_input_plain flip: bytes) (simp add: bytes)
  with until utf8 have "reader_next plain_grammar (nodelist_reader_new sample_validator) \<lparr>buf_bytes = zone_line, buf_fails = False\<rparr> =
      (\<lparr>rd_validator = v, rd_line = 1, rd_done = False\<rparr>, \<lparr>buf_bytes = [], buf_fails = False\<rparr>,
       Some (Inr (EntryRecord sample_entry)))"
    by (simp add: reader_next_def nodelist_reader_new_def Let_def)
  moreover have "reader_items plain_grammar \<lparr>rd_validator = v, rd_line = 1, rd_done = False\<rparr>
      \<lparr>buf_bytes = [], buf_fails = False\<rparr> = []"
    using data by (subst reader_items.simps) (simp add: reader_next_def read_until_def)
  ultimately show ?thesis by (subst reader_items.simps) simp
qed

lemma sample_nodelist:
  "nodelist_read plain_grammar (lit ''f'') \<lparr>buf_bytes = zone_line, buf_fails = False\<rparr> =
     Inr [ent_address sample_entry \<mapsto> sample_entry]"
  using sample_context sample_validator_new sample_items
  by (simp add: nodelist_read_def distribution_def insert_record_def)

text \<open>A distribution of one Zone record.\<close>

theorem nodelist_reader_hierarchy_witness:
  "entries_ok (lit ''f'') InZone [sample_entry] \<and>
   branch_listed [ent_address sample_entry \<mapsto> sample_entry] (ent_branch sample_entry)"
proof -
  note facts = nodelist_reader_hierarchy [OF sample_context, where requires_data = False and G = plain_grammar and
      input = "\<lparr>buf_bytes = zone_line, buf_fails = False\<rparr>"]
  have "entries_ok (lit ''f'') InZone [sample_entry]"
    using facts [THEN conjunct1] by (simp add: sample_validator_new sample_items Let_def del: lit_Cons)
  moreover have "branch_listed [ent_address sample_entry \<mapsto> sample_entry] (ent_branch sample_entry)"
    using facts [THEN conjunct2, THEN conjunct2, rule_format, OF sample_nodelist, of "ent_address sample_entry" sample_entry]
    by (simp del: lit_Cons)
  ultimately show ?thesis ..
qed

text \<open>The two calls on a new writer.\<close>

theorem nodelist_writer_panics_witness:
  "write_run plain_grammar (writer_new sample_validator)
     [WriteEntry (bare_input KwZone 0) Ordinary True, WriteEntry (bare_input KwHold 5) Ordinary True] =
   [Inl (1, Failed InvalidNodeNumber), Inl (2, NodelistPanicked)]"
  using nodelist_writer_panics [OF sample_context sample_validator_new, of 0 "[]" plain_grammar 0
      "bare_input KwZone 0" "bare_input KwHold 5" Ordinary True Ordinary True]
  by (simp add: bare_input_plain) (simp add: bare_input_def node_number_def)

end
