(* ===== verification/Router.thy ===== *)
theory Router
  imports Config Nodelist
begin

text \<open>
  NetMail route selection (\<open>crates/tith-router/src/lib.rs\<close>): the candidates of the route methods,
  selectors, the choice of a next hop and the failure policies, over a configuration set, a nodelist
  and a resolver of public keys.
\<close>

datatype route_failure = Unroutable | Loop

record commitment =
  com_next_hop :: identity
  com_passive :: bool
  com_route_rule :: "nat option"
  com_method_index :: nat

section \<open>Peers\<close>

definition peer_identity :: "peer \<Rightarrow> key_resolver \<Rightarrow> identity option" where
  "peer_identity p resolver =
     map_option (\<lambda>key. \<lparr>id_address = peer_address p, id_key = key\<rparr>)
       (if is_anonymous (peer_address p) then peer_public_key p else resolver (peer_address p))"

definition exact_peer :: "identity \<Rightarrow> configuration_set \<Rightarrow> key_resolver \<Rightarrow> peer option" where
  "exact_peer who cfg resolver =
     find (\<lambda>p. peer_address p = id_address who \<and> peer_identity p resolver = Some who)
       (map snd (cfg_peers cfg))"

definition usable :: "identity \<Rightarrow> configuration_set \<Rightarrow> nodelist \<Rightarrow> key_resolver \<Rightarrow> bool" where
  "usable who cfg nodelist resolver \<longleftrightarrow>
     (case exact_peer who cfg resolver of Some p \<Rightarrow> peer_endpoints p \<noteq> [] | None \<Rightarrow> False) \<or>
     (case nodelist_get nodelist (id_address who) of
        None \<Rightarrow> False
      | Some e \<Rightarrow> (case ent_tith e of None \<Rightarrow> False | Some service \<Rightarrow> list_ex is_usable (svc_endpoints service)))"

definition named_peer :: "str \<Rightarrow> configuration_set \<Rightarrow> key_resolver \<Rightarrow> identity option" where
  "named_peer name cfg resolver =
     (case map_of (cfg_peers cfg) name of None \<Rightarrow> None | Some p \<Rightarrow> peer_identity p resolver)"

definition eligible_ancestor ::
    "identity \<Rightarrow> configuration_set \<Rightarrow> nodelist \<Rightarrow> key_resolver \<Rightarrow> (identity \<times> bool) option" where
  "eligible_ancestor who cfg nodelist resolver =
     (let configured = exact_peer who cfg resolver in
      if configured \<noteq> None \<or> usable who cfg nodelist resolver
      then Some (who, case configured of Some p \<Rightarrow> peer_endpoints p = [] | None \<Rightarrow> False)
      else None)"

section \<open>Candidates\<close>

definition has_keyword :: "nodelist \<Rightarrow> address \<Rightarrow> keyword set \<Rightarrow> bool" where
  "has_keyword nodelist a ks \<longleftrightarrow>
     (case nodelist_get nodelist a of Some e \<Rightarrow> ent_keyword e \<in> ks | None \<Rightarrow> False)"

definition direct_candidate ::
    "identity \<Rightarrow> configuration_set \<Rightarrow> nodelist \<Rightarrow> key_resolver \<Rightarrow> (identity \<times> bool) option" where
  "direct_candidate destination cfg nodelist resolver =
     (if is_anonymous (id_address destination) then
        (case exact_peer destination cfg resolver of
           None \<Rightarrow> None
         | Some p \<Rightarrow> if peer_endpoints p \<noteq> [] then Some (destination, False) else None)
      else
        if \<not> has_keyword nodelist (id_address destination) {KwPrivate, KwHold, KwDown} \<and>
           usable destination cfg nodelist resolver
        then Some (destination, False) else None)"

text \<open>The Boss or Hub an anonymous peer names.\<close>

definition peer_ancestor ::
    "(peer \<Rightarrow> str option) \<Rightarrow> identity \<Rightarrow> configuration_set \<Rightarrow> nodelist \<Rightarrow> key_resolver
     \<Rightarrow> (identity \<times> bool) option" where
  "peer_ancestor superior destination cfg nodelist resolver =
     (case exact_peer destination cfg resolver of
        None \<Rightarrow> None
      | Some p \<Rightarrow>
          (case superior p of
             None \<Rightarrow> None
           | Some name \<Rightarrow>
               (case named_peer name cfg resolver of
                  None \<Rightarrow> None
                | Some who \<Rightarrow> eligible_ancestor who cfg nodelist resolver)))"

text \<open>An ancestor by address: listed, with a TITH service and a known key.\<close>

definition listed_ancestor ::
    "address \<Rightarrow> configuration_set \<Rightarrow> nodelist \<Rightarrow> key_resolver \<Rightarrow> (identity \<times> bool) option" where
  "listed_ancestor a cfg nodelist resolver =
     (case nodelist_get nodelist a of
        None \<Rightarrow> None
      | Some e \<Rightarrow>
          if ent_tith e = None then None
          else (case resolver a of
                  None \<Rightarrow> None
                | Some key \<Rightarrow> eligible_ancestor \<lparr>id_address = a, id_key = key\<rparr> cfg nodelist resolver))"

definition boss_candidate ::
    "identity \<Rightarrow> configuration_set \<Rightarrow> nodelist \<Rightarrow> key_resolver \<Rightarrow> (identity \<times> bool) option" where
  "boss_candidate destination cfg nodelist resolver =
     (if is_anonymous (id_address destination) then peer_ancestor peer_boss destination cfg nodelist resolver
      else
        let a = id_address destination in
        if point a = 0 then None
        else (case address_new (domain a) (zone a) (net a) (node a) 0 of
                Inl _ \<Rightarrow> None
              | Inr boss \<Rightarrow> listed_ancestor boss cfg nodelist resolver))"

text \<open>The coordinator of the destination's branch that a method names.\<close>

fun branch_root :: "route_method \<Rightarrow> branch \<Rightarrow> address option" where
  "branch_root Hub b = br_hub b"
| "branch_root Host b = br_host b"
| "branch_root Region b = br_region b"
| "branch_root Zone b = Some (br_zone b)"
| "branch_root _ b = None"

definition branch_candidate ::
    "route_method \<Rightarrow> identity \<Rightarrow> configuration_set \<Rightarrow> nodelist \<Rightarrow> key_resolver \<Rightarrow> (identity \<times> bool) option" where
  "branch_candidate method destination cfg nodelist resolver =
     (case nodelist_get nodelist (id_address destination) of
        None \<Rightarrow> None
      | Some e \<Rightarrow>
          (case branch_root method (ent_branch e) of
             None \<Rightarrow> None
           | Some a \<Rightarrow> listed_ancestor a cfg nodelist resolver))"

fun candidate ::
    "route_method \<Rightarrow> identity \<Rightarrow> configuration_set \<Rightarrow> nodelist \<Rightarrow> key_resolver \<Rightarrow> (identity \<times> bool) option" where
  "candidate (Via name) destination cfg nodelist resolver =
     map_option (\<lambda>who. (who, False)) (named_peer name cfg resolver)"
| "candidate Direct destination cfg nodelist resolver = direct_candidate destination cfg nodelist resolver"
| "candidate Hold destination cfg nodelist resolver =
     (if \<not> has_keyword nodelist (id_address destination) {KwDown} then Some (destination, True) else None)"
| "candidate Boss destination cfg nodelist resolver = boss_candidate destination cfg nodelist resolver"
| "candidate Hub destination cfg nodelist resolver =
     (if is_anonymous (id_address destination) then peer_ancestor peer_hub destination cfg nodelist resolver
      else branch_candidate Hub destination cfg nodelist resolver)"
| "candidate Host destination cfg nodelist resolver = branch_candidate Host destination cfg nodelist resolver"
| "candidate Region destination cfg nodelist resolver = branch_candidate Region destination cfg nodelist resolver"
| "candidate Zone destination cfg nodelist resolver = branch_candidate Zone destination cfg nodelist resolver"

section \<open>Selectors\<close>

fun branch_matches :: "branch_kind \<Rightarrow> address \<Rightarrow> branch \<Rightarrow> bool" where
  "branch_matches BranchZone root b \<longleftrightarrow> br_zone b = root"
| "branch_matches BranchRegion root b \<longleftrightarrow> br_region b = Some root"
| "branch_matches BranchHost root b \<longleftrightarrow> br_host b = Some root"
| "branch_matches BranchHub root b \<longleftrightarrow> br_hub b = Some root"

fun independent_matches :: "independent_kind \<Rightarrow> address \<Rightarrow> branch \<Rightarrow> bool" where
  "independent_matches IndependentZone root b \<longleftrightarrow>
     br_zone b = root \<and> br_region b = None \<and> br_host b = None \<and> br_hub b = None"
| "independent_matches IndependentRegion root b \<longleftrightarrow>
     br_region b = Some root \<and> br_host b = None \<and> br_hub b = None"

fun selector_matches ::
    "selector \<Rightarrow> identity \<Rightarrow> configuration_set \<Rightarrow> nodelist \<Rightarrow> key_resolver \<Rightarrow> bool" where
  "selector_matches SelectAll who cfg nodelist resolver \<longleftrightarrow> True"
| "selector_matches (SelectAddress a) who cfg nodelist resolver \<longleftrightarrow> id_address who = a"
| "selector_matches (SelectPattern p) who cfg nodelist resolver \<longleftrightarrow> pattern_matches p (id_address who)"
| "selector_matches (SelectPeer name) who cfg nodelist resolver \<longleftrightarrow> named_peer name cfg resolver = Some who"
| "selector_matches (SelectBranch kind root) who cfg nodelist resolver \<longleftrightarrow>
     (case nodelist_get nodelist (id_address who) of
        Some e \<Rightarrow> branch_matches kind root (ent_branch e) | None \<Rightarrow> False)"
| "selector_matches (SelectIndependent kind root) who cfg nodelist resolver \<longleftrightarrow>
     (case nodelist_get nodelist (id_address who) of
        Some e \<Rightarrow> independent_matches kind root (ent_branch e) | None \<Rightarrow> False)"

section \<open>Routing\<close>

definition non_anonymous_defaults :: "route_method list" where
  "non_anonymous_defaults = [Direct, Boss, Hub, Host, Region, Zone, Hold]"

definition anonymous_defaults :: "route_method list" where
  "anonymous_defaults = [Boss, Hub, Direct, Hold]"

text \<open>\<open>iter().enumerate().find(\<dots>)\<close>\<close>

fun find_index :: "('a \<Rightarrow> bool) \<Rightarrow> nat \<Rightarrow> 'a list \<Rightarrow> (nat \<times> 'a) option" where
  "find_index P i [] = None"
| "find_index P i (x # xs) = (if P x then Some (i, x) else find_index P (i + 1) xs)"

fun method_loop ::
    "(route_method \<Rightarrow> (identity \<times> bool) option) \<Rightarrow> identity list \<Rightarrow> nat option \<Rightarrow> nat \<Rightarrow> route_method list
     \<Rightarrow> route_failure + commitment" where
  "method_loop candidate_of vias rule i [] = Inl Unroutable"
| "method_loop candidate_of vias rule i (m # ms) =
     (case candidate_of m of
        Some (next_hop, passive) \<Rightarrow>
          if list_ex (\<lambda>via. same_system_as via next_hop) vias then Inl Loop
          else Inr \<lparr>com_next_hop = next_hop, com_passive = passive, com_route_rule = rule, com_method_index = i\<rparr>
      | None \<Rightarrow> method_loop candidate_of vias rule (i + 1) ms)"

definition route_methods ::
    "configuration_set \<Rightarrow> routes \<Rightarrow> identity \<Rightarrow> nodelist \<Rightarrow> key_resolver \<Rightarrow> nat option \<times> route_method list" where
  "route_methods cfg rts destination nodelist resolver =
     (case find_index (\<lambda>rule. selector_matches (rule_destination rule) destination cfg nodelist resolver) 0
         (rt_routes rts) of
        None \<Rightarrow>
          (None, if is_anonymous (id_address destination) then anonymous_defaults else non_anonymous_defaults)
      | Some (i, rule) \<Rightarrow> (Some i, rule_methods rule))"

definition route_netmail ::
    "configuration_set \<Rightarrow> routes \<Rightarrow> identity \<Rightarrow> identity list \<Rightarrow> nodelist \<Rightarrow> key_resolver
     \<Rightarrow> route_failure + commitment" where
  "route_netmail cfg rts destination vias nodelist resolver =
     (if has_keyword nodelist (id_address destination) {KwDown} then Inl Unroutable
      else case route_methods cfg rts destination nodelist resolver of (rule, methods) \<Rightarrow>
        method_loop (\<lambda>m. candidate m destination cfg nodelist resolver) vias rule 0 methods)"

definition routes_for :: "configuration_set \<Rightarrow> identity_ref \<Rightarrow> routes option" where
  "routes_for cfg local = find (\<lambda>r. rt_local r = local) (cfg_routes cfg)"

definition failure_policy_for ::
    "configuration_set \<Rightarrow> routes \<Rightarrow> identity \<Rightarrow> identity \<Rightarrow> nodelist \<Rightarrow> key_resolver \<Rightarrow> failure_kind \<Rightarrow> failure_policy" where
  "failure_policy_for cfg rts origin destination nodelist resolver kind =
     (case find (\<lambda>rule. (fail_kind rule = FailAny \<or> fail_kind rule = kind) \<and>
          selector_matches (fail_origin rule) origin cfg nodelist resolver \<and>
          selector_matches (fail_destination rule) destination cfg nodelist resolver) (rt_failures rts) of
        Some rule \<Rightarrow> fail_policy rule
      | None \<Rightarrow> rt_failure_default rts)"

text \<open>The policies for Relay-Denied and Rejected, in this order.\<close>

definition failure_policies ::
    "configuration_set \<Rightarrow> routes \<Rightarrow> identity \<Rightarrow> identity \<Rightarrow> nat option \<Rightarrow> failure_policy option \<Rightarrow> nodelist
     \<Rightarrow> key_resolver \<Rightarrow> failure_policy \<times> failure_policy" where
  "failure_policies cfg rts origin destination route_rule relay_override nodelist resolver =
     (let from_route =
            (case route_rule of
               None \<Rightarrow> None
             | Some i \<Rightarrow> if i < length (rt_routes rts) then rule_on_failure (rt_routes rts ! i) else None);
          selected = (case from_route of Some p \<Rightarrow> Some p | None \<Rightarrow> relay_override);
          resolve = (\<lambda>kind. case selected of
             Some p \<Rightarrow> p
           | None \<Rightarrow> failure_policy_for cfg rts origin destination nodelist resolver kind) in
      (resolve FailRelayDenied, resolve FailRejected))"

section \<open>Correctness of routing\<close>

lemma find_index_Some:
  "find_index P i xs = Some (j, x) \<longleftrightarrow>
     (\<exists>n < length xs. j = i + n \<and> x = xs ! n \<and> P x \<and> (\<forall>k < n. \<not> P (xs ! k)))"
proof (induction xs arbitrary: i)
  case (Cons y ys)
  show ?case
  proof (cases "P y")
    case True
    have "(\<exists>n < length (y # ys). Q n \<and> (\<forall>k < n. \<not> P ((y # ys) ! k))) \<longleftrightarrow> Q 0" for Q
      using True by (auto simp: Ex_less_Suc2 All_less_Suc2)
    from this [of "\<lambda>n. j = i + n \<and> x = (y # ys) ! n \<and> P x"] True show ?thesis by auto
  next
    case False
    have "(\<exists>n < length (y # ys). Q n ((y # ys) ! n) \<and> P x \<and> (\<forall>k < n. \<not> P ((y # ys) ! k))) \<longleftrightarrow>
        (\<exists>n < length ys. Q (Suc n) (ys ! n) \<and> P x \<and> (\<forall>k < n. \<not> P (ys ! k)))" if "\<And>n. Q n y \<Longrightarrow> x = y" for Q
      using False that by (auto simp: Ex_less_Suc2 All_less_Suc2)
    from this [of "\<lambda>n z. j = i + n \<and> x = z"] False Cons.IH [of "i + 1"] show ?thesis by simp
  qed
qed simp

lemma find_index_None: "find_index P i xs = None \<longleftrightarrow> (\<forall>x \<in> set xs. \<not> P x)"
  by (induction xs arbitrary: i) auto

lemma method_loop_Inr:
  "method_loop f vias rule i ms = Inr c \<longleftrightarrow>
     (\<exists>n < length ms. f (ms ! n) = Some (com_next_hop c, com_passive c) \<and> (\<forall>k < n. f (ms ! k) = None) \<and>
        \<not> list_ex (\<lambda>via. same_system_as via (com_next_hop c)) vias \<and>
        com_route_rule c = rule \<and> com_method_index c = i + n)"
proof (induction ms arbitrary: i)
  case (Cons m ms)
  show ?case
  proof (cases "f m")
    case None
    have "(\<exists>n < length (m # ms). Q n \<and> f ((m # ms) ! n) = Some x \<and> (\<forall>k < n. f ((m # ms) ! k) = None)) \<longleftrightarrow>
        (\<exists>n < length ms. Q (Suc n) \<and> f (ms ! n) = Some x \<and> (\<forall>k < n. f (ms ! k) = None))" for Q x
      using None by (auto simp: Ex_less_Suc2 All_less_Suc2)
    from this [of "\<lambda>n. \<not> list_ex (\<lambda>via. same_system_as via (com_next_hop c)) vias \<and>
        com_route_rule c = rule \<and> com_method_index c = i + n" "(com_next_hop c, com_passive c)"]
    show ?thesis using None Cons.IH [of "i + 1"] by (auto simp: conj_commute conj_left_commute)
  next
    case (Some r)
    obtain hop p where r: "r = (hop, p)" by (cases r)
    have "(\<exists>n < length (m # ms). Q n \<and> (\<forall>k < n. f ((m # ms) ! k) = None)) \<longleftrightarrow> Q 0" for Q
      using Some by (auto simp: Ex_less_Suc2 All_less_Suc2)
    from this [of "\<lambda>n. f ((m # ms) ! n) = Some (com_next_hop c, com_passive c) \<and>
        \<not> list_ex (\<lambda>via. same_system_as via (com_next_hop c)) vias \<and>
        com_route_rule c = rule \<and> com_method_index c = i + n"]
    show ?thesis using Some r by (cases c) (auto simp: conj_commute conj_left_commute)
  qed
qed simp

lemma method_loop_Inl:
  "method_loop f vias rule i ms = Inl e \<longleftrightarrow>
     (if \<forall>m \<in> set ms. f m = None then e = Unroutable
      else e = Loop \<and> (\<exists>n < length ms. (\<exists>hop p. f (ms ! n) = Some (hop, p) \<and>
        list_ex (\<lambda>via. same_system_as via hop) vias) \<and> (\<forall>k < n. f (ms ! k) = None)))"
proof (induction ms arbitrary: i)
  case (Cons m ms)
  let ?Q = "\<lambda>x. \<exists>hop p. f x = Some (hop, p) \<and> list_ex (\<lambda>via. same_system_as via hop) vias"
  show ?case
  proof (cases "f m")
    case None
    have "(\<exists>n < length (m # ms). ?Q ((m # ms) ! n) \<and> (\<forall>k < n. f ((m # ms) ! k) = None)) \<longleftrightarrow>
      (\<exists>n < length ms. ?Q (ms ! n) \<and> (\<forall>k < n. f (ms ! k) = None))"
      using None by (auto simp: Ex_less_Suc2 All_less_Suc2)
    then show ?thesis using None Cons.IH [of "i + 1"] by simp
  next
    case (Some r)
    obtain hop p where r: "r = (hop, p)" by (cases r)
    have Q: "(\<exists>n < length (m # ms). Q n \<and> (\<forall>k < n. f ((m # ms) ! k) = None)) \<longleftrightarrow> Q 0" for Q
      using Some by (auto simp: Ex_less_Suc2 All_less_Suc2)
    show ?thesis unfolding Q using Some r by auto
  qed
qed auto

section \<open>The choice of the next hop\<close>

text \<open>The methods that apply to a destination: those of the first matching rule, else the defaults.\<close>

definition applicable ::
    "configuration_set \<Rightarrow> routes \<Rightarrow> identity \<Rightarrow> nodelist \<Rightarrow> key_resolver \<Rightarrow> nat option \<Rightarrow> route_method list \<Rightarrow> bool" where
  "applicable cfg rts destination nodelist resolver rule ms \<longleftrightarrow>
     (let matches = \<lambda>r. selector_matches (rule_destination r) destination cfg nodelist resolver in
      case rule of
        Some i \<Rightarrow> i < length (rt_routes rts) \<and> matches (rt_routes rts ! i) \<and>
          (\<forall>k < i. \<not> matches (rt_routes rts ! k)) \<and> ms = rule_methods (rt_routes rts ! i)
      | None \<Rightarrow> (\<forall>r \<in> set (rt_routes rts). \<not> matches r) \<and>
          ms = (if is_anonymous (id_address destination) then [Boss, Hub, Direct, Hold]
                else [Direct, Boss, Hub, Host, Region, Zone, Hold]))"

lemma route_methods_applicable:
  "route_methods cfg rts destination nodelist resolver = (rule, ms) \<longleftrightarrow>
   applicable cfg rts destination nodelist resolver rule ms"
proof (cases rule)
  case None
  have "route_methods cfg rts destination nodelist resolver = (None, ms) \<longleftrightarrow>
      find_index (\<lambda>r. selector_matches (rule_destination r) destination cfg nodelist resolver) 0 (rt_routes rts) = None \<and>
      ms = (if is_anonymous (id_address destination) then anonymous_defaults else non_anonymous_defaults)"
    by (auto simp: route_methods_def split: option.splits)
  with None show ?thesis
    by (simp add: find_index_None applicable_def anonymous_defaults_def non_anonymous_defaults_def)
next
  case (Some i)
  have "route_methods cfg rts destination nodelist resolver = (Some i, ms) \<longleftrightarrow>
      (\<exists>r. find_index (\<lambda>r. selector_matches (rule_destination r) destination cfg nodelist resolver) 0 (rt_routes rts) =
         Some (i, r) \<and> ms = rule_methods r)"
    by (auto simp: route_methods_def split: option.splits)
  then show ?thesis using Some by (auto simp: find_index_Some applicable_def)
qed

text \<open>
  C14.  Route selection.  \<open>route_netmail\<close> commits a NetMail to a next hop exactly when the destination is
  not a Down entry, the hop is the candidate of the first eligible method in the list of the first
  matching Route rule --- or in the default list when no rule matches --- and no Via of the message is
  that system; the commitment names that rule and that method.
\<close>

theorem route_netmail_commits:
  "route_netmail cfg rts destination vias nodelist resolver = Inr c \<longleftrightarrow>
     \<not> has_keyword nodelist (id_address destination) {KwDown} \<and>
     (\<exists>ms. applicable cfg rts destination nodelist resolver (com_route_rule c) ms \<and>
        com_method_index c < length ms \<and>
        candidate (ms ! com_method_index c) destination cfg nodelist resolver = Some (com_next_hop c, com_passive c) \<and>
        list_all (\<lambda>m. candidate m destination cfg nodelist resolver = None) (take (com_method_index c) ms) \<and>
        list_all (\<lambda>via. \<not> same_system_as via (com_next_hop c)) vias)"
proof -
  obtain rule ms where rm: "route_methods cfg rts destination nodelist resolver = (rule, ms)" by fastforce
  then have "applicable cfg rts destination nodelist resolver r l \<longleftrightarrow> r = rule \<and> l = ms" for r l
    by (auto simp: route_methods_applicable [symmetric])
  moreover have "list_all P (take n ms) \<longleftrightarrow> (\<forall>k < n. P (ms ! k))" if "n < length ms" for P n
    using that by (simp add: list_all_length)
  moreover have "list_all (\<lambda>v. \<not> Q v) vias \<longleftrightarrow> \<not> list_ex Q vias" for Q by (simp add: list_ex_iff list_all_iff)
  ultimately show ?thesis using rm by (auto simp: route_netmail_def method_loop_Inr)
qed

text \<open>
  C21.  A message is routed or refused for a reason.  When no Route rule matches the destination, or the
  matching rule ends in Hold, and the destination is not a Down entry, routing never answers
  Unroutable: it commits the message or reports a loop, and a message without a Via is committed.
\<close>

theorem routing_succeeds:
  assumes "\<not> has_keyword nodelist (id_address destination) {KwDown}"
    and "applicable cfg rts destination nodelist resolver rule ms"
    and "rule = None \<or> Hold \<in> set ms"
  shows "route_netmail cfg rts destination vias nodelist resolver \<noteq> Inl Unroutable \<and>
    (\<exists>c. route_netmail cfg rts destination [] nodelist resolver = Inr c)"
proof -
  let ?f = "\<lambda>m. candidate m destination cfg nodelist resolver"
  have "Hold \<in> set ms" using assms(2,3) by (auto simp: applicable_def split: if_splits)
  moreover have "?f Hold \<noteq> None" using assms(1) by simp
  ultimately have some: "\<not> (\<forall>m \<in> set ms. ?f m = None)" by metis
  have loop: "route_netmail cfg rts destination vs nodelist resolver = method_loop ?f vs rule 0 ms" for vs
    using assms(1,2) by (simp add: route_netmail_def flip: route_methods_applicable)
  have "method_loop ?f vias rule 0 ms \<noteq> Inl Unroutable" "\<And>e. method_loop ?f [] rule 0 ms \<noteq> Inl e"
    unfolding method_loop_Inl if_not_P [OF some] by simp_all
  then show ?thesis unfolding loop by (cases "method_loop ?f [] rule 0 ms") auto
qed

section \<open>The identity of the next hop\<close>

text \<open>The key of a next hop comes from the resolver, or for an anonymous address from its peer.\<close>

definition trusted_hop :: "configuration_set \<Rightarrow> key_resolver \<Rightarrow> identity \<Rightarrow> bool" where
  "trusted_hop cfg resolver hop \<longleftrightarrow>
     (if is_anonymous (id_address hop)
      then \<exists>p \<in> snd ` set (cfg_peers cfg). peer_address p = id_address hop \<and> peer_public_key p = Some (id_key hop)
      else resolver (id_address hop) = Some (id_key hop))"

lemma peer_identity_trusted:
  "(name, p) \<in> set (cfg_peers cfg) \<Longrightarrow> peer_identity p resolver = Some hop \<Longrightarrow> trusted_hop cfg resolver hop"
  by (force simp: peer_identity_def trusted_hop_def split: if_splits)

lemma named_peer_trusted: "named_peer name cfg resolver = Some hop \<Longrightarrow> trusted_hop cfg resolver hop"
  by (auto simp: named_peer_def split: option.splits intro: peer_identity_trusted dest: map_of_SomeD)

lemma eligible_ancestor_hop:
  "eligible_ancestor who cfg nodelist resolver = Some (hop, p) \<Longrightarrow> hop = who"
  by (auto simp: eligible_ancestor_def Let_def split: if_splits)

lemma peer_ancestor_trusted:
  "peer_ancestor superior destination cfg nodelist resolver = Some (hop, p) \<Longrightarrow> trusted_hop cfg resolver hop"
  by (auto simp: peer_ancestor_def split: option.splits dest: eligible_ancestor_hop intro: named_peer_trusted)

lemma listed_ancestor_trusted:
  "listed_ancestor a cfg nodelist resolver = Some (hop, p) \<Longrightarrow> \<not> is_anonymous a \<Longrightarrow> trusted_hop cfg resolver hop"
  by (auto simp: listed_ancestor_def trusted_hop_def split: option.splits if_splits dest!: eligible_ancestor_hop)

lemma exact_peer_trusted: "exact_peer who cfg resolver = Some p \<Longrightarrow> trusted_hop cfg resolver who"
proof -
  assume "exact_peer who cfg resolver = Some p"
  then have "p \<in> snd ` set (cfg_peers cfg)" and "peer_identity p resolver = Some who"
    by (auto simp: exact_peer_def find_Some_iff intro!: image_eqI [OF _ nth_mem])
  then show ?thesis by (auto intro: peer_identity_trusted)
qed

lemma listed_not_anonymous: "listed_address d a \<Longrightarrow> \<not> is_anonymous a"
  by (simp add: listed_address_def node_number_def is_anonymous_def)

lemma branch_root_listed: "branch_ok d b \<Longrightarrow> branch_root m b = Some a \<Longrightarrow> listed_address d a"
  by (cases m) (auto simp: branch_ok_def listed_option_def)

lemma branch_candidate_trusted:
  assumes "nodelist_read G d input = Inr nodelist"
    and "branch_candidate m destination cfg nodelist resolver = Some (hop, p)"
  shows "trusted_hop cfg resolver hop"
proof -
  from assms(2) obtain e a where e: "nodelist (id_address destination) = Some e"
    and a: "branch_root m (ent_branch e) = Some a" and "listed_ancestor a cfg nodelist resolver = Some (hop, p)"
    by (auto simp: branch_candidate_def nodelist_get_def split: option.splits)
  moreover have "listed_address d a" by (rule branch_root_listed [OF nodelist_read_entry(3) [OF assms(1) e] a])
  ultimately show ?thesis by (auto intro: listed_ancestor_trusted dest: listed_not_anonymous)
qed

lemma boss_candidate_trusted:
  assumes "boss_candidate destination cfg nodelist resolver = Some (hop, p)"
  shows "trusted_hop cfg resolver hop"
proof (cases "is_anonymous (id_address destination)")
  case True
  with assms show ?thesis by (auto simp: boss_candidate_def intro: peer_ancestor_trusted)
next
  case False
  with assms obtain a where "listed_ancestor a cfg nodelist resolver = Some (hop, p)"
    and "zone a = zone (id_address destination)"
    by (auto simp: boss_candidate_def Let_def address_new_eq_Inr split: if_splits sum.splits)
  with False show ?thesis using listed_ancestor_trusted by (metis is_anonymous_def)
qed

text \<open>Hold, and Direct to a listed address, name the destination as the message gives it.\<close>

definition keeps_destination :: "route_method \<Rightarrow> identity \<Rightarrow> bool" where
  "keeps_destination m destination \<longleftrightarrow> m = Hold \<or> m = Direct \<and> \<not> is_anonymous (id_address destination)"

lemma candidate_trusted:
  assumes "nodelist_read G d input = Inr nodelist"
    and "candidate m destination cfg nodelist resolver = Some (hop, p)"
  shows "if keeps_destination m destination then hop = destination else trusted_hop cfg resolver hop"
  using assms(2) branch_candidate_trusted [OF assms(1)] boss_candidate_trusted
  by (cases m) (auto simp: keeps_destination_def direct_candidate_def intro: named_peer_trusted peer_ancestor_trusted
      exact_peer_trusted split: if_splits option.splits)

text \<open>
  C22.  What a next hop can be.  With a nodelist that \<open>Nodelist::read\<close> returned, a commitment made by Hold,
  or by Direct to a non-anonymous destination, names the destination itself, with the key the caller
  gave for it, which routing does not check.  Every other commitment --- Via, Boss, Hub, Host, Region,
  Zone, and Direct to an anonymous peer --- names an identity whose key is the one the resolver has for
  its address or, for an anonymous address, the key of a configured peer.
\<close>

theorem next_hop_trusted:
  assumes "nodelist_read G d input = Inr nodelist"
    and "route_netmail cfg rts destination vias nodelist resolver = Inr c"
  shows "\<exists>ms. applicable cfg rts destination nodelist resolver (com_route_rule c) ms \<and>
    com_method_index c < length ms \<and>
    (if keeps_destination (ms ! com_method_index c) destination then com_next_hop c = destination
     else trusted_hop cfg resolver (com_next_hop c))"
proof -
  obtain ms where "route_methods cfg rts destination nodelist resolver = (com_route_rule c, ms)"
    and "com_method_index c < length ms"
    and "candidate (ms ! com_method_index c) destination cfg nodelist resolver = Some (com_next_hop c, com_passive c)"
    using assms(2) unfolding route_netmail_def by (auto simp: method_loop_Inr split: if_splits prod.splits)
  then show ?thesis using candidate_trusted [OF assms(1)] by (auto simp: route_methods_applicable)
qed

section \<open>Points and coordinators\<close>

lemma address_for_zone:
  assumes "address_for d h KwZone number = Inr (h', a)"
  shows "branch_for d h' = Inr \<lparr>br_zone = a, br_region = None, br_host = None, br_hub = None\<rparr>"
  using assms by (auto simp: address_for_def branch_for_def and_then_eq_Inr)

text \<open>
  C36.  Branch selectors look at the entry of the exact address.  The nodelist lists no points, so a
  point matches no Branch and no Independent selector and has no Hub, Host, Region or Zone candidate,
  whatever its Boss Node has; and an Independent Zone selector matches the Zone coordinator itself.
\<close>

theorem branch_selectors_by_entry:
  assumes "\<And>a e. nodelist a = Some e \<Longrightarrow> point a = 0"
    and "address_for d h KwZone number = Inr (h', a)" and "branch_for d h' = Inr b"
    and "nodelist a = Some e" and "ent_branch e = b"
  shows "(point (id_address who) \<noteq> 0 \<longrightarrow>
      \<not> selector_matches (SelectBranch kind root) who cfg nodelist resolver \<and>
      \<not> selector_matches (SelectIndependent ikind root) who cfg nodelist resolver \<and>
      branch_candidate method who cfg nodelist resolver = None) \<and>
    selector_matches (SelectIndependent IndependentZone a) \<lparr>id_address = a, id_key = key\<rparr> cfg nodelist resolver"
proof -
  have "nodelist_get nodelist (id_address who) = None" if "point (id_address who) \<noteq> 0"
    using assms(1) that by (cases "nodelist (id_address who)") (auto simp: nodelist_get_def)
  moreover have "b = \<lparr>br_zone = a, br_region = None, br_host = None, br_hub = None\<rparr>"
    using address_for_zone [OF assms(2)] assms(3) by simp
  ultimately show ?thesis using assms(4,5) by (auto simp: branch_candidate_def nodelist_get_def)
qed

section \<open>A small network\<close>

text \<open>One anonymous peer through which everything is routed, and one listed Zone coordinator.\<close>

definition relay_peer :: peer where
  "relay_peer =
     \<lparr>peer_name = lit ''n'', peer_address = \<lparr>domain = lit ''f'', zone = -1, net = -1, node = -1, point = 0\<rparr>,
      peer_public_key = Some (replicate 32 3), peer_endpoints = [], peer_trust_on_first_use = False,
      peer_boss = None, peer_hub = None\<rparr>"

definition relay_config :: configuration_set where
  "relay_config = \<lparr>cfg_peers = [(lit ''n'', relay_peer)], cfg_routes = [], cfg_areas = [], cfg_schedules = []\<rparr>"

definition relay_routes :: routes where
  "relay_routes =
     \<lparr>rt_local = RefPeer (lit ''n''),
      rt_routes = [\<lparr>rule_destination = SelectAll, rule_methods = [Via (lit ''n''), Hold], rule_on_failure = None\<rparr>],
      rt_relay = [], rt_failures = [], rt_failure_default = default_policy\<rparr>"

definition relay_commitment :: commitment where
  "relay_commitment =
     \<lparr>com_next_hop = \<lparr>id_address = peer_address relay_peer, id_key = replicate 32 3\<rparr>, com_passive = False,
      com_route_rule = Some 0, com_method_index = 0\<rparr>"

lemma relay_routes_netmail:
  "route_netmail relay_config relay_routes sample_identity [sample_identity] Map.empty sample_resolver =
     Inr relay_commitment"
  by (simp add: route_netmail_def route_methods_def relay_routes_def has_keyword_def nodelist_get_def named_peer_def
      relay_config_def peer_identity_def is_anonymous_def relay_peer_def relay_commitment_def same_system_as_def
      sample_identity_def)

text \<open>With an empty distribution, the relay is trusted as a configured anonymous peer.\<close>

lemma empty_nodelist: "nodelist_read plain_grammar (lit ''f'') \<lparr>buf_bytes = [], buf_fails = False\<rparr> = Inr Map.empty"
proof -
  have "reader_items plain_grammar (nodelist_reader_new sample_validator) \<lparr>buf_bytes = [], buf_fails = False\<rparr> = []"
    by (subst reader_items.simps)
      (simp add: reader_next_def read_until_def nodelist_reader_new_def sample_validator_def)
  with sample_context sample_validator_new show ?thesis by (simp add: nodelist_read_def distribution_def)
qed

theorem next_hop_trusted_witness:
  "trusted_hop relay_config sample_resolver (com_next_hop relay_commitment)"
  using next_hop_trusted [OF empty_nodelist relay_routes_netmail]
  by (auto simp: relay_commitment_def applicable_def relay_routes_def keeps_destination_def)

text \<open>The same route answers for every list of Vias.\<close>

theorem routing_succeeds_witness:
  "route_netmail relay_config relay_routes sample_identity [sample_identity] Map.empty sample_resolver \<noteq> Inl Unroutable \<and>
   (\<exists>c. route_netmail relay_config relay_routes sample_identity [] Map.empty sample_resolver = Inr c)"
  by (rule routing_succeeds [of _ _ _ _ _ "Some 0" "[Via (lit ''n''), Hold]"])
    (simp_all add: has_keyword_def nodelist_get_def applicable_def relay_routes_def)

definition zone_entry :: entry where
  "zone_entry =
     (let a = \<lparr>domain = lit ''f'', zone = 1, net = 1, node = 0, point = 0\<rparr> in
      \<lparr>ent_keyword = KwZone, ent_address = a, ent_tith = None,
       ent_branch = \<lparr>br_zone = a, br_region = None, br_host = None, br_hub = None\<rparr>\<rparr>)"

definition zone_nodelist :: nodelist where
  "zone_nodelist = [ent_address zone_entry \<mapsto> zone_entry]"

theorem branch_selectors_by_entry_witness:
  "\<not> selector_matches (SelectBranch BranchZone (ent_address zone_entry))
     \<lparr>id_address = (ent_address zone_entry)\<lparr>point := 1\<rparr>, id_key = replicate 32 0\<rparr> relay_config zone_nodelist sample_resolver \<and>
   selector_matches (SelectIndependent IndependentZone (ent_address zone_entry))
     \<lparr>id_address = ent_address zone_entry, id_key = replicate 32 0\<rparr> relay_config zone_nodelist sample_resolver"
proof -
  have "chars (lit ''f'') = [102]" by code_simp
  then have dom: "listed_domain (lit ''f'')"
    by (simp add: listed_domain_def validate_domain_def tts_whitespace_def is_control_def)
  let ?h = "\<lparr>hi_zone = None, hi_region = None, hi_host = None, hi_hub = None\<rparr>"
  let ?h' = "\<lparr>hi_zone = Some 1, hi_region = None, hi_host = None, hi_hub = None\<rparr>"
  let ?who = "\<lparr>id_address = (ent_address zone_entry)\<lparr>point := 1\<rparr>, id_key = replicate 32 0\<rparr>"
  have a: "address_for (lit ''f'') ?h KwZone 1 = Inr (?h', ent_address zone_entry)"
    using expect_address_ok [OF dom, of 1 1 0]
    by (simp add: address_for_def node_number_def zone_entry_def Let_def)
  have points: "\<And>x e. zone_nodelist x = Some e \<Longrightarrow> point x = 0"
    by (auto simp: zone_nodelist_def zone_entry_def Let_def split: if_splits)
  have n: "zone_nodelist (ent_address zone_entry) = Some zone_entry" by (simp add: zone_nodelist_def)
  have b: "ent_branch zone_entry = \<lparr>br_zone = ent_address zone_entry, br_region = None, br_host = None, br_hub = None\<rparr>"
    by (simp add: zone_entry_def Let_def)
  have "(point (id_address ?who) \<noteq> 0 \<longrightarrow>
      \<not> selector_matches (SelectBranch BranchZone (ent_address zone_entry)) ?who relay_config zone_nodelist sample_resolver \<and>
      \<not> selector_matches (SelectIndependent IndependentZone (ent_address zone_entry)) ?who relay_config zone_nodelist sample_resolver \<and>
      branch_candidate Host ?who relay_config zone_nodelist sample_resolver = None) \<and>
    selector_matches (SelectIndependent IndependentZone (ent_address zone_entry))
      \<lparr>id_address = ent_address zone_entry, id_key = replicate 32 0\<rparr> relay_config zone_nodelist sample_resolver"
    by (rule branch_selectors_by_entry [where nodelist = zone_nodelist, OF points a address_for_zone [OF a] n b])
  then show ?thesis by simp
qed

end
