(* ===== verification/Ledger.thy ===== *)
theory Ledger
  imports Utf8 "HOL-Library.List_Lexorder"
begin

text \<open>
  The adapter ledger (\<open>crates/tith-ledger/src/lib.rs\<close>): the byte codec of its records and the
  operations on its three tables.

  The database behind it, redb, is a library: a table is the list of its entries in key order, a
  write transaction that is not committed leaves the tables as they were, and a commit changes them
  at once.  Any of its calls may fail; \<open>fault\<close> is the message of that failure, which every operation
  returns before anything is committed.
\<close>

section \<open>Data\<close>

datatype ledger_error =
    Database string
  | CorruptRecord
  | QuarantineExists str
  | LedgerPanicked

datatype ledger_state = Staged | Published | Acknowledged | Retired

fun state_code :: "ledger_state \<Rightarrow> u8" where
  "state_code Staged = 1"
| "state_code Published = 2"
| "state_code Acknowledged = 3"
| "state_code Retired = 4"

definition state_from_code :: "u8 \<Rightarrow> ledger_state option" where
  "state_from_code code =
     (if code = 1 then Some Staged
      else if code = 2 then Some Published
      else if code = 3 then Some Acknowledged
      else if code = 4 then Some Retired
      else None)"

record ledger_object =
  lo_name :: str
  lo_digest :: u64

record quarantine_object =
  qo_name :: str
  qo_contents :: bytes

record orphan =
  or_inbound_id :: str
  or_authentication :: str
  or_reason :: str
  or_payload :: bytes
  or_objects :: "quarantine_object list"
  or_notice :: "quarantine_object option"
  or_notice_published :: bool

record ledger_record =
  lr_inbound_id :: str
  lr_payload_hash :: bytes
  lr_state :: ledger_state
  lr_objects :: "ledger_object list"
  lr_note :: str
  lr_claim_token :: str
  lr_distribution :: str
  lr_forward_job :: str
  lr_cleanup :: "str list"

section \<open>Bytes\<close>

text \<open>The readers take what they need off the front of the remaining input.\<close>

type_synonym 'a taker = "bytes \<Rightarrow> ('a \<times> bytes) option"

definition take_fixed :: "nat \<Rightarrow> bytes taker" where
  "take_fixed n input = (if length input < n then None else Some (take n input, drop n input))"

definition take_number :: "nat \<Rightarrow> nat taker" where
  "take_number n input = map_option (\<lambda>(v, rest). (le_value v, rest)) (take_fixed n input)"

definition u32_max :: nat where
  "u32_max = 2 ^ 32 - 1"

definition push_string :: "str \<Rightarrow> bytes" where
  "push_string v = (let n = min (length v) u32_max in le_bytes 4 n @ take n v)"

definition take_string :: "str taker" where
  "take_string input =
     Option.bind (take_number 4 input) (\<lambda>(n, rest).
     Option.bind (take_fixed n rest) (\<lambda>(v, rest').
     if valid_utf8 v then Some (v, rest') else None))"

definition push_bytes :: "bytes \<Rightarrow> bytes" where
  "push_bytes v = le_bytes 8 (length v) @ v"

definition take_bytes :: "bytes taker" where
  "take_bytes input = Option.bind (take_number 8 input) (\<lambda>(n, rest). take_fixed n rest)"

definition take_text :: "str taker" where
  "take_text input =
     Option.bind (take_bytes input) (\<lambda>(v, rest). if valid_utf8 v then Some (v, rest) else None)"

text \<open>A loop \<open>for _ in 0..count\<close> around a reader.\<close>

fun take_many :: "'a taker \<Rightarrow> nat \<Rightarrow> 'a list taker" where
  "take_many f 0 input = Some ([], input)"
| "take_many f (Suc n) input =
     Option.bind (f input) (\<lambda>(x, rest).
     Option.bind (take_many f n rest) (\<lambda>(xs, rest').
     Some (x # xs, rest')))"

section \<open>Orphans\<close>

definition push_quarantined :: "quarantine_object \<Rightarrow> bytes" where
  "push_quarantined q = push_bytes (qo_name q) @ push_bytes (qo_contents q)"

definition take_quarantined :: "quarantine_object taker" where
  "take_quarantined input =
     Option.bind (take_text input) (\<lambda>(name, rest).
     Option.bind (take_bytes rest) (\<lambda>(contents, rest').
     Some (\<lparr>qo_name = name, qo_contents = contents\<rparr>, rest')))"

definition push_notice :: "orphan \<Rightarrow> bytes" where
  "push_notice r =
     (case or_notice r of
        Some q \<Rightarrow> 1 # push_quarantined q @ [if or_notice_published r then 1 else 0]
      | None \<Rightarrow> [0])"

text \<open>The fields before the notice.\<close>

definition push_orphan_fields :: "orphan \<Rightarrow> bytes" where
  "push_orphan_fields r =
     push_bytes (or_inbound_id r) @ push_bytes (or_authentication r) @ push_bytes (or_reason r) @
     push_bytes (or_payload r) @ le_bytes 8 (length (or_objects r)) @ concat (map push_quarantined (or_objects r))"

definition encode_orphan :: "orphan \<Rightarrow> bytes" where
  "encode_orphan r = push_orphan_fields r @ push_notice r"

definition take_flag :: "bool taker" where
  "take_flag input =
     Option.bind (take_fixed 1 input) (\<lambda>(v, rest).
     if v = [0] then Some (False, rest) else if v = [1] then Some (True, rest) else None)"

definition take_notice :: "(quarantine_object option \<times> bool) taker" where
  "take_notice input =
     (if input = [] then Some ((None, False), [])
      else Option.bind (take_flag input) (\<lambda>(present, rest).
        if \<not> present then Some ((None, False), rest)
        else Option.bind (take_quarantined rest) (\<lambda>(q, rest').
          Option.bind (take_flag rest') (\<lambda>(published, rest'').
          Some ((Some q, published), rest'')))))"

definition take_orphan :: "bytes \<Rightarrow> orphan option" where
  "take_orphan input =
     Option.bind (take_text input) (\<lambda>(inbound_id, i1).
     Option.bind (take_text i1) (\<lambda>(authentication, i2).
     Option.bind (take_text i2) (\<lambda>(reason, i3).
     Option.bind (take_bytes i3) (\<lambda>(payload, i4).
     Option.bind (take_number 8 i4) (\<lambda>(count, i5).
     Option.bind (take_many take_quarantined count i5) (\<lambda>(objects, i6).
     Option.bind (take_notice i6) (\<lambda>((notice, published), i7).
     if i7 = [] then Some
       \<lparr>or_inbound_id = inbound_id, or_authentication = authentication, or_reason = reason,
        or_payload = payload, or_objects = objects, or_notice = notice, or_notice_published = published\<rparr>
     else None)))))))"

definition decode_orphan :: "bytes \<Rightarrow> ledger_error + orphan" where
  "decode_orphan input = ok_or CorruptRecord (take_orphan input)"

section \<open>Records\<close>

definition push_object :: "ledger_object \<Rightarrow> bytes" where
  "push_object x = push_string (lo_name x) @ le_bytes 8 (unat (lo_digest x))"

definition take_object :: "ledger_object taker" where
  "take_object input =
     Option.bind (take_string input) (\<lambda>(name, rest).
     Option.bind (take_number 8 rest) (\<lambda>(digest, rest').
     Some (\<lparr>lo_name = name, lo_digest = of_nat digest\<rparr>, rest')))"

text \<open>A count of at most \<open>u32::MAX\<close> and that many items.\<close>

definition push_counted :: "('a \<Rightarrow> bytes) \<Rightarrow> 'a list \<Rightarrow> bytes" where
  "push_counted push xs =
     (let count = min (length xs) u32_max in le_bytes 4 count @ concat (map push (take count xs)))"

definition take_counted :: "'a taker \<Rightarrow> 'a list taker" where
  "take_counted f input = Option.bind (take_number 4 input) (\<lambda>(count, rest). take_many f count rest)"

definition push_record_fields :: "ledger_record \<Rightarrow> bytes" where
  "push_record_fields r =
     state_code (lr_state r) # lr_payload_hash r @ push_string (lr_inbound_id r) @ push_string (lr_note r) @
     push_string (lr_claim_token r) @ push_string (lr_distribution r) @ push_string (lr_forward_job r) @
     push_counted push_object (lr_objects r)"

definition encode_record :: "ledger_record \<Rightarrow> bytes" where
  "encode_record r = push_record_fields r @ push_counted push_string (lr_cleanup r)"

definition take_state :: "ledger_state taker" where
  "take_state input =
     Option.bind (take_fixed 1 input) (\<lambda>(v, rest).
     map_option (\<lambda>s. (s, rest)) (state_from_code (v ! 0)))"

definition take_cleanup :: "str list taker" where
  "take_cleanup input = (if input = [] then Some ([], []) else take_counted take_string input)"

definition take_record :: "bytes \<Rightarrow> ledger_record option" where
  "take_record input =
     Option.bind (take_state input) (\<lambda>(state, i1).
     Option.bind (take_fixed 32 i1) (\<lambda>(payload_hash, i2).
     Option.bind (take_string i2) (\<lambda>(inbound_id, i3).
     Option.bind (take_string i3) (\<lambda>(note, i4).
     Option.bind (take_string i4) (\<lambda>(claim_token, i5).
     Option.bind (take_string i5) (\<lambda>(distribution, i6).
     Option.bind (take_string i6) (\<lambda>(forward_job, i7).
     Option.bind (take_counted take_object i7) (\<lambda>(objects, i8).
     Option.bind (take_cleanup i8) (\<lambda>(cleanup, i9).
     if i9 = [] then Some
       \<lparr>lr_inbound_id = inbound_id, lr_payload_hash = payload_hash, lr_state = state, lr_objects = objects,
        lr_note = note, lr_claim_token = claim_token, lr_distribution = distribution,
        lr_forward_job = forward_job, lr_cleanup = cleanup\<rparr>
     else None)))))))))"

definition decode_record :: "bytes \<Rightarrow> ledger_error + ledger_record" where
  "decode_record input = ok_or CorruptRecord (take_record input)"

section \<open>Tables\<close>

type_synonym 'v table = "(str \<times> 'v) list"

definition table_insert :: "str \<Rightarrow> 'v \<Rightarrow> 'v table \<Rightarrow> 'v table" where
  "table_insert k v t = insort_key fst (k, v) (filter (\<lambda>(k', _). k' \<noteq> k) t)"

record ledger =
  lg_inbound :: "bytes table"
  lg_quarantine :: "bytes table"
  lg_counter :: "u64 table"

text \<open>A new database file has its three tables, and they are empty.\<close>

definition ledger_open :: ledger where
  "ledger_open = \<lparr>lg_inbound = [], lg_quarantine = [], lg_counter = []\<rparr>"

text \<open>A transaction of which some call of the database fails returns that failure.\<close>

definition transact :: "string option \<Rightarrow> ledger_error + 'a \<Rightarrow> ledger_error + 'a" where
  "transact fault outcome = (case fault of Some message \<Rightarrow> Inl (Database message) | None \<Rightarrow> outcome)"

definition stage :: "string option \<Rightarrow> ledger_record \<Rightarrow> ledger \<Rightarrow> ledger_error + ledger" where
  "stage fault r db =
     transact fault (Inr (db\<lparr>lg_inbound := table_insert (lr_inbound_id r) (encode_record r) (lg_inbound db)\<rparr>))"

definition orphan_of ::
    "ledger_record \<Rightarrow> str \<Rightarrow> bytes \<Rightarrow> quarantine_object list \<Rightarrow> quarantine_object option \<Rightarrow> orphan" where
  "orphan_of r authentication payload objects notice =
     \<lparr>or_inbound_id = lr_inbound_id r, or_authentication = authentication, or_reason = lr_note r,
      or_payload = payload, or_objects = objects, or_notice = notice, or_notice_published = False\<rparr>"

definition stage_orphan ::
    "string option \<Rightarrow> ledger_record \<Rightarrow> str \<Rightarrow> bytes \<Rightarrow> quarantine_object list \<Rightarrow> quarantine_object option
     \<Rightarrow> ledger \<Rightarrow> ledger_error + ledger" where
  "stage_orphan fault r authentication payload objects notice db =
     transact fault
       (let orphan = orphan_of r authentication payload objects notice; k = lr_inbound_id r in
        case map_of (lg_quarantine db) k of
          Some v \<Rightarrow>
            and_then (decode_orphan v) (\<lambda>existing.
            if existing\<lparr>or_notice_published := False\<rparr> = orphan then Inr db
            else Inl (QuarantineExists k))
        | None \<Rightarrow> Inr
            (db\<lparr>lg_inbound := table_insert k (encode_record r) (lg_inbound db),
                lg_quarantine := table_insert k (encode_orphan orphan) (lg_quarantine db)\<rparr>))"

definition mark_orphan_notice_published :: "string option \<Rightarrow> str \<Rightarrow> ledger \<Rightarrow> ledger_error + ledger" where
  "mark_orphan_notice_published fault k db =
     transact fault
       (case map_of (lg_quarantine db) k of
          None \<Rightarrow> Inl CorruptRecord
        | Some v \<Rightarrow>
            and_then (decode_orphan v) (\<lambda>orphan.
            if or_notice orphan = None then Inl CorruptRecord
            else Inr (db\<lparr>lg_quarantine :=
              table_insert k (encode_orphan (orphan\<lparr>or_notice_published := True\<rparr>)) (lg_quarantine db)\<rparr>)))"

definition amend :: "string option \<Rightarrow> str \<Rightarrow> (ledger_record \<Rightarrow> ledger_record) \<Rightarrow> ledger \<Rightarrow> ledger_error + ledger" where
  "amend fault k change db =
     transact fault
       (case map_of (lg_inbound db) k of
          None \<Rightarrow> Inl CorruptRecord
        | Some v \<Rightarrow>
            and_then (decode_record v) (\<lambda>r.
            Inr (db\<lparr>lg_inbound := table_insert k (encode_record (change r)) (lg_inbound db)\<rparr>)))"

definition advance :: "string option \<Rightarrow> str \<Rightarrow> ledger_state \<Rightarrow> ledger \<Rightarrow> ledger_error + ledger" where
  "advance fault k s = amend fault k (\<lambda>r. r\<lparr>lr_state := s\<rparr>)"

definition record_forward :: "string option \<Rightarrow> str \<Rightarrow> str \<Rightarrow> ledger \<Rightarrow> ledger_error + ledger" where
  "record_forward fault k job = amend fault k (\<lambda>r. r\<lparr>lr_forward_job := job\<rparr>)"

definition record_cleanup :: "string option \<Rightarrow> str \<Rightarrow> str list \<Rightarrow> ledger \<Rightarrow> ledger_error + ledger" where
  "record_cleanup fault k paths = amend fault k (\<lambda>r. r\<lparr>lr_cleanup := paths\<rparr>)"

definition ledger_get :: "string option \<Rightarrow> str \<Rightarrow> ledger \<Rightarrow> ledger_error + ledger_record option" where
  "ledger_get fault k db =
     transact fault
       (case map_of (lg_inbound db) k of
          Some v \<Rightarrow> and_then (decode_record v) (\<lambda>r. Inr (Some r))
        | None \<Rightarrow> Inr None)"

definition ledger_orphan :: "string option \<Rightarrow> str \<Rightarrow> ledger \<Rightarrow> ledger_error + orphan option" where
  "ledger_orphan fault k db =
     transact fault
       (case map_of (lg_quarantine db) k of
          Some v \<Rightarrow> and_then (decode_orphan v) (\<lambda>r. Inr (Some r))
        | None \<Rightarrow> Inr None)"

definition orphans :: "string option \<Rightarrow> ledger \<Rightarrow> ledger_error + orphan list" where
  "orphans fault db = transact fault (try_map (\<lambda>(_, v). decode_orphan v) (lg_quarantine db))"

definition select_records ::
    "(ledger_record \<Rightarrow> bool) \<Rightarrow> string option \<Rightarrow> ledger \<Rightarrow> ledger_error + ledger_record list" where
  "select_records P fault db =
     transact fault
       (and_then (try_map (\<lambda>(_, v). decode_record v) (lg_inbound db)) (\<lambda>rs. Inr (filter P rs)))"

definition unfinished :: "string option \<Rightarrow> ledger \<Rightarrow> ledger_error + ledger_record list" where
  "unfinished = select_records (\<lambda>r. lr_state r \<in> {Staged, Published})"

definition pending_cleanup :: "string option \<Rightarrow> ledger \<Rightarrow> ledger_error + ledger_record list" where
  "pending_cleanup = select_records (\<lambda>r. lr_cleanup r \<noteq> [])"

text \<open>The sum overflows, and panics, after the largest \<open>u64\<close>.\<close>

definition next_identity :: "string option \<Rightarrow> str \<Rightarrow> ledger \<Rightarrow> ledger_error + ledger \<times> u64" where
  "next_identity fault name db =
     transact fault
       (case map_of (lg_counter db) name of
          None \<Rightarrow> Inr (db\<lparr>lg_counter := table_insert name 1 (lg_counter db)\<rparr>, 1)
        | Some v \<Rightarrow>
            if v = - 1 then Inl LedgerPanicked
            else Inr (db\<lparr>lg_counter := table_insert name (v + 1) (lg_counter db)\<rparr>, v + 1))"

section \<open>The codec is exact\<close>

text \<open>
  The interface of a reader that takes one item off the front: it reads back what was pushed, and
  whatever it reads was pushed.
\<close>

locale take_codec =
  fixes push :: "'a \<Rightarrow> bytes" and taker :: "'a taker" and ok :: "'a \<Rightarrow> bool"
  assumes take_push: "ok x \<Longrightarrow> taker (push x @ rest) = Some (x, rest)"
    and take_pushed: "taker input = Some (x, rest) \<Longrightarrow> ok x \<and> input = push x @ rest"
begin

lemma take_iff: "taker input = Some (x, rest) \<longleftrightarrow> ok x \<and> input = push x @ rest"
  using take_push take_pushed by blast

lemma take_many_iff:
  "take_many taker n input = Some (xs, rest) \<longleftrightarrow>
     length xs = n \<and> list_all ok xs \<and> input = concat (map push xs) @ rest"
  by (induction n arbitrary: input xs)
    (auto simp: bind_eq_Some_conv take_iff length_Suc_conv)

lemma take_many_push:
  "list_all ok xs \<Longrightarrow> take_many taker (length xs) (concat (map push xs) @ rest) = Some (xs, rest)"
  by (simp add: take_many_iff)

end

lemma take_fixed_iff: "take_fixed n input = Some (v, rest) \<longleftrightarrow> length v = n \<and> input = v @ rest"
  by (auto simp: take_fixed_def)

interpretation fixed: take_codec "\<lambda>v. v" "take_fixed n" "\<lambda>v. length v = n" for n
  by unfold_locales (auto simp: take_fixed_iff)

lemma take_number_iff: "take_number n input = Some (v, rest) \<longleftrightarrow> v < 256 ^ n \<and> input = le_bytes n v @ rest"
proof
  assume "take_number n input = Some (v, rest)"
  then obtain bs where "length bs = n" "input = bs @ rest" "v = le_value bs"
    by (auto simp: take_number_def take_fixed_iff)
  with le_value_less [of bs] le_bytes_value [of bs]
  show "v < 256 ^ n \<and> input = le_bytes n v @ rest" by auto
next
  assume "v < 256 ^ n \<and> input = le_bytes n v @ rest"
  then show "take_number n input = Some (v, rest)"
    by (simp add: take_number_def take_fixed_def le_value_bytes)
qed

interpretation number: take_codec "le_bytes n" "take_number n" "\<lambda>v. v < 256 ^ n" for n
  by unfold_locales (auto simp: take_number_iff)

definition string_ok :: "str \<Rightarrow> bool" where
  "string_ok v \<longleftrightarrow> valid_utf8 v \<and> length v \<le> u32_max"

interpretation string: take_codec push_string take_string string_ok
proof
  fix x rest assume "string_ok x"
  then show "take_string (push_string x @ rest) = Some (x, rest)"
    by (simp add: take_string_def push_string_def string_ok_def u32_max_def number.take_push fixed.take_push)
next
  fix input x rest assume "take_string input = Some (x, rest)"
  then obtain n r where n: "n < 256 ^ 4" "input = le_bytes 4 n @ r" and x: "length x = n" "r = x @ rest" "valid_utf8 x"
    by (auto simp: take_string_def bind_eq_Some_conv take_number_iff take_fixed_iff split: if_splits)
  have "n \<le> u32_max" using n(1) by (simp add: u32_max_def)
  with n x show "string_ok x \<and> input = push_string x @ rest"
    by (simp add: string_ok_def push_string_def)
qed

definition bytes_ok :: "bytes \<Rightarrow> bool" where
  "bytes_ok v \<longleftrightarrow> length v < 2 ^ 64"

definition text_ok :: "str \<Rightarrow> bool" where
  "text_ok v \<longleftrightarrow> valid_utf8 v \<and> bytes_ok v"

lemma take_bytes_iff: "take_bytes input = Some (v, rest) \<longleftrightarrow> bytes_ok v \<and> input = push_bytes v @ rest"
  by (auto simp: take_bytes_def bind_eq_Some_conv take_number_iff take_fixed_iff bytes_ok_def push_bytes_def)

interpretation bytes: take_codec push_bytes take_bytes bytes_ok
  by unfold_locales (auto simp: take_bytes_iff)

interpretation utf8_text: take_codec push_bytes take_text text_ok
  by unfold_locales (auto simp: take_text_def bind_eq_Some_conv take_bytes_iff text_ok_def split: if_splits)

text \<open>The items of the two record formats.\<close>

definition quarantined_ok :: "quarantine_object \<Rightarrow> bool" where
  "quarantined_ok q \<longleftrightarrow> text_ok (qo_name q) \<and> bytes_ok (qo_contents q)"

interpretation quarantined: take_codec push_quarantined take_quarantined quarantined_ok
proof
  fix x rest assume "quarantined_ok x"
  then show "take_quarantined (push_quarantined x @ rest) = Some (x, rest)"
    by (simp add: take_quarantined_def push_quarantined_def quarantined_ok_def utf8_text.take_push bytes.take_push)
next
  fix input x rest assume "take_quarantined input = Some (x, rest)"
  then show "quarantined_ok x \<and> input = push_quarantined x @ rest"
    by (auto simp: take_quarantined_def push_quarantined_def quarantined_ok_def bind_eq_Some_conv
        utf8_text.take_iff bytes.take_iff)
qed

interpretation object: take_codec push_object take_object "\<lambda>x. string_ok (lo_name x)"
proof
  fix x :: ledger_object and rest assume "string_ok (lo_name x)"
  moreover have "unat (lo_digest x) < 256 ^ 8" using u64_less [of "lo_digest x"] by (simp del: u64_less)
  ultimately show "take_object (push_object x @ rest) = Some (x, rest)"
    by (simp add: take_object_def push_object_def string.take_push number.take_push)
next
  fix input x rest assume "take_object input = Some (x, rest)"
  then show "string_ok (lo_name x) \<and> input = push_object x @ rest"
    by (auto simp: take_object_def push_object_def bind_eq_Some_conv string.take_iff number.take_iff unat_of_nat)
qed

interpretation flag: take_codec "\<lambda>b. [if b then 1 else 0]" take_flag "\<lambda>_. True"
proof
  show "take_flag ([if x then 1 else 0] @ rest) = Some (x, rest)" for x rest
    by (simp add: take_flag_def take_fixed_def)
  show "True \<and> input = [if x then 1 else 0] @ rest" if "take_flag input = Some (x, rest)" for input x rest
    using that by (auto simp: take_flag_def bind_eq_Some_conv take_fixed_iff split: if_splits)
qed

lemma state_from_code_iff: "state_from_code c = Some s \<longleftrightarrow> c = state_code s"
  by (cases s) (auto simp: state_from_code_def)

interpretation state: take_codec "\<lambda>s. [state_code s]" take_state "\<lambda>_. True"
proof
  show "take_state ([state_code s] @ rest) = Some (s, rest)" for s rest
    by (simp add: take_state_def take_fixed_def) (simp add: state_from_code_iff)
  show "True \<and> input = [state_code s] @ rest" if "take_state input = Some (s, rest)" for input s rest
    using that by (auto simp: take_state_def bind_eq_Some_conv take_fixed_iff state_from_code_iff length_Suc_conv)
qed

context take_codec
begin

lemma counted_push:
  "list_all ok xs \<Longrightarrow> length xs \<le> u32_max \<Longrightarrow> take_counted taker (push_counted push xs @ rest) = Some (xs, rest)"
  by (simp add: take_counted_def push_counted_def u32_max_def take_many_iff number.take_push)

lemma counted_iff:
  "take_counted taker input = Some (xs, rest) \<longleftrightarrow>
     list_all ok xs \<and> length xs \<le> u32_max \<and> input = push_counted push xs @ rest"
proof
  assume "take_counted taker input = Some (xs, rest)"
  then obtain n r where n: "n < 256 ^ 4" "input = le_bytes 4 n @ r"
    and xs: "length xs = n" "list_all ok xs" "r = concat (map push xs) @ rest"
    by (auto simp: take_counted_def bind_eq_Some_conv take_number_iff take_many_iff)
  have "n \<le> u32_max" using n(1) by (simp add: u32_max_def)
  with n xs show "list_all ok xs \<and> length xs \<le> u32_max \<and> input = push_counted push xs @ rest"
    by (simp add: push_counted_def)
qed (auto simp: counted_push)

end

text \<open>What the formats can represent.\<close>

definition record_ok :: "ledger_record \<Rightarrow> bool" where
  "record_ok r \<longleftrightarrow>
     length (lr_payload_hash r) = 32 \<and> string_ok (lr_inbound_id r) \<and> string_ok (lr_note r) \<and>
     string_ok (lr_claim_token r) \<and> string_ok (lr_distribution r) \<and> string_ok (lr_forward_job r) \<and>
     list_all (\<lambda>x. string_ok (lo_name x)) (lr_objects r) \<and> length (lr_objects r) \<le> u32_max \<and>
     list_all string_ok (lr_cleanup r) \<and> length (lr_cleanup r) \<le> u32_max"

definition orphan_ok :: "orphan \<Rightarrow> bool" where
  "orphan_ok r \<longleftrightarrow>
     text_ok (or_inbound_id r) \<and> text_ok (or_authentication r) \<and> text_ok (or_reason r) \<and>
     bytes_ok (or_payload r) \<and> list_all quarantined_ok (or_objects r) \<and> length (or_objects r) < 2 ^ 64 \<and>
     (case or_notice r of Some q \<Rightarrow> quarantined_ok q | None \<Rightarrow> \<not> or_notice_published r)"

lemma push_counted_not_Nil [simp]: "push_counted push xs \<noteq> []"
  by (simp add: push_counted_def Let_def flip: length_0_conv)

lemma take_cleanup_iff:
  "take_cleanup input = Some (cs, rest) \<longleftrightarrow>
     input = [] \<and> cs = [] \<and> rest = [] \<or>
     list_all string_ok cs \<and> length cs \<le> u32_max \<and> input = push_counted push_string cs @ rest"
  by (auto simp: take_cleanup_def string.counted_iff)

lemma take_record_fields:
  assumes "record_ok r"
  shows "take_record (push_record_fields r @ i) =
    Option.bind (take_cleanup i) (\<lambda>(cleanup, rest). if rest = [] then Some (r\<lparr>lr_cleanup := cleanup\<rparr>) else None)"
  using assms state.take_push [of "lr_state r"]
  by (cases r; cases "take_cleanup i") (auto simp: take_record_def push_record_fields_def record_ok_def fixed.take_push string.take_push
      object.counted_push)

lemma take_record_iff:
  "take_record input = Some r \<longleftrightarrow>
     record_ok r \<and> (input = encode_record r \<or> lr_cleanup r = [] \<and> input = push_record_fields r)"
proof
  assume "take_record input = Some r"
  then show "record_ok r \<and> (input = encode_record r \<or> lr_cleanup r = [] \<and> input = push_record_fields r)"
    by (auto simp: take_record_def push_record_fields_def record_ok_def encode_record_def bind_eq_Some_conv
        state.take_iff fixed.take_iff string.take_iff object.counted_iff take_cleanup_iff split: if_splits)
next
  assume r: "record_ok r \<and> (input = encode_record r \<or> lr_cleanup r = [] \<and> input = push_record_fields r)"
  then show "take_record input = Some r"
    using take_record_fields [of r "[]"] take_record_fields [of r "push_counted push_string (lr_cleanup r)"]
      string.counted_push [of "lr_cleanup r" "[]"]
    by (auto simp: encode_record_def take_cleanup_def record_ok_def)
qed

lemma take_notice_iff:
  "take_notice input = Some (x, rest) \<longleftrightarrow>
     input = [] \<and> x = (None, False) \<and> rest = [] \<or>
     x = (None, False) \<and> input = 0 # rest \<or>
     (\<exists>q p. x = (Some q, p) \<and> quarantined_ok q \<and> input = 1 # push_quarantined q @ [if p then 1 else 0] @ rest)"
  by (cases "input = []")
    (auto simp: take_notice_def bind_eq_Some_conv flag.take_iff quarantined.take_iff split: if_splits)

lemma take_orphan_fields:
  assumes "orphan_ok r"
  shows "take_orphan (push_orphan_fields r @ i) =
    Option.bind (take_notice i) (\<lambda>((notice, published), rest).
      if rest = [] then Some (r\<lparr>or_notice := notice, or_notice_published := published\<rparr>) else None)"
  using assms
  by (cases r; cases "take_notice i") (auto simp: take_orphan_def push_orphan_fields_def orphan_ok_def utf8_text.take_push bytes.take_push
      number.take_push quarantined.take_many_push)

lemma take_orphan_iff:
  "take_orphan input = Some r \<longleftrightarrow>
     orphan_ok r \<and> (input = encode_orphan r \<or> or_notice r = None \<and> input = push_orphan_fields r)"
proof
  assume "take_orphan input = Some r"
  then show "orphan_ok r \<and> (input = encode_orphan r \<or> or_notice r = None \<and> input = push_orphan_fields r)"
    by (auto simp: take_orphan_def push_orphan_fields_def orphan_ok_def encode_orphan_def push_notice_def
        bind_eq_Some_conv utf8_text.take_iff bytes.take_iff number.take_iff quarantined.take_many_iff
        take_notice_iff split: if_splits)
next
  assume r: "orphan_ok r \<and> (input = encode_orphan r \<or> or_notice r = None \<and> input = push_orphan_fields r)"
  have "take_notice (push_notice r) = Some ((or_notice r, or_notice_published r), [])"
    using r by (auto simp: take_notice_iff push_notice_def orphan_ok_def split: option.splits)
  moreover have "take_notice [] = Some ((None, False), [])" by (simp add: take_notice_def)
  ultimately show "take_orphan input = Some r"
    using r take_orphan_fields [of r "[]"] take_orphan_fields [of r "push_notice r"]
    by (auto simp: encode_orphan_def orphan_ok_def)
qed

end
