(* ===== verification/Ledger_Spec.thy ===== *)
theory Ledger_Spec
  imports Ledger
begin

text \<open>
  What the ledger promises: three maps, of records and orphans by their InboundID and of counters by
  name.  The operations on the tables of encoded bytes implement it.
\<close>

section \<open>The abstract ledger\<close>

record ledger_spec =
  sp_inbound :: "str \<Rightarrow> ledger_record option"
  sp_quarantine :: "str \<Rightarrow> orphan option"
  sp_counter :: "str \<Rightarrow> u64 option"

datatype ledger_call =
    CallStage ledger_record
  | CallOrphan ledger_record str bytes "quarantine_object list" "quarantine_object option"
  | CallNotice str
  | CallAdvance str ledger_state
  | CallForward str str
  | CallCleanup str "str list"
  | CallIdentity str

definition spec_amend :: "str \<Rightarrow> (ledger_record \<Rightarrow> ledger_record) \<Rightarrow> ledger_spec \<Rightarrow> ledger_error + ledger_spec" where
  "spec_amend k change m =
     (case sp_inbound m k of
        None \<Rightarrow> Inl CorruptRecord
      | Some r \<Rightarrow> Inr (m\<lparr>sp_inbound := (sp_inbound m)(k \<mapsto> change r)\<rparr>))"

fun spec_call :: "ledger_spec \<Rightarrow> ledger_call \<Rightarrow> ledger_error + ledger_spec" where
  "spec_call m (CallStage r) = Inr (m\<lparr>sp_inbound := (sp_inbound m)(lr_inbound_id r \<mapsto> r)\<rparr>)"
| "spec_call m (CallOrphan r authentication payload objects notice) =
     (let orphan = orphan_of r authentication payload objects notice; k = lr_inbound_id r in
      case sp_quarantine m k of
        Some existing \<Rightarrow>
          if existing\<lparr>or_notice_published := False\<rparr> = orphan then Inr m else Inl (QuarantineExists k)
      | None \<Rightarrow> Inr (m\<lparr>sp_inbound := (sp_inbound m)(k \<mapsto> r), sp_quarantine := (sp_quarantine m)(k \<mapsto> orphan)\<rparr>))"
| "spec_call m (CallNotice k) =
     (case sp_quarantine m k of
        None \<Rightarrow> Inl CorruptRecord
      | Some orphan \<Rightarrow>
          if or_notice orphan = None then Inl CorruptRecord
          else Inr (m\<lparr>sp_quarantine := (sp_quarantine m)(k \<mapsto> orphan\<lparr>or_notice_published := True\<rparr>)\<rparr>))"
| "spec_call m (CallAdvance k s) = spec_amend k (\<lambda>r. r\<lparr>lr_state := s\<rparr>) m"
| "spec_call m (CallForward k job) = spec_amend k (\<lambda>r. r\<lparr>lr_forward_job := job\<rparr>) m"
| "spec_call m (CallCleanup k paths) = spec_amend k (\<lambda>r. r\<lparr>lr_cleanup := paths\<rparr>) m"
| "spec_call m (CallIdentity name) =
     (case sp_counter m name of
        None \<Rightarrow> Inr (m\<lparr>sp_counter := (sp_counter m)(name \<mapsto> 1)\<rparr>)
      | Some v \<Rightarrow>
          if v = - 1 then Inl LedgerPanicked else Inr (m\<lparr>sp_counter := (sp_counter m)(name \<mapsto> v + 1)\<rparr>))"

fun spec_step :: "ledger_spec \<Rightarrow> string option \<times> ledger_call \<Rightarrow> ledger_error + ledger_spec" where
  "spec_step m (fault, call) = (case fault of Some message \<Rightarrow> Inl (Database message) | None \<Rightarrow> spec_call m call)"

text \<open>The operation of the ledger that a call stands for.\<close>

fun ledger_step :: "ledger \<Rightarrow> string option \<times> ledger_call \<Rightarrow> ledger_error + ledger" where
  "ledger_step db (fault, CallStage r) = stage fault r db"
| "ledger_step db (fault, CallOrphan r authentication payload objects notice) =
     stage_orphan fault r authentication payload objects notice db"
| "ledger_step db (fault, CallNotice k) = mark_orphan_notice_published fault k db"
| "ledger_step db (fault, CallAdvance k s) = advance fault k s db"
| "ledger_step db (fault, CallForward k job) = record_forward fault k job db"
| "ledger_step db (fault, CallCleanup k paths) = record_cleanup fault k paths db"
| "ledger_step db (fault, CallIdentity name) = and_then (next_identity fault name db) (\<lambda>(db', _). Inr db')"

text \<open>Arguments the record formats can represent: no string or list of 4 GiB or more.\<close>

fun call_ok :: "string option \<times> ledger_call \<Rightarrow> bool" where
  "call_ok (fault, CallStage r) = record_ok r"
| "call_ok (fault, CallOrphan r authentication payload objects notice) =
     (record_ok r \<and> orphan_ok (orphan_of r authentication payload objects notice))"
| "call_ok (fault, CallForward k job) = string_ok job"
| "call_ok (fault, CallCleanup k paths) = (list_all string_ok paths \<and> length paths \<le> u32_max)"
| "call_ok _ = True"

section \<open>Tables as maps\<close>

definition table_ok :: "'v table \<Rightarrow> bool" where
  "table_ok t \<longleftrightarrow> sorted_wrt (<) (map fst t)"

lemma table_insert_ok: "table_ok t \<Longrightarrow> table_ok (table_insert k v t)"
proof -
  assume "table_ok t"
  then have "sorted_wrt (<) (map fst (filter (\<lambda>(k', _). k' \<noteq> k) t))"
    by (simp add: table_ok_def sorted_wrt_map sorted_wrt_filter)
  moreover have "k \<notin> fst ` set (filter (\<lambda>(k', _). k' \<noteq> k) t)" by auto
  ultimately show ?thesis
    by (simp add: table_ok_def table_insert_def insort_keys strict_sorted_iff sorted_insort distinct_insort)
qed

lemma map_of_insort: "k \<notin> fst ` set t \<Longrightarrow> map_of (insort_key fst (k, v) t) = (map_of t)(k \<mapsto> v)"
  by (induction t) auto

lemma table_insert_map: "map_of (table_insert k v t) = (map_of t)(k \<mapsto> v)"
proof -
  have "k \<notin> fst ` set (filter (\<lambda>(k', _). k' \<noteq> k) t)" by auto
  moreover have "map_of (filter (\<lambda>(k', _). k' \<noteq> k) t) = (map_of t)(k := None)"
    by (induction t) auto
  ultimately show ?thesis by (simp add: table_insert_def map_of_insort)
qed

text \<open>A table of encoded values stands for a map of values.\<close>

definition stands_for :: "('v \<Rightarrow> ledger_error + 'a) \<Rightarrow> 'v table \<Rightarrow> (str \<Rightarrow> 'a option) \<Rightarrow> bool" where
  "stands_for dec t m \<longleftrightarrow> table_ok t \<and> (\<forall>k. rel_option (\<lambda>v x. dec v = Inr x) (map_of t k) (m k))"

lemma stands_for_insert:
  "stands_for dec t m \<Longrightarrow> dec v = Inr x \<Longrightarrow> stands_for dec (table_insert k v t) (m(k \<mapsto> x))"
  by (simp add: stands_for_def table_insert_ok table_insert_map)

lemma stands_for_at:
  assumes "stands_for dec t m"
  shows "case m k of None \<Rightarrow> map_of t k = None | Some x \<Rightarrow> \<exists>v. map_of t k = Some v \<and> dec v = Inr x"
proof -
  have "rel_option (\<lambda>v x. dec v = Inr x) (map_of t k) (m k)" using assms by (simp add: stands_for_def)
  then show ?thesis by (cases "m k"; cases "map_of t k") auto
qed

lemma stands_for_None: "stands_for dec t m \<Longrightarrow> m k = None \<Longrightarrow> map_of t k = None"
  using stands_for_at [of dec t m k] by simp

lemma stands_for_Some: "stands_for dec t m \<Longrightarrow> m k = Some x \<Longrightarrow> \<exists>v. map_of t k = Some v \<and> dec v = Inr x"
  using stands_for_at [of dec t m k] by simp

lemma stands_for_lookup:
  assumes "stands_for dec t m"
  shows "(case map_of t k of None \<Rightarrow> a | Some v \<Rightarrow> and_then (dec v) f) = (case m k of None \<Rightarrow> a | Some x \<Rightarrow> f x)"
  using stands_for_at [OF assms, of k] by (cases "m k") auto

text \<open>A scan of a table returns the values in the order of their keys.\<close>

definition spec_scan :: "(str \<Rightarrow> 'a option) \<Rightarrow> 'a list" where
  "spec_scan m = map (\<lambda>k. the (m k)) (sorted_list_of_set (dom m))"

lemma stands_for_scan:
  assumes "stands_for dec t m"
  shows "try_map (\<lambda>(_, v). dec v) t = Inr (spec_scan m)"
proof -
  have "distinct (map fst t)" using assms by (simp add: stands_for_def table_ok_def strict_sorted_iff)
  have "dec v = Inr (the (m k))" if "(k, v) \<in> set t" for k v
  proof -
    have "map_of t k = Some v" using that \<open>distinct (map fst t)\<close> by simp
    with stands_for_at [OF assms, of k] show ?thesis by (cases "m k") auto
  qed
  then have "try_map (\<lambda>(_, v). dec v) t = Inr (map (\<lambda>k. the (m k)) (map fst t))"
    by (subst try_map_all_Inr [where g = "\<lambda>(k, _). the (m k)"]) (auto simp: split_def)
  moreover have "k \<in> dom m \<longleftrightarrow> map_of t k \<noteq> None" for k
    using stands_for_at [OF assms, of k] by (cases "m k") auto
  then have "dom m = set (map fst t)" by (auto simp: map_of_eq_None_iff)
  moreover have "sorted_list_of_set (set (map fst t)) = map fst t"
    using assms by (intro sorted_list_of_set.idem_if_sorted_distinct)
      (simp_all add: stands_for_def table_ok_def strict_sorted_iff)
  ultimately show ?thesis by (simp add: spec_scan_def)
qed

section \<open>Refinement\<close>

definition represents :: "ledger \<Rightarrow> ledger_spec \<Rightarrow> bool" where
  "represents db m \<longleftrightarrow>
     stands_for decode_record (lg_inbound db) (sp_inbound m) \<and>
     stands_for decode_orphan (lg_quarantine db) (sp_quarantine m) \<and>
     stands_for Inr (lg_counter db) (sp_counter m)"

lemma decode_record_ok: "decode_record v = Inr r \<Longrightarrow> record_ok r"
  by (simp add: decode_record_def ok_or_eq_Inr take_record_iff)

lemma decode_encode_record: "record_ok r \<Longrightarrow> decode_record (encode_record r) = Inr r"
  by (simp add: decode_record_def ok_or_eq_Inr take_record_iff)

lemma decode_orphan_ok: "decode_orphan v = Inr r \<Longrightarrow> orphan_ok r"
  by (simp add: decode_orphan_def ok_or_eq_Inr take_orphan_iff)

lemma decode_encode_orphan: "orphan_ok r \<Longrightarrow> decode_orphan (encode_orphan r) = Inr r"
  by (simp add: decode_orphan_def ok_or_eq_Inr take_orphan_iff)

lemma represents_record:
  "represents db m \<Longrightarrow> record_ok r \<Longrightarrow>
   represents (db\<lparr>lg_inbound := table_insert k (encode_record r) (lg_inbound db)\<rparr>)
     (m\<lparr>sp_inbound := (sp_inbound m)(k \<mapsto> r)\<rparr>)"
  by (simp add: represents_def stands_for_insert decode_encode_record)

lemma represents_orphan:
  "represents db m \<Longrightarrow> orphan_ok r \<Longrightarrow>
   represents (db\<lparr>lg_quarantine := table_insert k (encode_orphan r) (lg_quarantine db)\<rparr>)
     (m\<lparr>sp_quarantine := (sp_quarantine m)(k \<mapsto> r)\<rparr>)"
  by (simp add: represents_def stands_for_insert decode_encode_orphan)

text \<open>A refined result: the same error, or a ledger that represents the abstract one.\<close>

definition refines :: "ledger_error + ledger \<Rightarrow> ledger_error + ledger_spec \<Rightarrow> bool" where
  "refines x y \<longleftrightarrow> rel_sum (=) represents x y"

lemma amend_refines:
  assumes "represents db m" and "\<And>r. record_ok r \<Longrightarrow> record_ok (change r)"
  shows "refines (amend None k change db) (spec_amend k change m)"
proof -
  have s: "stands_for decode_record (lg_inbound db) (sp_inbound m)" using assms(1) by (simp add: represents_def)
  show ?thesis
  proof (cases "sp_inbound m k")
    case None
    with stands_for_None [OF s None] show ?thesis
      by (simp add: amend_def transact_def spec_amend_def refines_def)
  next
    case (Some r)
    from stands_for_Some [OF s Some] obtain v where v: "map_of (lg_inbound db) k = Some v" "decode_record v = Inr r"
      by blast
    with Some represents_record [OF assms(1), of "change r" k] assms(2) decode_record_ok [OF v(2)] show ?thesis
      by (simp add: amend_def transact_def spec_amend_def refines_def)
  qed
qed

lemma orphan_call_refines:
  assumes "represents db m" and "record_ok r" and "orphan_ok (orphan_of r authentication payload objects notice)"
  shows "refines (stage_orphan None r authentication payload objects notice db)
    (spec_call m (CallOrphan r authentication payload objects notice))"
proof -
  have s: "stands_for decode_orphan (lg_quarantine db) (sp_quarantine m)" using assms(1) by (simp add: represents_def)
  show ?thesis
  proof (cases "sp_quarantine m (lr_inbound_id r)")
    case None
    from represents_orphan [OF represents_record [OF assms(1,2)] assms(3), of "lr_inbound_id r" "lr_inbound_id r"]
    show ?thesis using None stands_for_None [OF s None]
      by (simp add: stage_orphan_def transact_def refines_def Let_def)
  next
    case (Some x)
    from stands_for_Some [OF s Some] Some assms(1) show ?thesis
      by (auto simp: stage_orphan_def transact_def refines_def Let_def)
  qed
qed

lemma notice_call_refines:
  assumes "represents db m"
  shows "refines (mark_orphan_notice_published None k db) (spec_call m (CallNotice k))"
proof -
  have s: "stands_for decode_orphan (lg_quarantine db) (sp_quarantine m)" using assms by (simp add: represents_def)
  show ?thesis
  proof (cases "sp_quarantine m k")
    case None
    with stands_for_None [OF s None] show ?thesis
      by (simp add: mark_orphan_notice_published_def transact_def refines_def)
  next
    case (Some x)
    from stands_for_Some [OF s Some] obtain v where v: "map_of (lg_quarantine db) k = Some v" "decode_orphan v = Inr x"
      by blast
    have "orphan_ok (x\<lparr>or_notice_published := True\<rparr>)" if "or_notice x \<noteq> None"
      using decode_orphan_ok [OF v(2)] that by (auto simp: orphan_ok_def)
    with Some v represents_orphan [OF assms, of "x\<lparr>or_notice_published := True\<rparr>" k] show ?thesis
      by (simp add: mark_orphan_notice_published_def transact_def refines_def)
  qed
qed

lemma identity_call_refines:
  assumes "represents db m"
  shows "refines (ledger_step db (None, CallIdentity name)) (spec_call m (CallIdentity name))"
proof -
  have s: "stands_for Inr (lg_counter db) (sp_counter m)" using assms by (simp add: represents_def)
  have "represents (db\<lparr>lg_counter := table_insert name v (lg_counter db)\<rparr>)
      (m\<lparr>sp_counter := (sp_counter m)(name \<mapsto> v)\<rparr>)" for v
    using assms by (simp add: represents_def stands_for_insert)
  with s show ?thesis
    by (cases "sp_counter m name")
      (auto simp: next_identity_def transact_def refines_def dest: stands_for_None stands_for_Some)
qed

lemma ledger_step_refines:
  assumes "represents db m" and "call_ok (fault, call)"
  shows "refines (ledger_step db (fault, call)) (spec_step m (fault, call))"
proof (cases fault)
  case None
  show ?thesis
  proof (cases call)
    case (CallStage r)
    then show ?thesis using None assms represents_record by (simp add: stage_def transact_def refines_def)
  next
    case CallOrphan
    then show ?thesis using None assms orphan_call_refines by simp
  next
    case CallNotice
    then show ?thesis using None assms notice_call_refines by simp
  next
    case CallIdentity
    then show ?thesis using None assms identity_call_refines by simp
  qed (use None assms in \<open>auto simp: advance_def record_forward_def record_cleanup_def record_ok_def
      intro!: amend_refines\<close>)
next
  case (Some message)
  then show ?thesis
    by (cases call) (simp_all add: refines_def stage_def stage_orphan_def mark_orphan_notice_published_def advance_def
        record_forward_def record_cleanup_def amend_def next_identity_def transact_def)
qed

interpretation ledger_sim: guarded_simulation spec_step ledger_step represents call_ok
proof
  fix db m i e
  assume "represents db m" "call_ok i" "spec_step m i = Inl e"
  then show "ledger_step db i = Inl e"
    using ledger_step_refines [of db m "fst i" "snd i"] by (auto simp: refines_def elim: rel_sum.cases)
next
  fix db m i m'
  assume "represents db m" "call_ok i" "spec_step m i = Inr m'"
  then show "\<exists>db'. ledger_step db i = Inr db' \<and> represents db' m'"
    using ledger_step_refines [of db m "fst i" "snd i"] by (auto simp: refines_def elim: rel_sum.cases)
qed

text \<open>What the readers of the ledger return.\<close>

definition spec_open :: ledger_spec where
  "spec_open = \<lparr>sp_inbound = (\<lambda>_. None), sp_quarantine = (\<lambda>_. None), sp_counter = (\<lambda>_. None)\<rparr>"

lemma represents_open: "represents ledger_open spec_open"
  by (simp add: represents_def ledger_open_def spec_open_def stands_for_def table_ok_def)

lemma ledger_get_spec: "represents db m \<Longrightarrow> ledger_get None k db = Inr (sp_inbound m k)"
  by (simp add: represents_def ledger_get_def transact_def stands_for_lookup [of decode_record _ "sp_inbound m"]
      split: option.splits)

lemma ledger_orphan_spec: "represents db m \<Longrightarrow> ledger_orphan None k db = Inr (sp_quarantine m k)"
  by (simp add: represents_def ledger_orphan_def transact_def stands_for_lookup [of decode_orphan _ "sp_quarantine m"]
      split: option.splits)

lemma orphans_spec: "represents db m \<Longrightarrow> orphans None db = Inr (spec_scan (sp_quarantine m))"
  by (simp add: represents_def orphans_def transact_def stands_for_scan)

lemma select_records_spec:
  "represents db m \<Longrightarrow> select_records P None db = Inr (filter P (spec_scan (sp_inbound m)))"
  by (simp add: represents_def select_records_def transact_def stands_for_scan [of decode_record _ "sp_inbound m"])

text \<open>
  C7.  The ledger is a durable map of records.  Whatever calls are made on a new ledger, with arguments
  its formats can represent and with any failures of the database, each call answers as the call on
  the abstract ledger does, and afterwards every reader returns what the abstract ledger holds: a
  record or an orphan by its InboundID, the orphans and the unfinished records and the records that
  owe a cleanup in the order of their InboundIDs.  No reader reports a corrupt record.
\<close>

theorem ledger_refines:
  assumes "list_all call_ok calls" and "run_each spec_step spec_open calls = (m, results)"
  shows "\<exists>db. run_each ledger_step ledger_open calls = (db, results) \<and>
    ledger_get None k db = Inr (sp_inbound m k) \<and>
    ledger_orphan None k db = Inr (sp_quarantine m k) \<and>
    orphans None db = Inr (spec_scan (sp_quarantine m)) \<and>
    unfinished None db = Inr (filter (\<lambda>r. lr_state r \<in> {Staged, Published}) (spec_scan (sp_inbound m))) \<and>
    pending_cleanup None db = Inr (filter (\<lambda>r. lr_cleanup r \<noteq> []) (spec_scan (sp_inbound m)))"
proof -
  from ledger_sim.guarded_each [OF represents_open assms] obtain db where
    "run_each ledger_step ledger_open calls = (db, results)" and "represents db m" by blast
  then show ?thesis
    by (simp add: ledger_get_spec ledger_orphan_spec orphans_spec unfinished_def pending_cleanup_def select_records_spec)
qed

text \<open>
  C20.  The stored bytes are exact.  A stored record or orphan is read back exactly when it is the
  encoding of a value the format can represent; the only other bytes accepted are those of the older
  formats, which end before the cleanup list or before the notice and read back without them.
\<close>

theorem ledger_codec_exact:
  "(decode_record bs = Inr r \<longleftrightarrow>
      record_ok r \<and> (bs = encode_record r \<or> lr_cleanup r = [] \<and> bs = push_record_fields r)) \<and>
   (decode_orphan bs = Inr x \<longleftrightarrow>
      orphan_ok x \<and> (bs = encode_orphan x \<or> or_notice x = None \<and> bs = push_orphan_fields x))"
  by (simp add: decode_record_def decode_orphan_def ok_or_eq_Inr take_record_iff take_orphan_iff)

section \<open>Generated identities\<close>

lemma counter_monotone:
  assumes "ledger_step db (fault, call) = Inr db'" and "map_of (lg_counter db) name = Some v"
  shows "\<exists>w \<ge> v. map_of (lg_counter db') name = Some w"
proof (cases call)
  case (CallIdentity n)
  with assms u64_Suc [of v] show ?thesis
    by (auto simp: next_identity_def transact_def and_then_eq_Inr table_insert_map split: option.splits if_splits)
qed (use assms in \<open>auto simp: stage_def stage_orphan_def mark_orphan_notice_published_def advance_def Let_def
    record_forward_def record_cleanup_def amend_def transact_def and_then_eq_Inr split: option.splits if_splits\<close>)

lemma counter_monotone_run:
  "run_each ledger_step db calls = (db', rs) \<Longrightarrow> map_of (lg_counter db) name = Some v \<Longrightarrow>
   \<exists>w \<ge> v. map_of (lg_counter db') name = Some w"
proof (induction calls arbitrary: db v rs)
  case (Cons c calls)
  show ?case
  proof (cases "ledger_step db c")
    case (Inl e)
    with Cons.prems Cons.IH show ?thesis by (auto split: prod.splits)
  next
    case (Inr t)
    obtain u where "v \<le> u" "map_of (lg_counter t) name = Some u"
      using counter_monotone [of db "fst c" "snd c" t] Inr Cons.prems(2) by auto
    with Cons.prems(1) Inr Cons.IH [of t _ u] show ?thesis by (fastforce split: prod.splits)
  qed
qed simp

text \<open>
  C37.  Generated identities are never reused.  An identity drawn after any further calls on the ledger,
  failed or not, is greater than every identity drawn before under that name.
\<close>

theorem identities_fresh:
  assumes "next_identity fault name db = Inr (db1, v)"
    and "run_each ledger_step db1 calls = (db2, results)"
    and "next_identity fault' name db2 = Inr (db3, w)"
  shows "v < w"
proof -
  have "map_of (lg_counter db1) name = Some v"
    using assms(1) by (auto simp: next_identity_def transact_def table_insert_map split: option.splits if_splits)
  from counter_monotone_run [OF assms(2) this] obtain u where u: "v \<le> u" "map_of (lg_counter db2) name = Some u" by blast
  then have "u \<noteq> - 1 \<and> w = u + 1"
    using assms(3) by (auto simp: next_identity_def transact_def split: option.splits if_splits)
  then have "u < w" using u64_Suc by simp
  with u(1) show ?thesis by simp
qed

section \<open>A short history\<close>

definition sample_ledger_record :: ledger_record where
  "sample_ledger_record =
     \<lparr>lr_inbound_id = lit ''a'', lr_payload_hash = replicate 32 7, lr_state = Staged, lr_objects = [],
      lr_note = [], lr_claim_token = [], lr_distribution = [], lr_forward_job = [], lr_cleanup = [lit ''p'']\<rparr>"

definition sample_calls :: "(string option \<times> ledger_call) list" where
  "sample_calls =
     [(Some ''disk full'', CallStage sample_ledger_record), (None, CallStage sample_ledger_record),
      (None, CallAdvance (lit ''a'') Published), (None, CallNotice (lit ''a''))]"

lemma sample_calls_ok: "list_all call_ok sample_calls"
proof -
  have "valid_utf8 [] \<and> valid_utf8 (lit ''a'') \<and> valid_utf8 (lit ''p'')" by code_simp
  then show ?thesis
    by (simp add: sample_calls_def sample_ledger_record_def record_ok_def string_ok_def u32_max_def)
qed

theorem ledger_refines_witness:
  "\<exists>db. run_each ledger_step ledger_open sample_calls =
       (db, [Inl (Database ''disk full''), Inr (), Inr (), Inl CorruptRecord]) \<and>
     ledger_get None (lit ''a'') db = Inr (Some (sample_ledger_record\<lparr>lr_state := Published\<rparr>))"
proof -
  let ?m = "spec_open\<lparr>sp_inbound := [lit ''a'' \<mapsto> sample_ledger_record\<lparr>lr_state := Published\<rparr>]\<rparr>"
  have "run_each spec_step spec_open sample_calls =
      (?m, [Inl (Database ''disk full''), Inr (), Inr (), Inl CorruptRecord])"
    by (simp add: sample_calls_def sample_ledger_record_def spec_amend_def spec_open_def)
  from ledger_refines [OF sample_calls_ok this, of "lit ''a''"] show ?thesis by auto
qed

text \<open>Two identities, with a failed draw between them.\<close>

theorem identities_fresh_witness:
  "\<exists>db1 db2 db3 v w. next_identity None [] ledger_open = Inr (db1, v) \<and>
     run_each ledger_step db1 [(Some ''disk full'', CallIdentity [])] = (db2, [Inl (Database ''disk full'')]) \<and>
     next_identity None [] db2 = Inr (db3, w) \<and> v < w"
proof -
  let ?db = "ledger_open\<lparr>lg_counter := [([], 1)]\<rparr>"
  have one: "next_identity None [] ledger_open = Inr (?db, 1)"
    by (simp add: next_identity_def ledger_open_def transact_def table_insert_def)
  have failed: "run_each ledger_step ?db [(Some ''disk full'', CallIdentity [])] = (?db, [Inl (Database ''disk full'')])"
    by (simp add: next_identity_def transact_def)
  have two: "next_identity None [] ?db = Inr (ledger_open\<lparr>lg_counter := [([], 2)]\<rparr>, 2)"
    by (simp add: next_identity_def ledger_open_def transact_def table_insert_def)
  from identities_fresh [OF one failed two] one failed two show ?thesis by blast
qed

end
