(* ===== verification/Calendar.thy ===== *)
theory Calendar
  imports Decimal "HOL-Library.Signed_Division"
begin

text \<open>
  Civil dates and the legacy \<open>DateTime\<close> field (\<open>crates/tith-message-legacy/src/export.rs\<close>).  The
  \<open>i64\<close> arithmetic is on integers: no intermediate value leaves the \<open>i64\<close> range for an \<open>i64\<close> number
  of seconds.  Rust divides toward zero, which is \<open>sdiv\<close>; \<open>div_euclid\<close> and \<open>rem_euclid\<close> by a positive
  number are \<open>div\<close> and \<open>mod\<close>.
\<close>

section \<open>Dates\<close>

definition days_from_civil :: "int \<Rightarrow> int \<Rightarrow> int \<Rightarrow> int" where
  "days_from_civil year0 month day =
     (let year = year0 - (if month \<le> 2 then 1 else 0);
          era = (if 0 \<le> year then year else year - 399) sdiv 400;
          year_of_era = year - era * 400;
          day_of_year = (153 * (month + (if 2 < month then - 3 else 9)) + 2) sdiv 5 + day - 1;
          day_of_era = year_of_era * 365 + year_of_era sdiv 4 - year_of_era sdiv 100 + day_of_year in
      era * 146097 + day_of_era - 719468)"

text \<open>\<open>i32::try_from(year).unwrap_or(i32::MAX)\<close>\<close>

definition clamp_year :: "int \<Rightarrow> int" where
  "clamp_year y = (if - 2147483648 \<le> y \<and> y \<le> i32_max then y else i32_max)"

definition civil_parts :: "int \<Rightarrow> int \<times> int \<times> int" where
  "civil_parts days0 =
     (let days = days0 + 719468;
          era = (if 0 \<le> days then days else days - 146096) sdiv 146097;
          day_of_era = days - era * 146097;
          year_of_era = (day_of_era - day_of_era sdiv 1460 + day_of_era sdiv 36524 - day_of_era sdiv 146096) sdiv 365;
          year = year_of_era + era * 400;
          day_of_year = day_of_era - (365 * year_of_era + year_of_era sdiv 4 - year_of_era sdiv 100);
          month_prime = (5 * day_of_year + 2) sdiv 153;
          day = day_of_year - (153 * month_prime + 2) sdiv 5 + 1;
          month = month_prime + (if month_prime < 10 then 3 else - 9) in
      (clamp_year (year + (if month \<le> 2 then 1 else 0)), month, day))"

text \<open>\<open>ExportPanicked\<close> is no constructor of the source: it stands for a panic.\<close>

datatype export_error =
    TooLong string nat nat
  | Unrepresentable string
  | TimestampOutOfRange
  | MalformedDateTime
  | EndpointMismatch
  | ExportPanicked

text \<open>\<open>u32::try_from\<close>, with the error of an \<open>expect\<close> or of a \<open>map_err\<close>.\<close>

definition try_u32 :: "export_error \<Rightarrow> int \<Rightarrow> export_error + int" where
  "try_u32 e v = (if 0 \<le> v \<and> v < 4294967296 then Inr v else Inl e)"

definition civil_from_days :: "int \<Rightarrow> export_error + int \<times> int \<times> int" where
  "civil_from_days days =
     (case civil_parts days of (year, month, day) \<Rightarrow>
        and_then (try_u32 ExportPanicked month) (\<lambda>m.
        and_then (try_u32 ExportPanicked day) (\<lambda>d.
        Inr (year, m, d))))"

section \<open>The calendar\<close>

definition leap_year :: "int \<Rightarrow> bool" where
  "leap_year y \<longleftrightarrow> y mod 4 = 0 \<and> (y mod 100 \<noteq> 0 \<or> y mod 400 = 0)"

definition days_in_month :: "int \<Rightarrow> int \<Rightarrow> int" where
  "days_in_month y m =
     (if m = 2 then (if leap_year y then 29 else 28)
      else if m \<in> {4, 6, 9, 11} then 30 else 31)"

definition valid_date :: "int \<Rightarrow> int \<Rightarrow> int \<Rightarrow> bool" where
  "valid_date y m d \<longleftrightarrow> 1 \<le> m \<and> m \<le> 12 \<and> 1 \<le> d \<and> d \<le> days_in_month y m"

fun next_day :: "int \<times> int \<times> int \<Rightarrow> int \<times> int \<times> int" where
  "next_day (y, m, d) =
     (if d < days_in_month y m then (y, m, d + 1)
      else if m < 12 then (y, m + 1, 1) else (y + 1, 1, 1))"

text \<open>Division toward zero of a shifted negative number is division toward minus infinity.\<close>

lemma sdiv_nonneg: "0 \<le> (a :: int) \<Longrightarrow> 0 < b \<Longrightarrow> a sdiv b = a div b"
  by (cases "a = 0") (simp_all add: signed_divide_int_def sgn_if)

lemma era_div: "0 < (b :: int) \<Longrightarrow> (if 0 \<le> a then a else a - (b - 1)) sdiv b = a div b"
proof (cases "0 \<le> a")
  case False
  assume b: "0 < b"
  define q where "q = (- a + (b - 1)) div b"
  define r where "r = (- a + (b - 1)) mod b"
  have "- a + (b - 1) = b * q + r" "0 \<le> r" "r < b" using b by (simp_all add: q_def r_def)
  then have "a = b * (- q) + (b - 1 - r)" by (simp add: algebra_simps)
  moreover have "0 \<le> b - 1 - r" "b - 1 - r < b" using \<open>0 \<le> r\<close> \<open>r < b\<close> by simp_all
  ultimately have "a div b = - q" by (metis int_div_pos_eq)
  moreover have "(a - (b - 1)) sdiv b = - q"
    using False b by (simp add: signed_divide_int_def q_def sgn_if)
  ultimately show ?thesis using False by simp
qed (simp add: sdiv_nonneg)

text \<open>The year of an era that a day belongs to: the years of an era start in March.\<close>

definition era_year_start :: "int \<Rightarrow> int" where
  "era_year_start y = 365 * y + y div 4 - y div 100"

lemma era_year_of_day:
  assumes "0 \<le> y" "y < 400" "0 \<le> doy" "doy < 365 + (if (y + 1) mod 4 = 0 \<and> ((y + 1) mod 100 \<noteq> 0 \<or> y + 1 = 400) then 1 else 0)"
  defines "doe \<equiv> era_year_start y + doy"
  shows "(doe - doe div 1460 + doe div 36524 - doe div 146096) div 365 = y"
proof -
  define c where "c = y div 100"
  define q where "q = y mod 100 div 4"
  define s where "s = y mod 4"
  have y: "y = 100 * c + (4 * q + s)" and b: "0 \<le> c" "c \<le> 3" "0 \<le> q" "q \<le> 24" "0 \<le> s" "s \<le> 3"
  proof -
    have "y mod 100 mod 4 = s" by (simp add: s_def mod_mod_cancel)
    then show "y = 100 * c + (4 * q + s)" by (metis c_def q_def mult_div_mod_eq)
  qed (use assms(1,2) in \<open>auto simp: c_def q_def s_def\<close>)
  have "y = 4 * (25 * c + q) + s" using y by simp
  then have "y div 4 = 25 * c + q" "(y + 1) mod 4 = (s + 1) mod 4" using b by (simp, metis add.assoc mod_mult_self4)
  then have doe: "doe = 36524 * c + 1461 * q + 365 * s + doy"
    unfolding doe_def era_year_start_def c_def [symmetric] using y by linarith
  have lim: "doy \<le> 364 \<or> doy = 365 \<and> s = 3 \<and> (q = 24 \<longrightarrow> c = 3)"
  proof (cases "doy \<le> 364")
    case False
    with assms(4) have d: "doy = 365" "(y + 1) mod 4 = 0" "(y + 1) mod 100 \<noteq> 0 \<or> y + 1 = 400"
      by (auto split: if_splits)
    have "s = 0 \<or> s = 1 \<or> s = 2 \<or> s = 3" using b by auto
    with d(2) \<open>(y + 1) mod 4 = (s + 1) mod 4\<close> have "s = 3" by auto
    moreover have "y + 1 = 100 * (c + 1)" if "q = 24" using y that \<open>s = 3\<close> by simp
    ultimately show ?thesis using d by auto
  qed simp
  define t where "t = 24 * c + q + 365 * s + doy"
  have t: "0 \<le> t" "t < 2920" using b lim assms(3) by (auto simp: t_def)
  have "doe = 1460 * (25 * c + q) + t" by (simp add: doe t_def)
  moreover have "t div 1460 = (if 1460 \<le> t then 1 else 0)" using t by auto
  ultimately have d1: "doe div 1460 = 25 * c + q + (if 1460 \<le> t then 1 else 0)" by simp
  define u where "u = 1461 * q + 365 * s + doy"
  have u: "0 \<le> u" "u < 36524 \<or> u = 36524 \<and> c = 3" using b lim assms(3) by (auto simp: u_def)
  have "doe = 36524 * c + u" by (simp add: doe u_def)
  then have "doe div 36524 - doe div 146096 = c" using u b by auto
  with d1 have "doe - doe div 1460 + doe div 36524 - doe div 146096 = 365 * y + (doy - (if 1460 \<le> t then 1 else 0))"
    using doe y by (simp add: algebra_simps)
  moreover have "0 \<le> doy - (if 1460 \<le> t then 1 else 0)" "doy - (if 1460 \<le> t then 1 else 0) < 365"
    using b lim assms(3) by (auto simp: t_def)
  ultimately show ?thesis by (simp add: int_div_pos_eq)
qed

text \<open>
  The days of a year that starts in March: month \<open>p\<close> counted from March starts at day
  \<open>(153 p + 2) div 5\<close>, and February comes last.
\<close>

lemma month_prime_of_day:
  fixes p d :: int
  assumes "0 \<le> p" "p \<le> 11" "0 \<le> d" "(153 * p + 2) div 5 + d < (153 * (p + 1) + 2) div 5"
  shows "(5 * ((153 * p + 2) div 5 + d) + 2) div 153 = p"
proof -
  have "p = 0 \<or> p = 1 \<or> p = 2 \<or> p = 3 \<or> p = 4 \<or> p = 5 \<or> p = 6 \<or> p = 7 \<or> p = 8 \<or> p = 9 \<or> p = 10 \<or> p = 11"
    using assms(1,2) by presburger
  then show ?thesis using assms(3,4) by (elim disjE) auto
qed

text \<open>A date by the era, the year of the era and the month counted from March.\<close>

definition march_date :: "int \<Rightarrow> int \<Rightarrow> int \<Rightarrow> int \<Rightarrow> int \<times> int \<times> int" where
  "march_date era y p d =
     (let m = p + (if p < 10 then 3 else - 9) in (400 * era + y + (if m \<le> 2 then 1 else 0), m, d + 1))"

definition march_ok :: "int \<Rightarrow> int \<Rightarrow> int \<Rightarrow> bool" where
  "march_ok y p d \<longleftrightarrow>
     0 \<le> y \<and> y < 400 \<and> 0 \<le> p \<and> p \<le> 11 \<and> 0 \<le> d \<and>
     (if p = 11 then d < (if leap_year (y + 1) then 29 else 28)
      else (153 * p + 2) div 5 + d < (153 * (p + 1) + 2) div 5)"

definition march_days :: "int \<Rightarrow> int \<Rightarrow> int \<Rightarrow> int \<Rightarrow> int" where
  "march_days era y p d = era * 146097 + era_year_start y + (153 * p + 2) div 5 + d - 719468"

lemma civil_from_march:
  assumes "march_ok y p d"
  shows "civil_parts (march_days era y p d) =
    (case march_date era y p d of (y', m, d') \<Rightarrow> (clamp_year y', m, d'))"
proof -
  define doy where "doy = (153 * p + 2) div 5 + d"
  define doe where "doe = era_year_start y + doy"
  have y: "0 \<le> y" "y < 400" and p: "0 \<le> p" "p \<le> 11" and d: "0 \<le> d" using assms by (simp_all add: march_ok_def)
  have "400 dvd y + 1 \<longleftrightarrow> y + 1 = 400" using y zdvd_imp_le [of 400 "y + 1"] by auto
  then have leap: "leap_year (y + 1) \<longleftrightarrow> (y + 1) mod 4 = 0 \<and> ((y + 1) mod 100 \<noteq> 0 \<or> y + 1 = 400)"
    by (auto simp: leap_year_def)
  have doy: "0 \<le> doy" "doy < 365 + (if leap_year (y + 1) then 1 else 0)"
  proof -
    have "doy < (153 * (p + 1) + 2) div 5" if "p \<noteq> 11" using assms that by (simp add: march_ok_def doy_def)
    moreover have "(153 * (p + 1) + 2) div 5 \<le> 337" if "p \<noteq> 11" using p that by simp
    ultimately show "doy < 365 + (if leap_year (y + 1) then 1 else 0)"
      using assms by (cases "p = 11") (auto simp: march_ok_def doy_def split: if_splits)
  qed (use p d in \<open>simp add: doy_def\<close>)
  have doe: "0 \<le> doe" "doe < 146097"
    using y doy by (auto simp: doe_def era_year_start_def split: if_splits)
  have m: "(5 * doy + 2) div 153 = p"
  proof -
    have "doy < (153 * (p + 1) + 2) div 5"
      using assms by (cases "p = 11") (auto simp: march_ok_def doy_def split: if_splits)
    then show ?thesis using month_prime_of_day [OF p d] by (simp add: doy_def)
  qed
  have year: "(doe - doe div 1460 + doe div 36524 - doe div 146096) div 365 = y"
    unfolding doe_def using era_year_of_day [OF y doy(1)] doy(2) leap by simp
  define n where "n = march_days era y p d + 719468"
  have n: "n = era * 146097 + doe" by (simp add: n_def march_days_def doe_def doy_def)
  have "n div 146097 = era" using doe n by simp
  with era_div [of 146097 n] have era: "(if 0 \<le> n then n else n - 146096) sdiv 146097 = era"
    by (cases "0 \<le> n") auto
  have rest: "n - era * 146097 = doe" using n by simp
  let ?x = "doe - doe div 1460 + doe div 36524 - doe div 146096"
  have "0 \<le> ?x" using year y(1) pos_imp_zdiv_nonneg_iff [of 365 ?x] by simp
  then have yoe: "(doe - doe sdiv 1460 + doe sdiv 36524 - doe sdiv 146096) sdiv 365 = y"
    using year by (simp only: sdiv_nonneg [OF doe(1)] sdiv_nonneg zero_less_numeral)
  have doy': "doe - (365 * y + y sdiv 4 - y sdiv 100) = doy"
    by (simp only: sdiv_nonneg [OF y(1)] zero_less_numeral doe_def era_year_start_def add_diff_cancel_left')
  have month: "(5 * doy + 2) sdiv 153 = p" "(153 * p + 2) sdiv 5 = (153 * p + 2) div 5"
    using m doy(1) p(1) by (simp_all add: sdiv_nonneg)
  have "doy - (153 * p + 2) div 5 = d" by (simp add: doy_def)
  then show ?thesis
    unfolding civil_parts_def Let_def n_def [symmetric] era rest yoe doy' month march_date_def
    by (simp add: algebra_simps)
qed

text \<open>The length of a month, counted from March.\<close>

lemma march_months:
  fixes p :: int
  assumes "0 \<le> p" "p \<le> 11"
  shows "p = 0 \<or> p = 1 \<or> p = 2 \<or> p = 3 \<or> p = 4 \<or> p = 5 \<or> p = 6 \<or> p = 7 \<or> p = 8 \<or> p = 9 \<or> p = 10 \<or> p = 11"
  using assms by presburger

lemma march_month_length:
  assumes "0 \<le> p" "p \<le> 11" and "march_date era y p d = (y', m, d')"
  shows "days_in_month y' m =
    (if p = 11 then if leap_year (y + 1) then 29 else 28 else (153 * (p + 1) + 2) div 5 - (153 * p + 2) div 5)"
proof -
  have "(400 * era + y + 1) mod 4 = (y + 1) mod 4" "(400 * era + y + 1) mod 100 = (y + 1) mod 100"
    "(400 * era + y + 1) mod 400 = (y + 1) mod 400"
    using mod_mult_self4 [of 4 "100 * era" "y + 1"] mod_mult_self4 [of 100 "4 * era" "y + 1"]
      mod_mult_self4 [of 400 era "y + 1"] by (simp_all add: add.assoc)
  then have "leap_year (400 * era + y + 1) = leap_year (y + 1)" by (simp add: leap_year_def)
  with march_months [OF assms(1,2)] assms(3) show ?thesis
    by (elim disjE) (auto simp: march_date_def days_in_month_def)
qed

lemma march_ok_iff:
  assumes "march_date era y p d = (y', m, d')"
  shows "march_ok y p d \<longleftrightarrow> 0 \<le> y \<and> y < 400 \<and> 0 \<le> p \<and> p \<le> 11 \<and> 0 \<le> d \<and> d' \<le> days_in_month y' m"
  using assms march_month_length [OF _ _ assms]
  by (auto simp: march_ok_def march_date_def Let_def split: if_splits)

lemma int_div_Suc:
  fixes n :: int
  assumes "0 < n"
  shows "(a + 1) div n = a div n + (if n dvd a + 1 then 1 else 0)"
proof -
  define q r where "q = a div n" and "r = a mod n"
  have a: "a + 1 = n * q + (r + 1)" and r: "0 \<le> r" "r < n" using assms by (simp_all add: q_def r_def)
  show ?thesis
  proof (cases "r + 1 = n")
    case True
    then have "a + 1 = n * (q + 1)" using a by (simp add: algebra_simps)
    then show ?thesis using assms by (simp add: q_def)
  next
    case False
    then have "(a + 1) div n = q" using r by (intro int_div_pos_eq [OF a]) auto
    moreover have "\<not> n dvd a + 1"
    proof
      assume "n dvd a + 1"
      then have "n dvd r + 1" using a by (simp add: dvd_add_right_iff)
      with False r show False using zdvd_imp_le [of n "r + 1"] by simp
    qed
    ultimately show ?thesis by (simp add: q_def)
  qed
qed

lemma era_year_step:
  assumes "0 \<le> y" "y < 400"
  shows "era_year_start (y + 1) + (if y = 399 then 1 else 0) = era_year_start y + 365 + (if leap_year (y + 1) then 1 else 0)"
proof -
  have "400 dvd y + 1 \<longleftrightarrow> y = 399" using assms zdvd_imp_le [of 400 "y + 1"] by auto
  moreover have "100 dvd y + 1 \<longrightarrow> 4 dvd y + 1" using dvd_trans [of 4 100 "y + 1"] by simp
  ultimately show ?thesis
    by (auto simp: era_year_start_def leap_year_def int_div_Suc [of 4] int_div_Suc [of 100] mod_eq_0_iff_dvd)
qed

lemma march_succ:
  assumes "march_ok y p d"
  shows "\<exists>era' y' p' d'. march_ok y' p' d' \<and> march_days era' y' p' d' = march_days era y p d + 1 \<and>
    march_date era' y' p' d' = next_day (march_date era y p d)"
proof -
  obtain y1 m1 d1 where date: "march_date era y p d = (y1, m1, d1)" by (metis prod_cases3)
  have ok: "0 \<le> y" "y < 400" "0 \<le> p" "p \<le> 11" "0 \<le> d" "d1 \<le> days_in_month y1 m1"
    using assms march_ok_iff [OF date] by simp_all
  note len = march_month_length [OF ok(3,4) date]
  have d1: "d1 = d + 1" using date by (auto simp: march_date_def Let_def)
  consider (day) "d1 < days_in_month y1 m1" | (month) "d1 = days_in_month y1 m1" "p < 11"
    | (year) "d1 = days_in_month y1 m1" "p = 11" "y < 399" | (era) "d1 = days_in_month y1 m1" "p = 11" "y = 399"
    using ok by linarith
  then show ?thesis
  proof cases
    case day
    have next': "march_date era y p (d + 1) = (y1, m1, d1 + 1)" using date by (auto simp: march_date_def Let_def)
    then have "march_ok y p (d + 1)" using march_ok_iff [OF next'] ok day by simp
    with next' day date show ?thesis by (intro exI [of _ era] exI [of _ y] exI [of _ p] exI [of _ "d + 1"])
        (auto simp: march_days_def)
  next
    case month
    have "march_ok y (p + 1) 0"
      using ok month march_months [OF ok(3,4)] by (elim disjE) (auto simp: march_ok_def)
    moreover have "march_date era y (p + 1) 0 = next_day (march_date era y p d)"
      using month date march_months [OF ok(3,4)] by (elim disjE) (auto simp: march_date_def)
    moreover have "march_days era y (p + 1) 0 = march_days era y p d + 1"
      using month len d1 by (simp add: march_days_def)
    ultimately show ?thesis by blast
  next
    case year
    have "march_ok (y + 1) 0 0" using ok year by (simp add: march_ok_def)
    moreover have "march_date era (y + 1) 0 0 = next_day (march_date era y p d)"
      using year date by (auto simp: march_date_def)
    moreover have "march_days era (y + 1) 0 0 = march_days era y p d + 1"
      using year len d1 era_year_step [OF ok(1,2)] by (auto simp: march_days_def split: if_splits)
    ultimately show ?thesis by blast
  next
    case era
    have "march_ok 0 0 0" by (simp add: march_ok_def)
    moreover have "march_date (era + 1) 0 0 0 = next_day (march_date era y p d)"
      using era date by (auto simp: march_date_def)
    moreover have "march_days (era + 1) 0 0 0 = march_days era y p d + 1"
      using era len d1 by (simp add: march_days_def era_year_start_def leap_year_def)
    ultimately show ?thesis by blast
  qed
qed

lemma march_cover: "\<exists>era y p d. march_ok y p d \<and> n = march_days era y p d"
proof -
  define era where "era = (n + 719468) div 146097"
  have reach: "\<exists>era' y p d. march_ok y p d \<and> march_days era 0 0 0 + int k = march_days era' y p d" for k
  proof (induction k)
    case 0
    have "march_ok 0 0 0" by (simp add: march_ok_def)
    then show ?case by auto
  next
    case (Suc k)
    then obtain era' y p d where "march_ok y p d" and k: "march_days era 0 0 0 + int k = march_days era' y p d" by blast
    with march_succ [of y p d era'] obtain era1 y1 p1 d1 where
      "march_ok y1 p1 d1" "march_days era1 y1 p1 d1 = march_days era' y p d + 1" by blast
    moreover from this k have "march_days era 0 0 0 + int (Suc k) = march_days era1 y1 p1 d1" by simp
    ultimately show ?case by blast
  qed
  have "era * 146097 + (n + 719468) mod 146097 = n + 719468" by (simp add: era_def)
  then have "march_days era 0 0 0 + int (nat ((n + 719468) mod 146097)) = n"
    by (simp add: march_days_def era_year_start_def)
  then show ?thesis using reach [of "nat ((n + 719468) mod 146097)"] by simp
qed

lemma days_from_march:
  assumes "march_ok y p d" and "march_date era y p d = (y', m, d')"
  shows "days_from_civil y' m d' = march_days era y p d"
proof -
  have ok: "0 \<le> y" "y < 400" "0 \<le> p" "p \<le> 11" using assms(1) by (simp_all add: march_ok_def)
  have year: "y' - (if m \<le> 2 then 1 else 0) = 400 * era + y" and month: "m + (if 2 < m then - 3 else 9) = p"
    and d': "d' = d + 1" using assms(2) ok(3,4) by (auto simp: march_date_def Let_def split: if_splits)
  have "(400 * era + y) div 400 = era" using ok by simp
  with era_div [of 400 "400 * era + y"]
  have era: "(if 0 \<le> 400 * era + y then 400 * era + y else 400 * era + y - 399) sdiv 400 = era"
    by (cases "0 \<le> 400 * era + y") auto
  have rest: "400 * era + y - era * 400 = y" by simp
  show ?thesis
    unfolding days_from_civil_def Let_def year month era rest d' march_days_def era_year_start_def
    using ok by (simp add: sdiv_nonneg)
qed

lemma march_of_date:
  assumes "valid_date y m d"
  shows "\<exists>era y0 p d0. march_ok y0 p d0 \<and> march_date era y0 p d0 = (y, m, d)"
proof -
  define y1 where "y1 = y - (if m \<le> 2 then 1 else 0)"
  define p where "p = (if 2 < m then m - 3 else m + 9)"
  have "march_date (y1 div 400) (y1 mod 400) p (d - 1) = (y, m, d)"
    using assms by (auto simp: march_date_def valid_date_def y1_def p_def)
  moreover from march_ok_iff [OF this] have "march_ok (y1 mod 400) p (d - 1)"
    using assms by (auto simp: valid_date_def p_def)
  ultimately show ?thesis by blast
qed

lemma march_valid:
  assumes "march_ok y p d" and "march_date era y p d = (y', m, d')"
  shows "valid_date y' m d'"
  using assms march_ok_iff [OF assms(2)] by (auto simp: valid_date_def march_date_def Let_def split: if_splits)

text \<open>The years that an \<open>i32\<close> can hold are those of at least this many days around the epoch.\<close>

definition day_count :: "int \<Rightarrow> bool" where
  "day_count n \<longleftrightarrow> - 100000000000 \<le> n \<and> n \<le> 100000000000"

lemma march_year_range:
  assumes "march_ok y p d" and "day_count (march_days era y p d)" and "march_date era y p d = (y', m, d')"
  shows "clamp_year y' = y'"
proof -
  have "0 \<le> y" "y < 400" "0 \<le> p" "p \<le> 11" "0 \<le> d" "d < 367" "0 \<le> era_year_start y" "era_year_start y < 146097"
    using assms(1) by (auto simp: march_ok_def era_year_start_def split: if_splits)
  then have "- 700000 \<le> era" "era \<le> 700000" using assms(2) by (auto simp: day_count_def march_days_def)
  with \<open>0 \<le> y\<close> \<open>y < 400\<close> show ?thesis
    using assms(3) by (auto simp: march_date_def Let_def clamp_year_def i32_max_def split: if_splits)
qed

lemma days_in_month_le: "days_in_month y m \<le> 31"
  by (simp add: days_in_month_def)

lemma civil_march:
  assumes "march_ok y p d" and "day_count (march_days era y p d)"
  shows "civil_from_days (march_days era y p d) = Inr (march_date era y p d)"
proof -
  obtain y' m d' where date: "march_date era y p d = (y', m, d')" by (metis prod_cases3)
  with march_valid [OF assms(1) date] days_in_month_le [of y' m]
    civil_from_march [OF assms(1)] march_year_range [OF assms date]
  show ?thesis by (simp add: civil_from_days_def try_u32_def valid_date_def)
qed

text \<open>
  C18.  The dates are those of the Gregorian calendar.  Day zero is 1 January 1970, the date of each
  following day is the next day of the calendar, no expectation fails, and counting the days of a
  date is the inverse in both directions.
\<close>

theorem civil_dates_exact:
  assumes "day_count n" and "day_count (n + 1)"
  shows "civil_from_days 0 = Inr (1970, 1, 1) \<and>
    (\<exists>y m d. civil_from_days n = Inr (y, m, d) \<and> valid_date y m d \<and> days_from_civil y m d = n \<and>
       civil_from_days (n + 1) = Inr (next_day (y, m, d)) \<and>
       (valid_date y' m' d' \<and> days_from_civil y' m' d' = n \<longrightarrow> (y', m', d') = (y, m, d)))"
proof -
  obtain era y0 p d0 where ok: "march_ok y0 p d0" and n: "n = march_days era y0 p d0" using march_cover by blast
  obtain y m d where date: "march_date era y0 p d0 = (y, m, d)" by (metis prod_cases3)
  from march_succ [OF ok, of era] obtain era1 y1 p1 d1 where
    "march_ok y1 p1 d1" "march_days era1 y1 p1 d1 = n + 1" "march_date era1 y1 p1 d1 = next_day (y, m, d)"
    unfolding n date by blast
  then have "civil_from_days (n + 1) = Inr (next_day (y, m, d))"
    using civil_march [of y1 p1 d1 era1] assms(2) by simp
  moreover have "(y', m', d') = (y, m, d)" if "valid_date y' m' d'" "days_from_civil y' m' d' = n"
  proof -
    from march_of_date [OF that(1)] obtain e2 y2 p2 d2 where
      "march_ok y2 p2 d2" "march_date e2 y2 p2 d2 = (y', m', d')" by blast
    then have "civil_from_days n = Inr (y', m', d')"
      using days_from_march that(2) civil_march [of y2 p2 d2 e2] assms(1) by simp
    then show ?thesis using civil_march [OF ok] assms(1) n date by simp
  qed
  moreover have "civil_from_days 0 = Inr (1970, 1, 1)" by code_simp
  ultimately show ?thesis
    using civil_march [OF ok] assms(1) n date march_valid [OF ok date] days_from_march [OF ok date] by auto
qed

theorem civil_dates_exact_witness:
  "civil_from_days 0 = Inr (1970, 1, 1) \<and>
   (\<exists>y m d. civil_from_days 11016 = Inr (y, m, d) \<and> civil_from_days 11017 = Inr (next_day (y, m, d)) \<and>
      (valid_date 2000 2 29 \<and> days_from_civil 2000 2 29 = 11016 \<longrightarrow> (2000, 2, 29) = (y, m, d)))"
proof -
  have "day_count 11016" "day_count (11016 + 1)" by (simp_all add: day_count_def)
  from civil_dates_exact [OF this, of 2000 2 29] show ?thesis by (auto simp del: next_day.simps)
qed

section \<open>Date and time fields\<close>

record civil_time =
  ct_year :: int
  ct_month :: int
  ct_day :: int
  ct_hour :: int
  ct_minute :: int
  ct_second :: int

definition civil_from_local :: "int \<Rightarrow> export_error + civil_time" where
  "civil_from_local local_seconds =
     (let days = local_seconds div 86400; within = local_seconds mod 86400 in
      and_then (civil_from_days days) (\<lambda>(year, month, day).
      and_then (try_u32 TimestampOutOfRange (within div 3600)) (\<lambda>hour.
      and_then (try_u32 TimestampOutOfRange (within div 60 mod 60)) (\<lambda>minute.
      and_then (try_u32 TimestampOutOfRange (within mod 60)) (\<lambda>second.
      Inr \<lparr>ct_year = year, ct_month = month, ct_day = day, ct_hour = hour, ct_minute = minute,
           ct_second = second\<rparr>)))))"

definition MONTHS :: "str list" where
  "MONTHS = map lit
     [''Jan'', ''Feb'', ''Mar'', ''Apr'', ''May'', ''Jun'', ''Jul'', ''Aug'', ''Sep'', ''Oct'', ''Nov'', ''Dec'']"

text \<open>The format \<open>{:02}\<close> of a number that is not negative.\<close>

definition pad2 :: "int \<Rightarrow> str" where
  "pad2 v = (if v < 10 then 48 # show_nat (nat v) else show_nat (nat v))"

definition format_date_time :: "int \<Rightarrow> export_error + str" where
  "format_date_time local_seconds =
     and_then (civil_from_local local_seconds) (\<lambda>time.
     if \<not> (1970 \<le> ct_year time \<and> ct_year time \<le> 2069) then Inl TimestampOutOfRange
     else if \<not> (1 \<le> ct_month time \<and> ct_month time \<le> 12) then Inl ExportPanicked
     else Inr (pad2 (ct_day time) @ [32] @ MONTHS ! nat (ct_month time - 1) @ [32] @ pad2 (ct_year time mod 100) @
       [32, 32] @ pad2 (ct_hour time) @ [58] @ pad2 (ct_minute time) @ [58] @ pad2 (ct_second time)))"

text \<open>\<open>&value[i..j]\<close>, which panics unless both ends are character boundaries within the string.\<close>

definition char_boundary :: "str \<Rightarrow> nat \<Rightarrow> bool" where
  "char_boundary v i \<longleftrightarrow> i = length v \<or> i < length v \<and> \<not> utf8_cont (v ! i)"

definition str_slice :: "str \<Rightarrow> nat \<Rightarrow> nat \<Rightarrow> export_error + str" where
  "str_slice v i j =
     (if i \<le> j \<and> char_boundary v i \<and> char_boundary v j then Inr (take (j - i) (drop i v)) else Inl ExportPanicked)"

definition date_number :: "str \<Rightarrow> export_error + int" where
  "date_number t =
     (if list_all is_digit t \<and> t \<noteq> [] \<and> digits_value t < 4294967296 then Inr (int (digits_value t))
      else Inl MalformedDateTime)"

definition parse_date_time :: "str \<Rightarrow> export_error + int" where
  "parse_date_time v =
     (if length v \<noteq> 19 \<or> v ! 2 \<noteq> 32 \<or> v ! 6 \<noteq> 32 then Inl MalformedDateTime
      else and_then (str_slice v 9 11) (\<lambda>gap.
      if gap \<noteq> [32, 32] \<or> v ! 13 \<noteq> 58 \<or> v ! 16 \<noteq> 58 then Inl MalformedDateTime
      else and_then (str_slice v 0 2) (\<lambda>day_text. and_then (date_number day_text) (\<lambda>day.
      and_then (str_slice v 3 6) (\<lambda>name.
      and_then (ok_or MalformedDateTime (position (\<lambda>m. m = name) MONTHS)) (\<lambda>index.
      let month = int index + 1 in
      and_then (str_slice v 7 9) (\<lambda>year_text. and_then (date_number year_text) (\<lambda>two_digit_year.
      let year = (if 70 \<le> two_digit_year then 1900 + two_digit_year else 2000 + two_digit_year) in
      and_then (str_slice v 11 13) (\<lambda>hour_text. and_then (date_number hour_text) (\<lambda>hour.
      and_then (str_slice v 14 16) (\<lambda>minute_text. and_then (date_number minute_text) (\<lambda>minute.
      and_then (str_slice v 17 19) (\<lambda>second_text. and_then (date_number second_text) (\<lambda>second.
      if day = 0 \<or> 23 < hour \<or> 59 < minute \<or> 59 < second then Inl MalformedDateTime
      else let days = days_from_civil year month day in
        and_then (civil_from_days days) (\<lambda>date.
        if date \<noteq> (year, month, day) then Inl MalformedDateTime
        else Inr (days * 86400 + hour * 3600 + minute * 60 + second))))))))))))))))"

section \<open>The fields are exact\<close>

lemma digit_eq: "is_digit b \<Longrightarrow> 48 + of_nat (unat b - 48) = b"
  by (simp add: is_digit_def)

lemma pad2_digits:
  assumes "0 \<le> v" "v < 100"
  shows "pad2 v = [48 + of_nat (nat v div 10), 48 + of_nat (nat v mod 10)]"
proof -
  have n: "nat v < 100" using assms by simp
  show ?thesis
  proof (cases "v < 10")
    case True
    then show ?thesis using assms by (simp add: pad2_def show_nat.simps [of "nat v"])
  next
    case False
    then have "nat v div 10 < 10" "\<not> nat v < 10" using n by auto
    then show ?thesis using False by (simp add: pad2_def show_nat.simps [of "nat v"] show_nat.simps [of "nat v div 10"])
  qed
qed

lemma digits_value_two: "digits_value [a, b] = (unat a - 48) * 10 + (unat b - 48)"
  by (simp add: digits_value_def)

lemma pad2_read:
  assumes "is_digit a" "is_digit b"
  shows "pad2 (int (digits_value [a, b])) = [a, b]" "digits_value [a, b] < 100"
proof -
  have r: "unat a - 48 < 10" "unat b - 48 < 10" using assms by (auto simp: is_digit_def)
  then show "digits_value [a, b] < 100" by (simp add: digits_value_two)
  moreover have "digits_value [a, b] div 10 = unat a - 48" "digits_value [a, b] mod 10 = unat b - 48"
    using r by (simp_all add: digits_value_two)
  ultimately show "pad2 (int (digits_value [a, b])) = [a, b]"
    using assms by (simp add: pad2_digits digit_eq)
qed

lemma date_number_pad2: "0 \<le> v \<Longrightarrow> v < 100 \<Longrightarrow> date_number (pad2 v) = Inr v"
proof -
  assume v: "0 \<le> v" "v < 100"
  have "nat v div 10 < 10" "nat v mod 10 \<le> 9" "nat v < 4294967296" using v by linarith+
  with v unat_digit [of "nat v div 10"] unat_digit [of "nat v mod 10"] show ?thesis
    by (auto simp: date_number_def pad2_digits is_digit_def digits_value_two)
qed

lemma pad2_split:
  assumes "0 \<le> v" "v < 100"
  shows "\<exists>a b. pad2 v = [a, b] \<and> is_digit a \<and> is_digit b \<and> int (digits_value [a, b]) = v"
proof -
  obtain a b where p: "pad2 v = [a, b]" using pad2_digits [OF assms] by simp
  with date_number_pad2 [OF assms] show ?thesis by (auto simp: date_number_def split: if_splits)
qed

lemma civil_year_range:
  assumes "civil_from_days n = Inr (y, m, d)" and "1970 \<le> y" "y \<le> 2069"
  shows "valid_date y m d \<and> days_from_civil y m d = n"
proof -
  obtain era y0 p d0 where ok: "march_ok y0 p d0" and n: "n = march_days era y0 p d0" using march_cover by blast
  obtain y1 m1 d1 where date: "march_date era y0 p d0 = (y1, m1, d1)" by (metis prod_cases3)
  have "y = clamp_year y1" "m = m1" "d = d1"
    using assms(1) civil_from_march [OF ok, of era] date n
    by (auto simp: civil_from_days_def try_u32_def and_then_eq_Inr split: if_splits)
  moreover from this assms(2,3) have "clamp_year y1 = y1" by (simp add: clamp_year_def i32_max_def split: if_splits)
  ultimately show ?thesis using march_valid [OF ok date] days_from_march [OF ok date] n by simp
qed

lemma MONTHS_distinct: "distinct MONTHS" and MONTHS_length: "length MONTHS = 12"
  by (simp_all add: MONTHS_def)

lemma MONTHS_letters: "i < 12 \<Longrightarrow> \<exists>a b c. MONTHS ! i = [a, b, c] \<and> \<not> utf8_cont a"
proof -
  have "list_all (\<lambda>s. \<exists>a b c. s = [a, b, c] \<and> \<not> utf8_cont a) MONTHS" by (simp add: MONTHS_def utf8_cont_def)
  then show "i < 12 \<Longrightarrow> ?thesis" by (simp add: list_all_length MONTHS_length)
qed

lemma local_time:
  fixes days :: int
  assumes "0 \<le> h" "h \<le> 23" "0 \<le> m" "m \<le> 59" "0 \<le> s" "s \<le> 59"
  shows "(days * 86400 + h * 3600 + m * 60 + s) div 86400 = days"
    "(days * 86400 + h * 3600 + m * 60 + s) mod 86400 = h * 3600 + m * 60 + s"
    "(h * 3600 + m * 60 + s) div 3600 = h" "(h * 3600 + m * 60 + s) div 60 mod 60 = m"
    "(h * 3600 + m * 60 + s) mod 60 = s"
proof -
  let ?w = "h * 3600 + m * 60 + s"
  have w: "0 \<le> ?w" "?w < 86400" using assms by auto
  have e: "days * 86400 + h * 3600 + m * 60 + s = ?w + days * 86400" by simp
  show "(days * 86400 + h * 3600 + m * 60 + s) div 86400 = days"
    "(days * 86400 + h * 3600 + m * 60 + s) mod 86400 = ?w"
    unfolding e using w by simp_all
  show "?w div 3600 = h" using assms by (intro int_div_pos_eq [of _ _ _ "m * 60 + s"]) auto
  have "?w div 60 = h * 60 + m" using assms by (intro int_div_pos_eq [of _ _ _ s]) auto
  moreover have "(h * 60 + m) mod 60 = m" using assms by simp
  ultimately show "?w div 60 mod 60 = m" by simp
  have "?w = s + (h * 60 + m) * 60" by simp
  then show "?w mod 60 = s" using assms by (simp only: mod_mult_self1) simp
qed

lemma clock_parts:
  fixes w :: int
  assumes "0 \<le> w" "w < 86400"
  shows "0 \<le> w div 3600" "w div 3600 \<le> 23" "0 \<le> w div 60 mod 60" "w div 60 mod 60 \<le> 59" "0 \<le> w mod 60" "w mod 60 \<le> 59"
    "w div 3600 * 3600 + w div 60 mod 60 * 60 + w mod 60 = w"
proof -
  have "w div 60 div 60 = w div 3600" by (simp add: zdiv_zmult2_eq [symmetric])
  then have "w div 60 = w div 3600 * 60 + w div 60 mod 60" using div_mult_mod_eq [of "w div 60" 60] by simp
  moreover have "w = w div 60 * 60 + w mod 60" by simp
  ultimately show "w div 3600 * 3600 + w div 60 mod 60 * 60 + w mod 60 = w" by linarith
  show "0 \<le> w div 3600" "w div 3600 \<le> 23" using assms by auto
  have "a mod 60 \<le> 59" for a :: int using pos_mod_bound [of 60 a] by linarith
  then show "w div 60 mod 60 \<le> 59" "w mod 60 \<le> 59" by blast+
qed simp_all

lemma civil_from_local_Inr:
  "civil_from_local t = Inr c \<longleftrightarrow>
     civil_from_days (t div 86400) = Inr (ct_year c, ct_month c, ct_day c) \<and>
     ct_hour c = t mod 86400 div 3600 \<and> ct_minute c = t mod 86400 div 60 mod 60 \<and> ct_second c = t mod 86400 mod 60"
proof -
  have w: "0 \<le> t mod 86400" "t mod 86400 < 86400" by simp_all
  have "0 \<le> t mod 86400 div 3600" "t mod 86400 div 3600 < 24" using w by auto
  moreover have "0 \<le> a mod 60" "a mod 60 < 60" for a :: int by simp_all
  ultimately have "try_u32 TimestampOutOfRange (t mod 86400 div 3600) = Inr (t mod 86400 div 3600)"
    "try_u32 TimestampOutOfRange (a mod 60) = Inr (a mod 60)" for a
    unfolding try_u32_def by (simp_all add: order_less_trans [of _ 60 4294967296])
  then show ?thesis
    by (cases c; cases "civil_from_days (t div 86400)") (auto simp: civil_from_local_def Let_def)
qed

lemma format_date_time_Inr:
  assumes "civil_from_local t = Inr c" and "1970 \<le> ct_year c" "ct_year c \<le> 2069" "1 \<le> ct_month c" "ct_month c \<le> 12"
  shows "format_date_time t = Inr (pad2 (ct_day c) @ [32] @ MONTHS ! nat (ct_month c - 1) @ [32] @
    pad2 (ct_year c mod 100) @ [32, 32] @ pad2 (ct_hour c) @ [58] @ pad2 (ct_minute c) @ [58] @ pad2 (ct_second c))"
  using assms by (simp add: format_date_time_def)

text \<open>The fields of a text, read as numbers.\<close>

lemma parse_date_time_text:
  assumes "is_digit d1" "is_digit d2" "is_digit y1" "is_digit y2" "is_digit h1" "is_digit h2"
    "is_digit n1" "is_digit n2" "is_digit s1" "is_digit s2" and "\<not> utf8_cont m1"
  shows "parse_date_time [d1, d2, 32, m1, m2, m3, 32, y1, y2, 32, 32, h1, h2, 58, n1, n2, 58, s1, s2] =
    and_then (ok_or MalformedDateTime (position (\<lambda>m. m = [m1, m2, m3]) MONTHS)) (\<lambda>index.
    let day = int (digits_value [d1, d2]); hour = int (digits_value [h1, h2]); minute = int (digits_value [n1, n2]);
        second = int (digits_value [s1, s2]); two = int (digits_value [y1, y2]);
        year = (if 70 \<le> two then 1900 + two else 2000 + two); month = int index + 1 in
    if day = 0 \<or> 23 < hour \<or> 59 < minute \<or> 59 < second then Inl MalformedDateTime
    else and_then (civil_from_days (days_from_civil year month day)) (\<lambda>date.
      if date \<noteq> (year, month, day) then Inl MalformedDateTime
      else Inr (days_from_civil year month day * 86400 + hour * 3600 + minute * 60 + second)))"
proof -
  have c: "\<not> utf8_cont d1" "\<not> utf8_cont y1" "\<not> utf8_cont h1" "\<not> utf8_cont n1" "\<not> utf8_cont s1"
    "\<not> utf8_cont 32" "\<not> utf8_cont 58"
    using assms by (auto simp: is_digit_def utf8_cont_def)
  have n: "date_number [a, b] = Inr (int (digits_value [a, b]))" if "is_digit a" "is_digit b" for a b
    using that pad2_read(2) [OF that] by (simp add: date_number_def)
  show ?thesis using assms c
    by (cases "position (\<lambda>m. m = [m1, m2, m3]) MONTHS")
      (simp_all add: parse_date_time_def str_slice_def char_boundary_def n Let_def cong: if_cong)
qed

lemma MONTHS_at: "position (\<lambda>m. m = [m1, m2, m3]) MONTHS = Some i \<longleftrightarrow> i < 12 \<and> MONTHS ! i = [m1, m2, m3]"
  using position_Some_nth [of "\<lambda>m. m = [m1, m2, m3]" MONTHS i] position_distinct [OF MONTHS_distinct, of i] MONTHS_length by auto

lemma format_of_parse:
  assumes "parse_date_time v = Inr t"
  shows "format_date_time t = Inr v"
proof -
  from assms have "length v = 19" by (auto simp: parse_date_time_def split: if_splits)
  then obtain d1 d2 g1 m1 m2 m3 g2 y1 y2 g3 g4 h1 h2 g5 n1 n2 g6 s1 s2 where
    v: "v = [d1, d2, g1, m1, m2, m3, g2, y1, y2, g3, g4, h1, h2, g5, n1, n2, g6, s1, s2]"
    by (auto simp: length_Suc_conv numeral_eq_Suc)
  from assms have g: "g1 = 32" "g2 = 32" "g3 = 32" "g4 = 32" "g5 = 58" "g6 = 58"
    and digits: "is_digit d1" "is_digit d2" "is_digit y1" "is_digit y2" "is_digit h1" "is_digit h2"
      "is_digit n1" "is_digit n2" "is_digit s1" "is_digit s2" and m1: "\<not> utf8_cont m1"
    unfolding v by (auto simp: parse_date_time_def str_slice_def char_boundary_def date_number_def and_then_eq_Inr Let_def
        split: if_splits)
  define day hour minute second two where "day = int (digits_value [d1, d2])" and "hour = int (digits_value [h1, h2])"
    and "minute = int (digits_value [n1, n2])" and "second = int (digits_value [s1, s2])"
    and "two = int (digits_value [y1, y2])"
  define year where "year = (if 70 \<le> two then 1900 + two else 2000 + two)"
  note defs = day_def hour_def minute_def second_def two_def
  have pads: "pad2 day = [d1, d2]" "pad2 hour = [h1, h2]" "pad2 minute = [n1, n2]" "pad2 second = [s1, s2]"
    "pad2 two = [y1, y2]" "0 \<le> two" "two < 100"
    using digits pad2_read by (simp_all add: defs)
  from assms obtain i where i: "i < 12" "MONTHS ! i = [m1, m2, m3]"
    and r: "hour \<le> 23" "minute \<le> 59" "second \<le> 59"
    and date: "civil_from_days (days_from_civil year (int i + 1) day) = Inr (year, int i + 1, day)"
    and t: "t = days_from_civil year (int i + 1) day * 86400 + hour * 3600 + minute * 60 + second"
    unfolding v g parse_date_time_text [OF digits m1]
    by (auto simp: and_then_eq_Inr ok_or_eq_Inr MONTHS_at year_def Let_def defs split: if_splits)
  have nonneg: "0 \<le> hour" "0 \<le> minute" "0 \<le> second" by (simp_all add: defs)
  note time = local_time(1,2) [OF nonneg(1) r(1) nonneg(2) r(2) nonneg(3) r(3), of "days_from_civil year (int i + 1) day"]
    local_time(3-5) [OF nonneg(1) r(1) nonneg(2) r(2) nonneg(3) r(3)]
  have "civil_from_local t = Inr \<lparr>ct_year = year, ct_month = int i + 1, ct_day = day, ct_hour = hour,
      ct_minute = minute, ct_second = second\<rparr>"
    unfolding civil_from_local_Inr t time by (simp add: date)
  moreover have "1970 \<le> year" "year \<le> 2069" "year mod 100 = two"
    using pads(6,7) by (auto simp: year_def mod_add_left_eq [symmetric])
  ultimately show ?thesis
    using format_date_time_Inr i pads by (simp add: v g)
qed

lemma parse_of_format:
  assumes "format_date_time t = Inr v"
  shows "parse_date_time v = Inr t"
proof -
  from assms obtain c where c: "civil_from_local t = Inr c"
    and year: "1970 \<le> ct_year c" "ct_year c \<le> 2069" and month: "1 \<le> ct_month c" "ct_month c \<le> 12"
    and v: "v = pad2 (ct_day c) @ [32] @ MONTHS ! nat (ct_month c - 1) @ [32] @ pad2 (ct_year c mod 100) @
      [32, 32] @ pad2 (ct_hour c) @ [58] @ pad2 (ct_minute c) @ [58] @ pad2 (ct_second c)"
    by (auto simp: format_date_time_def and_then_eq_Inr split: if_splits)
  note local = c [unfolded civil_from_local_Inr]
  have date: "valid_date (ct_year c) (ct_month c) (ct_day c)"
    "days_from_civil (ct_year c) (ct_month c) (ct_day c) = t div 86400"
    using civil_year_range [of "t div 86400"] local year by auto
  then have day: "1 \<le> ct_day c" "ct_day c \<le> 31"
    using days_in_month_le [of "ct_year c" "ct_month c"] by (auto simp: valid_date_def)
  have w: "0 \<le> t mod 86400" "t mod 86400 < 86400" by simp_all
  have r: "0 \<le> ct_hour c" "ct_hour c \<le> 23" "0 \<le> ct_minute c" "ct_minute c \<le> 59" "0 \<le> ct_second c" "ct_second c \<le> 59"
    using clock_parts(1-6) [OF w] local by metis+
  have t: "t div 86400 * 86400 + ct_hour c * 3600 + ct_minute c * 60 + ct_second c = t"
  proof -
    have "ct_hour c * 3600 + ct_minute c * 60 + ct_second c = t mod 86400" using clock_parts(7) [OF w] local by metis
    then show ?thesis using div_mult_mod_eq [of t 86400] by linarith
  qed
  let ?two = "ct_year c mod 100"
  have two: "0 \<le> ?two" "?two < 100" "(if 70 \<le> ?two then 1900 + ?two else 2000 + ?two) = ct_year c"
  proof -
    have "?two = (ct_year c - 1900) mod 100" "?two = (ct_year c - 2000) mod 100"
      using mod_mult_self1 [of "ct_year c - 1900" 19 100] mod_mult_self1 [of "ct_year c - 2000" 20 100] by simp_all
    with year show "(if 70 \<le> ?two then 1900 + ?two else 2000 + ?two) = ct_year c"
      by (cases "ct_year c < 2000") simp_all
  qed simp_all
  obtain d1 d2 where d: "pad2 (ct_day c) = [d1, d2]" "is_digit d1" "is_digit d2" "int (digits_value [d1, d2]) = ct_day c"
    using pad2_split [of "ct_day c"] day by auto
  obtain y1 y2 where y: "pad2 ?two = [y1, y2]" "is_digit y1" "is_digit y2" "int (digits_value [y1, y2]) = ?two"
    using pad2_split [of ?two] two by auto
  obtain h1 h2 where h: "pad2 (ct_hour c) = [h1, h2]" "is_digit h1" "is_digit h2" "int (digits_value [h1, h2]) = ct_hour c"
    using pad2_split [of "ct_hour c"] r by auto
  obtain n1 n2 where n: "pad2 (ct_minute c) = [n1, n2]" "is_digit n1" "is_digit n2" "int (digits_value [n1, n2]) = ct_minute c"
    using pad2_split [of "ct_minute c"] r by auto
  obtain s1 s2 where s: "pad2 (ct_second c) = [s1, s2]" "is_digit s1" "is_digit s2" "int (digits_value [s1, s2]) = ct_second c"
    using pad2_split [of "ct_second c"] r by auto
  have index: "nat (ct_month c - 1) < 12" using month by linarith
  obtain m1 m2 m3 where m: "MONTHS ! nat (ct_month c - 1) = [m1, m2, m3]" "\<not> utf8_cont m1"
    using MONTHS_letters [OF index] by blast
  have pos: "position (\<lambda>m. m = [m1, m2, m3]) MONTHS = Some (nat (ct_month c - 1))"
    using m(1) index by (simp add: MONTHS_at)
  have cd: "civil_from_days (t div 86400) = Inr (ct_year c, ct_month c, ct_day c)" using local by blast
  have month_eq: "int (nat (ct_month c - 1)) + 1 = ct_month c" using month by linarith
  have ok: "\<not> (ct_day c = 0 \<or> 23 < ct_hour c \<or> 59 < ct_minute c \<or> 59 < ct_second c)" using day r by linarith
  have v': "v = [d1, d2, 32, m1, m2, m3, 32, y1, y2, 32, 32, h1, h2, 58, n1, n2, 58, s1, s2]"
    by (simp add: v d y h n s m)
  show ?thesis
    unfolding v' parse_date_time_text [OF d(2,3) y(2,3) h(2,3) n(2,3) s(2,3) m(2)] pos ok_or.simps and_then.simps
      Let_def d(4) y(4) h(4) n(4) s(4) two(3) month_eq if_not_P [OF ok] date(2) cd t by simp
qed

text \<open>
  C38.  The legacy DateTime field is exact.  \<open>parse_date_time\<close> reads a text as an instant exactly when
  \<open>format_date_time\<close> writes that text for that instant: every canonical instant has one text, and no
  other text, impossible dates included, is accepted.  But a text of nineteen bytes with a character
  across the gap panics instead of being refused.
\<close>

theorem date_time_exact:
  "(parse_date_time v = Inr t \<longleftrightarrow> format_date_time t = Inr v) \<and>
   valid_utf8 (lit ''01 Jan 7'' @ [195, 169] @ lit '' 00:00:00'') \<and>
   parse_date_time (lit ''01 Jan 7'' @ [195, 169] @ lit '' 00:00:00'') = Inl ExportPanicked"
proof -
  have "valid_utf8 (lit ''01 Jan 7'' @ [195, 169] @ lit '' 00:00:00'')" by code_simp
  moreover have "parse_date_time (lit ''01 Jan 7'' @ [195, 169] @ lit '' 00:00:00'') = Inl ExportPanicked"
    by (simp add: parse_date_time_def str_slice_def char_boundary_def utf8_cont_def)
  ultimately show ?thesis using format_of_parse parse_of_format by blast
qed

end
