(* ===== verification/Scheduler.thy ===== *)
theory Scheduler
  imports Config Calendar
begin

text \<open>
  Schedule activation (\<open>crates/tithd/src/schedule.rs\<close>): the first beginning of a schedule, the poll
  that ends and begins activations, and the next wakeup.  Times are \<open>u64\<close> seconds, kept as natural
  numbers with the bounds written out; a sum of \<open>i64\<close> values that overflows panics.
\<close>

section \<open>State\<close>

record sched_state =
  st_next_beginning :: nat
  st_active_until :: "nat option"

record activation =
  act_schedule :: nat
  act_beginning :: nat
  act_nominal_end :: nat

definition is_open :: "activation \<Rightarrow> nat \<Rightarrow> bool" where
  "is_open a now \<longleftrightarrow> now < act_nominal_end a"

datatype schedule_error = MissingLocalOffset | UnrepresentableStart | SchedulePanicked

definition u64_limit :: nat where
  "u64_limit = 18446744073709551615"

definition saturating_add :: "nat \<Rightarrow> nat \<Rightarrow> nat" where
  "saturating_add a b = min (a + b) u64_limit"

definition saturating_mul :: "nat \<Rightarrow> nat \<Rightarrow> nat" where
  "saturating_mul a b = min (a * b) u64_limit"

section \<open>Building the scheduler\<close>

definition fits_i64 :: "int \<Rightarrow> bool" where
  "fits_i64 v \<longleftrightarrow> - 9223372036854775808 \<le> v \<and> v \<le> 9223372036854775807"

text \<open>An \<open>i64\<close> operation whose overflow is the given error.\<close>

definition i64_op :: "schedule_error \<Rightarrow> int \<Rightarrow> schedule_error + int" where
  "i64_op e v = (if fits_i64 v then Inr v else Inl e)"

definition first_beginning :: "schedule \<Rightarrow> nat \<Rightarrow> int \<Rightarrow> schedule_error + nat" where
  "first_beginning s effective offset =
     and_then (i64_op UnrepresentableStart (int effective)) (\<lambda>e.
     and_then (i64_op UnrepresentableStart (e + offset)) (\<lambda>local.
     and_then (map_err (\<lambda>err. if err = ExportPanicked then SchedulePanicked else UnrepresentableStart)
       (civil_from_local local)) (\<lambda>civil.
     and_then (i64_op SchedulePanicked (local - ct_hour civil * 3600)) (\<lambda>m1.
     and_then (i64_op SchedulePanicked (m1 - ct_minute civil * 60)) (\<lambda>m2.
     and_then (i64_op SchedulePanicked (m2 - ct_second civil)) (\<lambda>midnight.
     and_then (i64_op SchedulePanicked (midnight + int (sch_start_minutes s) * 60)) (\<lambda>b1.
     and_then (i64_op SchedulePanicked (b1 - offset)) (\<lambda>beginning.
     if beginning < 0 then Inl UnrepresentableStart else Inr (nat beginning)))))))))"

definition schedule_offset :: "int option \<Rightarrow> schedule \<Rightarrow> schedule_error + int" where
  "schedule_offset local_offset s = (if sch_start_local s then ok_or MissingLocalOffset local_offset else Inr 0)"

definition scheduler_new :: "schedule list \<Rightarrow> nat \<Rightarrow> int option \<Rightarrow> schedule_error + sched_state list" where
  "scheduler_new schedules effective local_offset =
     try_map (\<lambda>s.
       and_then (schedule_offset local_offset s) (\<lambda>offset.
       and_then (first_beginning s effective offset) (\<lambda>b.
       Inr \<lparr>st_next_beginning = b, st_active_until = None\<rparr>))) schedules"

section \<open>Polling\<close>

definition expire :: "nat \<Rightarrow> sched_state \<Rightarrow> sched_state" where
  "expire now st =
     (case st_active_until st of
        Some e \<Rightarrow> if e \<le> now then st\<lparr>st_active_until := None\<rparr> else st
      | None \<Rightarrow> st)"

text \<open>A schedule that is idle and due begins; the subtraction cannot underflow.\<close>

definition begin_activation :: "nat \<Rightarrow> schedule \<Rightarrow> nat \<Rightarrow> sched_state \<Rightarrow> sched_state \<times> activation" where
  "begin_activation index s now st =
     (let duration = saturating_mul (sch_duration_minutes s) 60;
          period = saturating_add duration (saturating_mul (sch_repeat_after_minutes s) 60);
          beginning =
            (if period = 0 then st_next_beginning st
             else st_next_beginning st + (now - st_next_beginning st) div period * period);
          nominal_end = saturating_add beginning duration in
      (\<lparr>st_next_beginning = saturating_add beginning (max period 1),
        st_active_until = (if now < nominal_end then Some nominal_end else None)\<rparr>,
       \<lparr>act_schedule = index, act_beginning = beginning, act_nominal_end = nominal_end\<rparr>))"

definition due :: "nat \<Rightarrow> sched_state \<Rightarrow> bool" where
  "due now st \<longleftrightarrow> st_active_until st = None \<and> st_next_beginning st \<le> now"

fun poll_from ::
    "nat \<Rightarrow> schedule list \<Rightarrow> nat \<Rightarrow> sched_state list \<Rightarrow> schedule_error + sched_state list \<times> activation list" where
  "poll_from index schedules now [] = Inr ([], [])"
| "poll_from index schedules now (st # sts) =
     (let st1 = expire now st in
      if \<not> due now st1 then
        and_then (poll_from (index + 1) schedules now sts) (\<lambda>(sts', begun). Inr (st1 # sts', begun))
      else if length schedules \<le> index then Inl SchedulePanicked
      else (case begin_activation index (schedules ! index) now st1 of (st2, a) \<Rightarrow>
        and_then (poll_from (index + 1) schedules now sts) (\<lambda>(sts', begun). Inr (st2 # sts', a # begun))))"

definition poll ::
    "schedule list \<Rightarrow> nat \<Rightarrow> sched_state list \<Rightarrow> schedule_error + sched_state list \<times> activation list" where
  "poll = poll_from 0"

definition finished :: "activation \<Rightarrow> nat \<Rightarrow> sched_state list \<Rightarrow> sched_state list" where
  "finished a now sts =
     (if act_schedule a < length sts then sts[act_schedule a := expire now (sts ! act_schedule a)] else sts)"

definition next_beginning :: "sched_state list \<Rightarrow> nat \<Rightarrow> nat option" where
  "next_beginning sts i = (if i < length sts then Some (st_next_beginning (sts ! i)) else None)"

definition state_wakeup :: "sched_state \<Rightarrow> nat" where
  "state_wakeup st =
     (case st_active_until st of Some e \<Rightarrow> min e (st_next_beginning st) | None \<Rightarrow> st_next_beginning st)"

definition next_wakeup :: "sched_state list \<Rightarrow> nat option" where
  "next_wakeup sts = (if sts = [] then None else Some (Min (set (map state_wakeup sts))))"

section \<open>The first beginning\<close>

lemma civil_from_local_total: "\<exists>c. civil_from_local t = Inr c"
proof -
  obtain era y p d where ok: "march_ok y p d" and n: "t div 86400 = march_days era y p d" using march_cover by blast
  obtain y' m d' where date: "march_date era y p d = (y', m, d')" by (metis prod_cases3)
  have "civil_from_days (t div 86400) = Inr (clamp_year y', m, d')"
    using march_valid [OF ok date] days_in_month_le [of y' m] civil_from_march [OF ok, of era] date
    by (simp add: civil_from_days_def try_u32_def valid_date_def n)
  then have "civil_from_local t = Inr \<lparr>ct_year = clamp_year y', ct_month = m, ct_day = d',
      ct_hour = t mod 86400 div 3600, ct_minute = t mod 86400 div 60 mod 60, ct_second = t mod 86400 mod 60\<rparr>"
    by (simp add: civil_from_local_Inr)
  then show ?thesis by blast
qed

text \<open>
  C39.  The first beginning of a schedule is its Start time on the local date on which the
  configuration takes effect, as seconds since the epoch; a time before the epoch is refused, and
  for offsets of at most a day nothing overflows.
\<close>

theorem first_beginning_exact:
  assumes "effective < 4611686018427387904" and "\<bar>offset\<bar> \<le> 86400" and "sch_start_minutes s < 1440"
  shows "first_beginning s effective offset =
    (let day = (int effective + offset) div 86400; beginning = day * 86400 + int (sch_start_minutes s) * 60 - offset in
     if beginning < 0 then Inl UnrepresentableStart else Inr (nat beginning))"
proof -
  define local where "local = int effective + offset"
  obtain c where c: "civil_from_local local = Inr c" using civil_from_local_total by blast
  have w: "0 \<le> local mod 86400" "local mod 86400 < 86400" by simp_all
  have "ct_hour c = local mod 86400 div 3600" "ct_minute c = local mod 86400 div 60 mod 60"
    "ct_second c = local mod 86400 mod 60" using c [unfolded civil_from_local_Inr] by simp_all
  with clock_parts [OF w] have r: "0 \<le> ct_hour c" "ct_hour c \<le> 23" "0 \<le> ct_minute c" "ct_minute c \<le> 59"
    "0 \<le> ct_second c" "ct_second c \<le> 59"
    and sum: "ct_hour c * 3600 + ct_minute c * 60 + ct_second c = local mod 86400" by metis+
  have bounds: "- 86400 \<le> local" "local \<le> 4611686018427474304" "- 86400 \<le> offset" "offset \<le> 86400"
    using assms(1,2) by (simp_all add: local_def)
  have midnight: "local - ct_hour c * 3600 - ct_minute c * 60 - ct_second c = local div 86400 * 86400"
    using sum div_mult_mod_eq [of local 86400] by linarith
  have day: "local div 86400 * 86400 \<le> local" "local < local div 86400 * 86400 + 86400"
    using w div_mult_mod_eq [of local 86400] by linarith+
  have i64: "fits_i64 (int effective)" "fits_i64 local" "fits_i64 (local - ct_hour c * 3600)"
    "fits_i64 (local - ct_hour c * 3600 - ct_minute c * 60)" "fits_i64 (local div 86400 * 86400)"
    "fits_i64 (local div 86400 * 86400 + int (sch_start_minutes s) * 60)"
    "fits_i64 (local div 86400 * 86400 + int (sch_start_minutes s) * 60 - offset)"
    using assms(1,3) bounds r day unfolding fits_i64_def by linarith+
  then show ?thesis
    using c by (simp add: first_beginning_def i64_op_def Let_def midnight flip: local_def)
qed

definition sample_schedule :: schedule where
  "sample_schedule =
     \<lparr>sch_name = lit ''nightly'', sch_origin = RefPeer (lit ''a''), sch_classes = [], sch_next_hops = [],
      sch_polls = [], sch_start_local = True, sch_start_minutes = 90, sch_duration_minutes = 10,
      sch_repeat_after_minutes = 20\<rparr>"

theorem first_beginning_exact_witness: "first_beginning sample_schedule 1000000 (- 3600) = Inr 959400"
proof -
  have "(1000000 :: nat) < 4611686018427387904" "\<bar>- 3600 :: int\<bar> \<le> 86400" "sch_start_minutes sample_schedule < 1440"
    by (simp_all add: sample_schedule_def)
  from first_beginning_exact [OF this] show ?thesis by (simp add: sample_schedule_def)
qed

section \<open>Schedules are independent\<close>

definition poll_one :: "nat \<Rightarrow> schedule \<Rightarrow> nat \<Rightarrow> sched_state \<Rightarrow> sched_state \<times> activation option" where
  "poll_one index s now st =
     (let st1 = expire now st in
      if due now st1 then (case begin_activation index s now st1 of (st2, a) \<Rightarrow> (st2, Some a)) else (st1, None))"

fun poll_each ::
    "nat \<Rightarrow> schedule list \<Rightarrow> nat \<Rightarrow> sched_state list \<Rightarrow> (sched_state \<times> activation option) list" where
  "poll_each index schedules now [] = []"
| "poll_each index schedules now (st # sts) =
     poll_one index (schedules ! index) now st # poll_each (index + 1) schedules now sts"

lemma poll_from_each:
  "index + length sts \<le> length schedules \<Longrightarrow>
   poll_from index schedules now sts =
     Inr (map fst (poll_each index schedules now sts), List.map_filter snd (poll_each index schedules now sts))"
  by (induction sts arbitrary: index)
    (auto simp: poll_one_def Let_def split: prod.splits)

lemma poll_each_nth:
  "i < length sts \<Longrightarrow> poll_each index schedules now sts ! i = poll_one (index + i) (schedules ! (index + i)) now (sts ! i)"
  by (induction sts arbitrary: index i) (auto simp: nth_Cons split: nat.splits)

lemma poll_each_length [simp]: "length (poll_each index schedules now sts) = length sts"
  by (induction sts arbitrary: index) auto

lemma poll_one_schedule: "snd (poll_one index s now st) = Some a \<Longrightarrow> act_schedule a = index"
  by (auto simp: poll_one_def begin_activation_def Let_def split: if_splits)

lemma poll_each_filter:
  "filter (\<lambda>a. act_schedule a = index + i) (List.map_filter snd (poll_each index schedules now sts)) =
     (if i < length sts then list_of_option (snd (poll_one (index + i) (schedules ! (index + i)) now (sts ! i))) else [])"
proof (induction sts arbitrary: index i)
  case (Cons st sts)
  have later: "filter (\<lambda>a. act_schedule a = index) (List.map_filter snd (poll_each j schedules now ts)) = []"
    if "index < j" for j ts using that
    by (induction ts arbitrary: j) (auto split: option.splits dest: poll_one_schedule)
  show ?case
  proof (cases i)
    case 0
    then show ?thesis using later [of "index + 1" sts]
      by (auto simp: list_of_option_def split: option.splits dest: poll_one_schedule)
  next
    case (Suc j)
    then show ?thesis using Cons.IH [of "index + 1" j]
      by (auto split: option.splits dest: poll_one_schedule)
  qed
qed simp

section \<open>A history of polls\<close>

text \<open>The activations of one schedule, with the ts of the polls that began them.\<close>

fun run_one :: "nat \<Rightarrow> schedule \<Rightarrow> sched_state \<Rightarrow> nat list \<Rightarrow> (nat \<times> activation) list" where
  "run_one i s st [] = []"
| "run_one i s st (now # ts) =
     (case poll_one i s now st of
        (st', begun) \<Rightarrow> map (Pair now) (list_of_option begun) @ run_one i s st' ts)"

definition duration_of :: "schedule \<Rightarrow> nat" where
  "duration_of s = 60 * sch_duration_minutes s"

definition period_of :: "schedule \<Rightarrow> nat" where
  "period_of s = 60 * (sch_duration_minutes s + sch_repeat_after_minutes s)"

lemma begin_activation_exact:
  assumes "0 < sch_repeat_after_minutes s" and "now + period_of s \<le> u64_limit" and "st_next_beginning st \<le> now"
  defines "b \<equiv> st_next_beginning st + (now - st_next_beginning st) div period_of s * period_of s"
  shows "begin_activation i s now st =
    (\<lparr>st_next_beginning = b + period_of s,
      st_active_until = (if now < b + duration_of s then Some (b + duration_of s) else None)\<rparr>,
     \<lparr>act_schedule = i, act_beginning = b, act_nominal_end = b + duration_of s\<rparr>)"
    and "b \<le> now" and "now < b + period_of s"
proof -
  have p: "0 < period_of s" "duration_of s \<le> period_of s" using assms(1) by (simp_all add: period_of_def duration_of_def)
  have "b + (now - st_next_beginning st) mod period_of s = now"
    using assms(3) div_mult_mod_eq [of "now - st_next_beginning st" "period_of s"] unfolding b_def by linarith
  then show b: "b \<le> now" "now < b + period_of s"
    using p(1) mod_less_divisor [OF p(1), of "now - st_next_beginning st"] by linarith+
  have sat: "saturating_mul (sch_duration_minutes s) 60 = duration_of s"
    "saturating_add (duration_of s) (saturating_mul (sch_repeat_after_minutes s) 60) = period_of s"
    "saturating_add b (duration_of s) = b + duration_of s" "saturating_add b (max (period_of s) 1) = b + period_of s"
    using assms(2) b(1) p
    by (auto simp: saturating_mul_def saturating_add_def duration_of_def period_of_def min_def)
  show "begin_activation i s now st =
    (\<lparr>st_next_beginning = b + period_of s,
      st_active_until = (if now < b + duration_of s then Some (b + duration_of s) else None)\<rparr>,
     \<lparr>act_schedule = i, act_beginning = b, act_nominal_end = b + duration_of s\<rparr>)"
    unfolding begin_activation_def Let_def sat using p(1) sat(3,4) by (simp add: b_def)
qed

text \<open>What a history of one schedule looks like, from the next beginning on.\<close>

definition history_ok :: "schedule \<Rightarrow> nat \<Rightarrow> nat list \<Rightarrow> (nat \<times> activation) list \<Rightarrow> bool" where
  "history_ok s first ts acts \<longleftrightarrow>
     list_all (\<lambda>(now, a). now \<in> set ts \<and> act_beginning a \<le> now \<and> now < act_beginning a + period_of s \<and>
        (\<exists>k. act_beginning a = first + k * period_of s) \<and> act_nominal_end a = act_beginning a + duration_of s) acts \<and>
     sorted_wrt (\<lambda>(now1, a1) (now2, a2). act_beginning a1 + period_of s \<le> act_beginning a2 \<and> act_nominal_end a1 \<le> now2)
       acts \<and>
     (\<forall>now \<in> set ts. first \<le> now \<longrightarrow> (\<exists>(now', a) \<in> set acts. now' \<le> now \<and> now < act_beginning a + period_of s))"

lemma history_ok_later:
  assumes "history_ok s (first + k * period_of s) ts acts" and "(now, a) \<in> set acts"
  shows "first + k * period_of s \<le> act_beginning a" "\<exists>k. act_beginning a = first + k * period_of s" "now \<in> set ts"
    "act_beginning a \<le> now" "now < act_beginning a + period_of s" "act_nominal_end a = act_beginning a + duration_of s"
proof -
  from assms obtain j where j: "act_beginning a = first + k * period_of s + j * period_of s"
    and "now \<in> set ts" "act_beginning a \<le> now" "now < act_beginning a + period_of s"
      "act_nominal_end a = act_beginning a + duration_of s"
    by (auto simp: history_ok_def list_all_iff)
  then show "first + k * period_of s \<le> act_beginning a" "\<exists>k. act_beginning a = first + k * period_of s"
    "now \<in> set ts" "act_beginning a \<le> now" "now < act_beginning a + period_of s"
    "act_nominal_end a = act_beginning a + duration_of s"
    by (simp_all add: exI [of _ "k + j"] add_mult_distrib)
qed

lemma run_one_history:
  assumes "0 < sch_repeat_after_minutes s" and "sorted ts" and "\<forall>now \<in> set ts. now + period_of s \<le> u64_limit"
    and "\<forall>e. st_active_until st = Some e \<longrightarrow> e \<le> st_next_beginning st"
  shows "history_ok s (st_next_beginning st) ts (run_one i s st ts) \<and>
    (\<forall>e. st_active_until st = Some e \<longrightarrow> (\<forall>(now, a) \<in> set (run_one i s st ts). e \<le> now))"
  using assms(2-4)
proof (induction ts arbitrary: st)
  case Nil
  then show ?case by (simp add: history_ok_def)
next
  case (Cons now ts)
  define st1 where "st1 = expire now st"
  have st1: "st_next_beginning st1 = st_next_beginning st" "\<forall>e. st_active_until st1 = Some e \<longrightarrow> e \<le> st_next_beginning st1 \<and> now < e"
    "\<forall>e. st_active_until st = Some e \<longrightarrow> e \<le> now \<or> st_active_until st1 = Some e"
    using Cons.prems(3) by (auto simp: st1_def expire_def split: option.splits)
  show ?case
  proof (cases "due now st1")
    case False
    then have not_due: "now < st_next_beginning st1"
      using st1(2) by (auto simp: due_def)
    have "poll_one i s now st = (st1, None)" using False by (simp add: poll_one_def flip: st1_def)
    then have run: "run_one i s st (now # ts) = run_one i s st1 ts" by (simp add: list_of_option_def)
    have ih: "history_ok s (st_next_beginning st) ts (run_one i s st1 ts)"
      "\<forall>e. st_active_until st1 = Some e \<longrightarrow> (\<forall>(now, a) \<in> set (run_one i s st1 ts). e \<le> now)"
      using Cons.IH [of st1] Cons.prems st1 by auto
    then have "history_ok s (st_next_beginning st) (now # ts) (run_one i s st (now # ts))"
      using not_due st1(1) unfolding run by (auto simp: history_ok_def list_all_iff)
    moreover have "e \<le> t" if "st_active_until st = Some e" "(t, a) \<in> set (run_one i s st1 ts)" for e t a
    proof -
      have "t \<in> set ts" using ih(1) that(2) by (auto simp: history_ok_def list_all_iff)
      then have "now \<le> t" using Cons.prems(1) by simp
      with st1(3) that ih(2) show ?thesis by force
    qed
    ultimately show ?thesis unfolding run by auto
  next
    case True
    then have d: "st_active_until st1 = None" "st_next_beginning st1 \<le> now" by (simp_all add: due_def)
    define b where "b = st_next_beginning st + (now - st_next_beginning st) div period_of s * period_of s"
    note act = begin_activation_exact [OF assms(1) _ d(2), unfolded st1(1), folded b_def]
    have bound: "now + period_of s \<le> u64_limit" using Cons.prems(2) by simp
    define a where "a = \<lparr>act_schedule = i, act_beginning = b, act_nominal_end = b + duration_of s\<rparr>"
    define st2 where "st2 = \<lparr>st_next_beginning = b + period_of s,
      st_active_until = (if now < b + duration_of s then Some (b + duration_of s) else None)\<rparr>"
    have "poll_one i s now st = (st2, Some a)"
      using True act(1) [OF bound, of i] by (simp add: poll_one_def st2_def a_def flip: st1_def)
    then have run: "run_one i s st (now # ts) = (now, a) # run_one i s st2 ts" by (simp add: list_of_option_def)
    have "duration_of s \<le> period_of s" by (simp add: duration_of_def period_of_def)
    then have ih: "history_ok s (b + period_of s) ts (run_one i s st2 ts)"
      "\<forall>e. st_active_until st2 = Some e \<longrightarrow> (\<forall>(now, a) \<in> set (run_one i s st2 ts). e \<le> now)"
      using Cons.IH [of st2] Cons.prems by (auto simp: st2_def split: if_splits)
    define k where "k = (now - st_next_beginning st) div period_of s + 1"
    have grid: "b + period_of s = st_next_beginning st + k * period_of s" by (simp add: b_def k_def)
    note later = history_ok_later [OF ih(1) [unfolded grid]]
    have after: "now \<le> t" if "(t, x) \<in> set (run_one i s st2 ts)" for t x
      using later(3) [OF that] Cons.prems(1) by simp
    have ends: "b + duration_of s \<le> t" if "(t, x) \<in> set (run_one i s st2 ts)" for t x
      using ih(2) that after [OF that] by (cases "now < b + duration_of s") (auto simp: st2_def)
    have "list_all (\<lambda>(now', a). now' \<in> set (now # ts) \<and> act_beginning a \<le> now' \<and> now' < act_beginning a + period_of s \<and>
        (\<exists>k. act_beginning a = st_next_beginning st + k * period_of s) \<and>
        act_nominal_end a = act_beginning a + duration_of s) ((now, a) # run_one i s st2 ts)"
      using act(2,3) [OF bound] later by (auto simp: list_all_iff a_def b_def)
    moreover have "sorted_wrt (\<lambda>(now1, a1) (now2, a2). act_beginning a1 + period_of s \<le> act_beginning a2 \<and>
        act_nominal_end a1 \<le> now2) ((now, a) # run_one i s st2 ts)"
      using ih(1) later(1) ends grid by (auto simp: history_ok_def a_def)
    moreover have "\<exists>(now', x) \<in> set ((now, a) # run_one i s st2 ts). now' \<le> t \<and> t < act_beginning x + period_of s"
      if "t \<in> set (now # ts)" for t
    proof (cases "b + period_of s \<le> t")
      case True
      then have "t \<noteq> now" using act(3) [OF bound] by simp
      with True that ih(1) show ?thesis by (auto simp: history_ok_def)
    next
      case False
      with that Cons.prems(1) show ?thesis by (auto simp: a_def)
    qed
    ultimately have "history_ok s (st_next_beginning st) (now # ts) (run_one i s st (now # ts))"
      unfolding run history_ok_def by blast
    moreover have "e \<le> now" if "st_active_until st = Some e" for e using st1(3) d(1) that by auto
    ultimately show ?thesis unfolding run using after by (fastforce dest: order_trans)
  qed
qed

text \<open>A history of polls at given times, with the activations each began.\<close>

fun poll_run :: "schedule list \<Rightarrow> sched_state list \<Rightarrow> nat list \<Rightarrow> schedule_error + (nat \<times> activation) list" where
  "poll_run schedules sts [] = Inr []"
| "poll_run schedules sts (now # ts) =
     and_then (poll schedules now sts) (\<lambda>(sts', begun).
     and_then (poll_run schedules sts' ts) (\<lambda>rest.
     Inr (map (Pair now) begun @ rest)))"

lemma poll_run_one:
  assumes "length sts \<le> length schedules" and "i < length sts"
  shows "\<exists>history. poll_run schedules sts ts = Inr history \<and>
    filter (\<lambda>(now, a). act_schedule a = i) history = run_one i (schedules ! i) (sts ! i) ts"
  using assms
proof (induction ts arbitrary: sts)
  case (Cons now ts)
  define sts' begun where "sts' = map fst (poll_each 0 schedules now sts)"
    and "begun = List.map_filter snd (poll_each 0 schedules now sts)"
  have poll: "poll schedules now sts = Inr (sts', begun)"
    using Cons.prems by (simp add: poll_def poll_from_each sts'_def begun_def)
  have nth: "sts' ! i = fst (poll_one i (schedules ! i) now (sts ! i))"
    using Cons.prems by (simp add: sts'_def poll_each_nth)
  have "length sts' \<le> length schedules" "i < length sts'" using Cons.prems by (simp_all add: sts'_def)
  from Cons.IH [OF this] obtain rest where rest: "poll_run schedules sts' ts = Inr rest"
    "filter (\<lambda>(now, a). act_schedule a = i) rest = run_one i (schedules ! i) (sts' ! i) ts" by blast
  have "filter (\<lambda>(now, a). act_schedule a = i) (map (Pair now) begun) =
      map (Pair now) (list_of_option (snd (poll_one i (schedules ! i) now (sts ! i))))"
    using poll_each_filter [of 0 i schedules now sts] Cons.prems(2) by (simp add: begun_def filter_map comp_def)
  with poll rest nth show ?case by (simp add: split_def)
qed simp

text \<open>
  C12.  Activations follow the schedule.  Poll a scheduler at any increasing times that
  stay one period below \<open>u64::MAX\<close>, as late and as irregularly as it happens: nothing panics, and the activations of each schedule begin on the grid
  of Duration plus Repeat-After from its first beginning; each is the most recent due beginning of
  its poll, so missed beginnings are coalesced; they never repeat, and one never begins before the
  nominal end of the one before; and at every poll from the first beginning on, the beginning that
  was last due has had its activation.
\<close>

theorem activations_follow_schedule:
  assumes "length sts \<le> length schedules" and "i < length sts" and "sorted ts"
    and "0 < sch_repeat_after_minutes (schedules ! i)" and "st_active_until (sts ! i) = None"
    and "\<forall>now \<in> set ts. now + period_of (schedules ! i) \<le> u64_limit"
  shows "\<exists>history. poll_run schedules sts ts = Inr history \<and>
    history_ok (schedules ! i) (st_next_beginning (sts ! i)) ts (filter (\<lambda>(now, a). act_schedule a = i) history)"
proof -
  from poll_run_one [OF assms(1,2)] obtain history where "poll_run schedules sts ts = Inr history"
    "filter (\<lambda>(now, a). act_schedule a = i) history = run_one i (schedules ! i) (sts ! i) ts" by blast
  with run_one_history [OF assms(4,3,6), of "sts ! i" i] assms(5) show ?thesis by simp
qed

theorem activations_follow_schedule_witness:
  "\<exists>history. poll_run [sample_schedule] [\<lparr>st_next_beginning = 1000, st_active_until = None\<rparr>] [5, 1000, 1001, 9000] =
       Inr history \<and>
     history_ok sample_schedule 1000 [5, 1000, 1001, 9000] (filter (\<lambda>(now, a). act_schedule a = 0) history)"
  using activations_follow_schedule [of "[\<lparr>st_next_beginning = 1000, st_active_until = None\<rparr>]" "[sample_schedule]" 0
      "[5, 1000, 1001, 9000]"]
  by (simp add: sample_schedule_def period_of_def u64_limit_def)

section \<open>Sleeping until the next wakeup\<close>

lemma poll_one_before_wakeup: "now < state_wakeup st \<Longrightarrow> poll_one i s now st = (st, None)"
  by (auto simp: poll_one_def state_wakeup_def expire_def due_def split: option.splits)

lemma poll_from_before_wakeup:
  "\<forall>st \<in> set sts. now < state_wakeup st \<Longrightarrow> poll_from i schedules now sts = Inr (sts, [])"
proof (induction sts arbitrary: i)
  case (Cons st sts)
  then have "now < state_wakeup st" by simp
  then have "expire now st = st" "\<not> due now st"
    by (auto simp: state_wakeup_def expire_def due_def split: option.splits)
  with Cons show ?case by simp
qed simp

text \<open>An activation never outlasts the next beginning.\<close>

definition state_ok :: "sched_state \<Rightarrow> bool" where
  "state_ok st \<longleftrightarrow> (case st_active_until st of Some e \<Rightarrow> e \<le> st_next_beginning st | None \<Rightarrow> True)"

lemma poll_one_progress:
  assumes "state_ok st" and "now + period_of s \<le> u64_limit" and "0 < sch_repeat_after_minutes s"
  shows "state_ok (fst (poll_one i s now st)) \<and> now < state_wakeup (fst (poll_one i s now st))"
proof (cases "due now (expire now st)")
  case True
  then have "st_next_beginning (expire now st) \<le> now" by (simp add: due_def)
  note act = begin_activation_exact [OF assms(3,2) this]
  have "duration_of s \<le> period_of s" by (simp add: duration_of_def period_of_def)
  with act(1) [of i] act(3) True show ?thesis
    by (auto simp: poll_one_def state_wakeup_def state_ok_def Let_def)
next
  case False
  with assms(1) show ?thesis
    by (auto simp: poll_one_def state_wakeup_def state_ok_def due_def expire_def split: option.splits if_splits)
qed

text \<open>
  C40.  Sleeping until the next wakeup misses nothing.  A poll before the instant \<open>next_wakeup\<close> names
  begins no activation and changes no state, so a loop that sleeps until then makes every poll that
  could have done anything; and any poll moves the wakeup past its own time, so the loop never spins.
\<close>

theorem wakeup_sound:
  assumes "next_wakeup sts = Some w" and "length sts \<le> length schedules" and "list_all state_ok sts"
    and "list_all (\<lambda>s. 0 < sch_repeat_after_minutes s \<and> now + period_of s \<le> u64_limit) schedules"
  shows "(now < w \<longrightarrow> poll schedules now sts = Inr (sts, [])) \<and>
    (\<exists>sts' begun w'. poll schedules now sts = Inr (sts', begun) \<and> next_wakeup sts' = Some w' \<and> now < w' \<and>
       list_all state_ok sts')"
proof (intro conjI impI)
  assume "now < w"
  moreover have "w \<le> state_wakeup st" if "st \<in> set sts" for st
    using assms(1) that by (auto simp: next_wakeup_def split: if_splits)
  ultimately show "poll schedules now sts = Inr (sts, [])"
    unfolding poll_def by (intro poll_from_before_wakeup) force
next
  define sts' where "sts' = map fst (poll_each 0 schedules now sts)"
  have ok: "state_ok st \<and> now < state_wakeup st" if "st \<in> set sts'" for st
  proof -
    from that obtain i where i: "i < length sts" "st = fst (poll_one i (schedules ! i) now (sts ! i))"
      by (auto simp: sts'_def in_set_conv_nth poll_each_nth)
    with assms(2-4) poll_one_progress [of "sts ! i" now "schedules ! i" i] show ?thesis
      by (simp add: list_all_length)
  qed
  have "length sts' = length sts" "sts \<noteq> []" using assms(1) by (simp_all add: sts'_def next_wakeup_def split: if_splits)
  then have nonempty: "sts' \<noteq> []" by auto
  have "now < Min (set (map state_wakeup sts'))" using ok nonempty by (subst Min_gr_iff) auto
  moreover have "next_wakeup sts' = Some (Min (set (map state_wakeup sts')))" using nonempty by (simp add: next_wakeup_def)
  moreover have "list_all state_ok sts'" using ok by (simp add: list_all_iff)
  moreover have "poll schedules now sts = Inr (sts', List.map_filter snd (poll_each 0 schedules now sts))"
    using assms(2) by (simp add: poll_def poll_from_each sts'_def)
  ultimately show "\<exists>sts' begun w'. poll schedules now sts = Inr (sts', begun) \<and> next_wakeup sts' = Some w' \<and> now < w' \<and>
       list_all state_ok sts'" by blast
qed

theorem wakeup_sound_witness:
  "poll [sample_schedule] 999 [\<lparr>st_next_beginning = 1000, st_active_until = None\<rparr>] =
     Inr ([\<lparr>st_next_beginning = 1000, st_active_until = None\<rparr>], [])"
proof -
  let ?sts = "[\<lparr>st_next_beginning = 1000, st_active_until = None\<rparr>]"
  have "next_wakeup ?sts = Some 1000" "length ?sts \<le> length [sample_schedule]" "list_all state_ok ?sts"
    "list_all (\<lambda>s. 0 < sch_repeat_after_minutes s \<and> 999 + period_of s \<le> u64_limit) [sample_schedule]"
    by (simp_all add: next_wakeup_def state_wakeup_def state_ok_def sample_schedule_def period_of_def u64_limit_def)
  from wakeup_sound [OF this] show ?thesis by simp
qed

end
