(* ===== verification/Legacy.thy ===== *)
theory Legacy
  imports Address Calendar
begin

text \<open>
  Legacy messages: the readers of \<open>crates/tith-message-legacy/src\<close> --- the stored \<open>.msg\<close> object and its
  control paragraphs (\<open>lib.rs\<close>), Type-2+ packets and packed messages (\<open>packet.rs\<close>), attachment lists
  (\<open>attach.rs\<close>).  The characters the code looks for are ASCII, so finding them in a string is finding
  their bytes.  Every slice and index below is guarded by a length check that comes before it.
\<close>

section \<open>Control paragraphs\<close>

record endpoint =
  ep_zone :: u16
  ep_net :: u16
  ep_node :: u16
  ep_point :: u16

record control =
  ctl_name :: str
  ctl_value :: str
  ctl_raw :: str

definition u16_at :: "bytes \<Rightarrow> nat \<Rightarrow> u16" where
  "u16_at bs i = of_nat (le_value [bs ! i, bs ! (i + 1)])"

definition control_of :: "str \<Rightarrow> control" where
  "control_of payload =
     (let (name, tail) = find_split (\<lambda>b. b = 32 \<or> b = 58) payload in
      \<lparr>ctl_name = name, ctl_value = dropWhile (\<lambda>b. b = 32) (dropWhile (\<lambda>b. b = 58) tail), ctl_raw = payload\<rparr>)"

function split_controls :: "str \<Rightarrow> control list \<times> str" where
  "split_controls t =
     (if t \<noteq> [] \<and> hd t = 1 then
        (let (payload, tail) = find_split (\<lambda>b. b = 13) (tl t);
             (controls, rest) = split_controls (drop 1 tail) in
         (control_of payload # controls, rest))
      else ([], t))"
  by pat_completeness auto
termination
  by (relation "measure length")
    (auto simp: find_split_def neq_Nil_conv intro!: le_less_trans [OF diff_le_self] le_imp_less_Suc length_dropWhile_le)

declare split_controls.simps [simp del]

text \<open>\<open>eq_ignore_ascii_case\<close> and the first control of a name.\<close>

definition ascii_lower :: "u8 \<Rightarrow> u8" where
  "ascii_lower b = (if 65 \<le> b \<and> b \<le> 90 then b + 32 else b)"

definition eq_ignore_ascii_case :: "str \<Rightarrow> str \<Rightarrow> bool" where
  "eq_ignore_ascii_case a b \<longleftrightarrow> map ascii_lower a = map ascii_lower b"

definition find_control :: "str \<Rightarrow> control list \<Rightarrow> control option" where
  "find_control name controls = List.find (\<lambda>c. eq_ignore_ascii_case (ctl_name c) name) controls"

definition idempotency_key :: "control list \<Rightarrow> str option" where
  "idempotency_key controls =
     (case find_control (lit ''MSGID'') controls of
        None \<Rightarrow> None
      | Some c \<Rightarrow> if ctl_value c = [] then None else Some (lit ''msgid:'' @ ctl_value c))"

section \<open>Attachments\<close>

datatype attach_style = Binkley | Flags

datatype attach_disposition = Keep | Delete | Truncate

record attachment =
  att_name :: str
  att_disposition :: attach_disposition

datatype attach_error = ConflictingFlags

primrec ipc_value :: "attach_disposition \<Rightarrow> str" where
  "ipc_value Keep = lit ''Keep''"
| "ipc_value Delete = lit ''Delete''"
| "ipc_value Truncate = lit ''Truncate''"

primrec required_feature :: "attach_disposition \<Rightarrow> str option" where
  "required_feature Keep = None"
| "required_feature Delete = Some (lit ''Submit.Delete'')"
| "required_feature Truncate = Some (lit ''Submit.Truncate'')"

text \<open>\<open>split([',', ' '])\<close> is the split at commas of which each piece is split at spaces.\<close>

definition file_list :: "str \<Rightarrow> str list" where
  "file_list subject = filter (\<lambda>spec. spec \<noteq> []) (concat (map (split_at 32) (split_at 44 subject)))"

definition binkley_directive :: "str \<Rightarrow> attachment option" where
  "binkley_directive spec =
     (let named = (\<lambda>d name. if name = [] then None else Some \<lparr>att_name = name, att_disposition = d\<rparr>) in
      case spec of
        [] \<Rightarrow> named Keep spec
      | b # name \<Rightarrow>
          if b = 35 then named Truncate name
          else if b = 94 \<or> b = 45 then named Delete name
          else if b = 126 \<or> b = 33 then None
          else if b = 64 then named Keep name
          else named Keep spec)"

definition attachments :: "str \<Rightarrow> str list \<Rightarrow> attach_style \<Rightarrow> attach_error + attachment list" where
  "attachments subject flags style =
     (let specs = file_list subject in
      case style of
        Binkley \<Rightarrow> Inr (List.map_filter binkley_directive specs)
      | Flags \<Rightarrow>
          let kill = lit ''KFS'' \<in> set flags; trunc = lit ''TFS'' \<in> set flags in
          if kill \<and> trunc then Inl ConflictingFlags
          else
            let d = (if kill then Delete else if trunc then Truncate else Keep) in
            Inr (map (\<lambda>name. \<lparr>att_name = name, att_disposition = d\<rparr>) specs))"

section \<open>Stored messages\<close>

datatype message_error = ShortHeader | MissingTextTerminator | UnsupportedEncoding

definition HEADER_BYTES :: nat where
  "HEADER_BYTES = 190"

definition ATTRIBUTE_OFFSET :: nat where
  "ATTRIBUTE_OFFSET = 186"

definition ATTRIBUTE_SENT :: u16 where
  "ATTRIBUTE_SENT = 8"

definition ATTRIBUTE_FILE_ATTACHED :: u16 where
  "ATTRIBUTE_FILE_ATTACHED = 16"

definition ATTRIBUTE_KILL_SENT :: u16 where
  "ATTRIBUTE_KILL_SENT = 128"

record stored_message =
  sm_from_user :: str
  sm_to_user :: str
  sm_destination :: endpoint
  sm_subject :: str
  sm_date_time :: str
  sm_attributes :: u16
  sm_controls :: "control list"
  sm_text :: str

definition legacy_text :: "bytes \<Rightarrow> message_error + str" where
  "legacy_text bs = map_err (\<lambda>_. UnsupportedEncoding) (from_utf8 bs)"

definition message_field :: "bytes \<Rightarrow> nat \<Rightarrow> nat \<Rightarrow> message_error + str" where
  "message_field bs offset width = legacy_text (takeWhile (\<lambda>b. b \<noteq> 0) (take width (drop offset bs)))"

definition stored_message_parse :: "bytes \<Rightarrow> message_error + stored_message" where
  "stored_message_parse bs =
     (if length bs < HEADER_BYTES then Inl ShortHeader
      else
        let body = drop HEADER_BYTES bs in
        and_then (ok_or MissingTextTerminator (position (\<lambda>b. b = 0) body)) (\<lambda>end_at.
        and_then (legacy_text (take end_at body)) (\<lambda>t.
        let (controls, rest) = split_controls t in
        and_then (message_field bs 0 36) (\<lambda>from_user.
        and_then (message_field bs 36 36) (\<lambda>to_user.
        and_then (message_field bs 72 72) (\<lambda>subject.
        and_then (message_field bs 144 20) (\<lambda>date_time.
        Inr \<lparr>sm_from_user = from_user, sm_to_user = to_user,
             sm_destination = \<lparr>ep_zone = u16_at bs 176, ep_net = u16_at bs 174, ep_node = u16_at bs 166,
               ep_point = u16_at bs 180\<rparr>,
             sm_subject = subject, sm_date_time = date_time, sm_attributes = u16_at bs ATTRIBUTE_OFFSET,
             sm_controls = controls, sm_text = rest\<rparr>)))))))"

definition has_file_attached :: "u16 \<Rightarrow> bool" where
  "has_file_attached attributes \<longleftrightarrow> attributes AND ATTRIBUTE_FILE_ATTACHED \<noteq> 0"

definition has_kill_sent :: "stored_message \<Rightarrow> bool" where
  "has_kill_sent m \<longleftrightarrow> sm_attributes m AND ATTRIBUTE_KILL_SENT \<noteq> 0"

definition has_sent :: "stored_message \<Rightarrow> bool" where
  "has_sent m \<longleftrightarrow> sm_attributes m AND ATTRIBUTE_SENT \<noteq> 0"

text \<open>\<open>split_whitespace\<close>: the runs of characters without the property White_Space.\<close>

function split_whitespace_from :: "str \<Rightarrow> str \<Rightarrow> str list" where
  "split_whitespace_from word s =
     (case utf8_char s of
        None \<Rightarrow> if word = [] then [] else [word]
      | Some (c, rest) \<Rightarrow>
          if tts_whitespace c
          then (if word = [] then [] else [word]) @ split_whitespace_from [] rest
          else split_whitespace_from (word @ take (length s - length rest) s) rest)"
  by pat_completeness auto
termination
  by (relation "measure (\<lambda>(_, s). length s)") (auto dest: utf8_char_shorter)

definition message_flags :: "stored_message \<Rightarrow> str list" where
  "message_flags m =
     (case find_control (lit ''FLAGS'') (sm_controls m) of
        None \<Rightarrow> []
      | Some c \<Rightarrow> split_whitespace_from [] (ctl_value c))"

definition requests_kill :: "stored_message \<Rightarrow> bool" where
  "requests_kill m \<longleftrightarrow> has_kill_sent m \<or> lit ''K/S'' \<in> set (message_flags m)"

definition message_attachments :: "stored_message \<Rightarrow> attach_style \<Rightarrow> attach_error + attachment list" where
  "message_attachments m style =
     (if \<not> has_file_attached (sm_attributes m) then Inr []
      else attachments (sm_subject m) (message_flags m) style)"

text \<open>\<open>copy_from_slice\<close> at an offset of a buffer that is long enough.\<close>

fun copy_at :: "bytes \<Rightarrow> nat \<Rightarrow> bytes \<Rightarrow> bytes" where
  "copy_at bs i [] = bs"
| "copy_at bs i (v # vs) = copy_at (bs[i := v]) (i + 1) vs"

definition put :: "bytes \<Rightarrow> nat \<Rightarrow> u16 \<Rightarrow> bytes" where
  "put bs i v = copy_at bs i (le_bytes 2 (unat v))"

definition set_attributes :: "bytes \<Rightarrow> u16 \<Rightarrow> message_error + bytes" where
  "set_attributes bs v = (if length bs < HEADER_BYTES then Inl ShortHeader else Inr (put bs ATTRIBUTE_OFFSET v))"

definition with_sent :: "u16 \<Rightarrow> u16" where
  "with_sent attributes = attributes OR ATTRIBUTE_SENT"

section \<open>Packets\<close>

datatype packet_error =
    ShortPacketHeader
  | NotTypeTwo
  | NotTypePlus
  | MissingAuxiliaryNet
  | MalformedRecord
  | MissingTerminator
  | ShortMessage
  | MissingFieldTerminator

record packed_message =
  pm_origin :: endpoint
  pm_destination :: endpoint
  pm_attributes :: u16
  pm_date_time :: str
  pm_to_user :: str
  pm_from_user :: str
  pm_subject :: str
  pm_controls :: "control list"
  pm_text :: str
  pm_area :: "str option"

record packet_header =
  hd_origin :: endpoint
  hd_destination :: endpoint

record packet = packet_header +
  pk_messages :: "packed_message list"

definition PACKET_HEADER_BYTES :: nat where
  "PACKET_HEADER_BYTES = 58"

definition PACKED_HEADER_BYTES :: nat where
  "PACKED_HEADER_BYTES = 34"

definition valid_area :: "str \<Rightarrow> bool" where
  "valid_area name \<longleftrightarrow>
     1 \<le> length name \<and> length name \<le> 60 \<and> hd name \<noteq> 43 \<and> hd name \<noteq> 45 \<and>
     list_all (\<lambda>b. 33 \<le> b \<and> b \<le> 96 \<or> 123 \<le> b \<and> b \<le> 126) name"

definition AREA_LINE :: str where
  "AREA_LINE = lit ''AREA:''"

definition split_area :: "str \<Rightarrow> str option \<times> str" where
  "split_area body =
     (if take 5 body = AREA_LINE then
        (let (name, tail) = find_split (\<lambda>b. b = 13 \<or> b = 10) (drop 5 body) in
         if valid_area name then (Some name, drop 1 tail) else (None, body))
      else (None, body))"

definition packet_text :: "bytes \<Rightarrow> packet_error + str" where
  "packet_text bs = map_err (\<lambda>_. MissingFieldTerminator) (legacy_text bs)"

definition bounded :: "bytes \<Rightarrow> nat \<Rightarrow> packet_error + str \<times> bytes" where
  "bounded input maximum =
     and_then (ok_or MissingFieldTerminator (position (\<lambda>b. b = 0) (take (min maximum (length input)) input)))
       (\<lambda>end_at.
     and_then (packet_text (take end_at input)) (\<lambda>v. Inr (v, drop (end_at + 1) input)))"

definition unbounded :: "bytes \<Rightarrow> packet_error + str \<times> bytes" where
  "unbounded input =
     and_then (ok_or MissingFieldTerminator (position (\<lambda>b. b = 0) input)) (\<lambda>end_at.
     and_then (packet_text (take end_at input)) (\<lambda>v. Inr (v, drop (end_at + 1) input)))"

definition parse_packed :: "bytes \<Rightarrow> packet_header \<Rightarrow> packet_error + packed_message \<times> bytes" where
  "parse_packed input header =
     (if length input < PACKED_HEADER_BYTES then Inl ShortMessage
      else
        and_then (bounded (drop 14 input) 20) (\<lambda>(date_time, rest).
        and_then (bounded rest 36) (\<lambda>(to_user, rest).
        and_then (bounded rest 36) (\<lambda>(from_user, rest).
        and_then (bounded rest 72) (\<lambda>(subject, rest).
        and_then (unbounded rest) (\<lambda>(body, rest).
        let (area, remainder) = split_area body; (controls, t) = split_controls remainder in
        Inr (\<lparr>pm_origin = \<lparr>ep_zone = ep_zone (hd_origin header), ep_net = u16_at input 6, ep_node = u16_at input 2,
                 ep_point = ep_point (hd_origin header)\<rparr>,
              pm_destination = \<lparr>ep_zone = ep_zone (hd_destination header), ep_net = u16_at input 8,
                 ep_node = u16_at input 4, ep_point = ep_point (hd_destination header)\<rparr>,
              pm_attributes = u16_at input 10, pm_date_time = date_time, pm_to_user = to_user,
              pm_from_user = from_user, pm_subject = subject, pm_controls = controls, pm_text = t,
              pm_area = area\<rparr>, rest)))))))"

text \<open>\<open>swap_bytes\<close> of a 16-bit word.\<close>

definition swap_bytes :: "u16 \<Rightarrow> u16" where
  "swap_bytes v = push_bit 8 v OR drop_bit 8 v"

definition parse_packet_header :: "bytes \<Rightarrow> packet_error + packet_header" where
  "parse_packet_header input =
     (if length input < PACKET_HEADER_BYTES then Inl ShortPacketHeader
      else if u16_at input 18 \<noteq> 2 then Inl NotTypeTwo
      else
        let capability = u16_at input 44; validation = u16_at input 40 in
        if validation \<noteq> swap_bytes capability \<or> capability AND 1 = 0 then Inl NotTypePlus
        else
          let origin_point = u16_at input 50; origin_net_field = u16_at input 20; auxiliary_net = u16_at input 38 in
          and_then
            (if origin_point \<noteq> 0 \<and> origin_net_field = 0xffff then
               if auxiliary_net = 0 then Inl MissingAuxiliaryNet else Inr auxiliary_net
             else Inr origin_net_field) (\<lambda>origin_net.
          Inr \<lparr>hd_origin = \<lparr>ep_zone = u16_at input 46, ep_net = origin_net, ep_node = u16_at input 0,
                 ep_point = origin_point\<rparr>,
               hd_destination = \<lparr>ep_zone = u16_at input 48, ep_net = u16_at input 22, ep_node = u16_at input 2,
                 ep_point = u16_at input 52\<rparr>\<rparr>))"

text \<open>Each field that is read takes at least its NUL, so the loop over the records ends.\<close>

lemma bounded_shorter: "bounded input maximum = Inr (v, rest) \<Longrightarrow> length rest < length input"
  by (auto simp: bounded_def result_simps dest!: position_Some_nth)

lemma unbounded_shorter: "unbounded input = Inr (v, rest) \<Longrightarrow> length rest < length input"
  by (auto simp: unbounded_def result_simps dest!: position_Some_nth)

lemma parse_packed_shorter: "parse_packed input header = Inr (m, rest) \<Longrightarrow> length rest < length input"
  by (auto simp: parse_packed_def result_simps Let_def split_def dest!: bounded_shorter unbounded_shorter split: if_splits)

function packet_records :: "packet_header \<Rightarrow> bytes \<Rightarrow> packet_error + packed_message list" where
  "packet_records header rest =
     (if length rest < 2 then Inl MissingTerminator
      else if u16_at rest 0 = 0 then Inr []
      else if u16_at rest 0 = 2 then
        and_then (parse_packed rest header) (\<lambda>(m, remainder).
        and_then (packet_records header remainder) (\<lambda>ms. Inr (m # ms)))
      else Inl MalformedRecord)"
  by pat_completeness auto
termination
  by (relation "measure (\<lambda>(_, rest). length rest)") (auto dest: parse_packed_shorter)

declare packet_records.simps [simp del]

definition packet_parse :: "bytes \<Rightarrow> packet_error + packet" where
  "packet_parse input =
     and_then (parse_packet_header input) (\<lambda>header.
     and_then (packet_records header (drop PACKET_HEADER_BYTES input)) (\<lambda>messages.
     Inr \<lparr>hd_origin = hd_origin header, hd_destination = hd_destination header, pk_messages = messages\<rparr>))"

end
