(* ===== verification/Legacy_Export.thy ===== *)
theory Legacy_Export
  imports Legacy
begin

text \<open>
  Writing legacy objects: \<open>crates/tith-message-legacy/src/export.rs\<close> beyond its dates.  Message bodies,
  control paragraphs, the TITHSIGN and TITHSIG groups, packed messages and Type-2+ packets.
\<close>

section \<open>Bodies\<close>

text \<open>
  Carriage return, line feed and NUL are one byte of UTF-8 each and no part of another character, so
  the loop over the characters is a loop over the bytes.
\<close>

fun fold_lines :: "str \<Rightarrow> str" where
  "fold_lines [] = []"
| "fold_lines (b # bs) =
     (if b = 13 then 13 # fold_lines (if bs \<noteq> [] \<and> hd bs = 10 then tl bs else bs)
      else if b = 10 then 13 # fold_lines bs
      else b # fold_lines bs)"

definition encode_body :: "str \<Rightarrow> export_error + str" where
  "encode_body t =
     (if 0 \<in> set t then Inl (Unrepresentable ''U+0000 in MessageText'')
      else
        let output = fold_lines t in
        Inr (if output \<noteq> [] \<and> last output \<noteq> 13 then output @ [13] else output))"

definition decode_body :: "str \<Rightarrow> str" where
  "decode_body body =
     (if body = [] then []
      else
        let t = map (\<lambda>b. if b = 13 then 10 else b) (filter (\<lambda>b. b \<noteq> 10) body) in
        if t \<noteq> [] \<and> last t = 10 then t else t @ [10])"

section \<open>Control paragraphs\<close>

definition control_paragraph :: "str \<Rightarrow> export_error + str" where
  "control_paragraph payload =
     (if list_ex (\<lambda>b. b \<in> {0, 13, 10, 1}) payload then Inl (Unrepresentable ''control paragraph payload'')
      else Inr (1 # payload @ [13]))"

definition CHUNK :: nat where
  "CHUNK = 43"

definition is_base64 :: "u8 \<Rightarrow> bool" where
  "is_base64 b \<longleftrightarrow> 48 \<le> b \<and> b \<le> 57 \<or> 65 \<le> b \<and> b \<le> 90 \<or> 97 \<le> b \<and> b \<le> 122 \<or> b = 43 \<or> b = 47"

text \<open>\<open>slice::chunks\<close> for a positive size.\<close>

function chunks :: "nat \<Rightarrow> 'a list \<Rightarrow> 'a list list" where
  "chunks n xs = (if n = 0 \<or> xs = [] then [] else take n xs # chunks n (drop n xs))"
  by pat_completeness auto
termination by (relation "measure (\<lambda>(_, xs). length xs)") auto

declare chunks.simps [simp del]

definition tithsign_controls :: "str \<Rightarrow> export_error + str list" where
  "tithsign_controls encoded =
     (if encoded = [] then Inl (Unrepresentable ''empty TITHSIGN sequence'')
      else if \<not> list_all is_base64 encoded then Inl (Unrepresentable ''TITHSIGN encoding'')
      else
        let pieces = chunks CHUNK encoded; last_index = length pieces - 1 in
        try_map (\<lambda>(index, chunk).
          control_paragraph (lit ''TITHSIGN: 1 '' @ (if index = last_index then 46 else 43) # 32 # chunk))
          (enumerate 0 pieces))"

definition tithsig_controls :: "str \<Rightarrow> export_error + str \<times> str" where
  "tithsig_controls signature =
     (if length signature \<noteq> CHUNK * 2 \<or> \<not> list_all is_base64 signature
      then Inl (Unrepresentable ''TITHSIG Signature encoding'')
      else
        and_then (control_paragraph (lit ''TITHSIG: 1 '' @ take CHUNK signature)) (\<lambda>a.
        and_then (control_paragraph (lit ''TITHSIG: 1 '' @ drop CHUNK signature)) (\<lambda>b.
        Inr (a, b))))"

section \<open>Packed messages\<close>

definition NAME_BYTES :: nat where
  "NAME_BYTES = 36"

definition SUBJECT_BYTES :: nat where
  "SUBJECT_BYTES = 72"

definition DATE_TIME_BYTES :: nat where
  "DATE_TIME_BYTES = 20"

definition PASSWORD_BYTES :: nat where
  "PASSWORD_BYTES = 8"

definition push_bounded :: "bytes \<Rightarrow> string \<Rightarrow> str \<Rightarrow> nat \<Rightarrow> export_error + bytes" where
  "push_bounded output field_name v maximum =
     (if 0 \<in> set v then Inl (Unrepresentable field_name)
      else if maximum < length v + 1 then Inl (TooLong field_name maximum (length v + 1))
      else Inr (output @ v @ [0]))"

definition message_body :: "packed_message \<Rightarrow> export_error + str" where
  "message_body m =
     and_then
       (case pm_area m of
          None \<Rightarrow> Inr []
        | Some area \<Rightarrow>
            if valid_area area then Inr (AREA_LINE @ area @ [13]) else Inl (Unrepresentable ''AREA name'')) (\<lambda>area.
     and_then (try_map (\<lambda>c. control_paragraph (ctl_raw c)) (pm_controls m)) (\<lambda>controls.
     Inr (area @ concat controls @ pm_text m)))"

definition packed_header :: "packed_message \<Rightarrow> bytes" where
  "packed_header m =
     put (put (put (put (put (put (replicate PACKED_HEADER_BYTES 0)
       0 2)
       2 (ep_node (pm_origin m)))
       4 (ep_node (pm_destination m)))
       6 (ep_net (pm_origin m)))
       8 (ep_net (pm_destination m)))
       10 (pm_attributes m)"

definition packed_encode :: "packed_message \<Rightarrow> export_error + bytes" where
  "packed_encode m =
     (if DATE_TIME_BYTES \<le> length (pm_date_time m)
      then Inl (TooLong ''DateTime'' DATE_TIME_BYTES (length (pm_date_time m) + 1))
      else
        and_then (parse_date_time (pm_date_time m)) (\<lambda>_.
        and_then (push_bounded (copy_at (packed_header m) 14 (pm_date_time m)) ''ToUserName'' (pm_to_user m) NAME_BYTES)
          (\<lambda>output.
        and_then (push_bounded output ''FromUserName'' (pm_from_user m) NAME_BYTES) (\<lambda>output.
        and_then (push_bounded output ''Subject'' (pm_subject m) SUBJECT_BYTES) (\<lambda>output.
        and_then (message_body m) (\<lambda>body.
        if 0 \<in> set body then Inl (Unrepresentable ''U+0000 in MessageText'')
        else Inr (output @ body @ [0])))))))"

section \<open>Packets\<close>

record packet_options =
  po_created :: int
  po_product_code :: u16
  po_revision_major :: u8
  po_revision_minor :: u8
  po_password :: str
  po_product_data :: "32 word"

text \<open>\<open>u16::try_from\<close>, with the error of an \<open>expect\<close> or of a \<open>map_err\<close>.\<close>

definition try_u16 :: "export_error \<Rightarrow> int \<Rightarrow> export_error + u16" where
  "try_u16 e v = (if 0 \<le> v \<and> v < 65536 then Inr (of_int v) else Inl e)"

definition month_index :: "int \<Rightarrow> export_error + u16" where
  "month_index month = try_u16 ExportPanicked (month - 1)"

definition narrow :: "int \<Rightarrow> export_error + u16" where
  "narrow v = try_u16 ExportPanicked v"

definition packet_header_bytes ::
    "packet \<Rightarrow> packet_options \<Rightarrow> u16 \<Rightarrow> u16 \<Rightarrow> u16 \<Rightarrow> u16 \<Rightarrow> u16 \<Rightarrow> u16 \<Rightarrow> bytes" where
  "packet_header_bytes p opts year month day hour minute second =
     (let bytes = put (put (put (put (put (put (put (put (put (replicate PACKET_HEADER_BYTES 0)
            0 (ep_node (hd_origin p))) 2 (ep_node (hd_destination p)))
            4 year) 6 month) 8 day) 10 hour) 12 minute) 14 second) 18 2;
          bytes =
            (if ep_point (hd_origin p) = 0 then put (put bytes 20 (ep_net (hd_origin p))) 38 0
             else put (put bytes 20 0xffff) 38 (ep_net (hd_origin p)));
          bytes = put bytes 22 (ep_net (hd_destination p));
          bytes = bytes[24 := ucast (po_product_code opts AND 0xff), 25 := po_revision_major opts];
          bytes = copy_at bytes 26 (po_password opts);
          bytes = put (put (put bytes 34 (ep_zone (hd_origin p))) 36 (ep_zone (hd_destination p))) 40 0x0100;
          bytes = bytes[42 := ucast (drop_bit 8 (po_product_code opts)), 43 := po_revision_minor opts];
          bytes = put (put (put (put (put bytes 44 1) 46 (ep_zone (hd_origin p))) 48 (ep_zone (hd_destination p)))
            50 (ep_point (hd_origin p))) 52 (ep_point (hd_destination p)) in
      copy_at bytes 54 (le_bytes 4 (unat (po_product_data opts))))"

definition packet_header_encode :: "packet \<Rightarrow> packet_options \<Rightarrow> export_error + bytes" where
  "packet_header_encode p opts =
     (if PASSWORD_BYTES < length (po_password opts)
      then Inl (TooLong ''packet password'' PASSWORD_BYTES (length (po_password opts)))
      else if 0 \<in> set (po_password opts) then Inl (Unrepresentable ''packet password'')
      else
        and_then (civil_from_local (po_created opts)) (\<lambda>created.
        and_then (try_u16 TimestampOutOfRange (ct_year created)) (\<lambda>year.
        and_then (month_index (ct_month created)) (\<lambda>month.
        and_then (narrow (ct_day created)) (\<lambda>day.
        and_then (narrow (ct_hour created)) (\<lambda>hour.
        and_then (narrow (ct_minute created)) (\<lambda>minute.
        and_then (narrow (ct_second created)) (\<lambda>second.
        Inr (packet_header_bytes p opts year month day hour minute second)))))))))"

definition endpoints_agree :: "packet \<Rightarrow> packed_message \<Rightarrow> bool" where
  "endpoints_agree p m \<longleftrightarrow>
     ep_zone (pm_origin m) = ep_zone (hd_origin p) \<and> ep_point (pm_origin m) = ep_point (hd_origin p) \<and>
     ep_zone (pm_destination m) = ep_zone (hd_destination p) \<and>
     ep_point (pm_destination m) = ep_point (hd_destination p)"

definition packet_encode :: "packet \<Rightarrow> packet_options \<Rightarrow> export_error + bytes" where
  "packet_encode p opts =
     and_then (packet_header_encode p opts) (\<lambda>header.
     and_then
       (try_map (\<lambda>m. if \<not> endpoints_agree p m then Inl EndpointMismatch else packed_encode m) (pk_messages p))
       (\<lambda>records.
     Inr (header @ concat records @ le_bytes 2 0)))"

definition legacy_endpoint :: "u16 \<Rightarrow> u16 \<Rightarrow> u16 \<Rightarrow> u16 \<Rightarrow> endpoint" where
  "legacy_endpoint z n f p = \<lparr>ep_zone = z, ep_net = n, ep_node = f, ep_point = p\<rparr>"

end
