(* ===== verification/Legacy_Roundtrip.thy ===== *)
theory Legacy_Roundtrip
  imports Legacy_Export
begin

text \<open>
  What the legacy formats promise: what is written is what is read, and an update in place changes
  one field.
\<close>

section \<open>Words in buffers\<close>

lemma u16_le: "of_nat (le_value (le_bytes 2 (unat (v :: u16)))) = v"
  using le_value_bytes [of "unat v" 2] u16_less [of v] by simp

lemma copy_at_length [simp]: "length (copy_at bs i vs) = length bs"
  by (induction vs arbitrary: bs i) auto

lemma copy_at_outside: "k < i \<or> i + length vs \<le> k \<Longrightarrow> copy_at bs i vs ! k = bs ! k"
  by (induction vs arbitrary: bs i) auto

lemma copy_at_eq: "i + length vs \<le> length bs \<Longrightarrow> copy_at bs i vs = take i bs @ vs @ drop (i + length vs) bs"
proof (induction vs arbitrary: bs i)
  case (Cons v vs)
  then have "take (i + 1) (bs[i := v]) = take i bs @ [v]" by (simp add: take_Suc_conv_app_nth)
  with Cons show ?case by simp
qed simp

lemma put_length [simp]: "length (put bs i v) = length bs"
  by (simp add: put_def)

lemma u16_at_copy: "j + 2 \<le> i \<or> i + length vs \<le> j \<Longrightarrow> u16_at (copy_at bs i vs) j = u16_at bs j"
  by (auto simp: u16_at_def copy_at_outside)

lemma u16_at_put: "i + 2 \<le> length bs \<Longrightarrow> u16_at (put bs i v) i = v"
proof -
  assume "i + 2 \<le> length bs"
  moreover have "[le_bytes 2 (unat v) ! 0, le_bytes 2 (unat v) ! 1] = le_bytes 2 (unat v)" by (simp add: numeral_2_eq_2)
  ultimately show ?thesis using u16_le [of v] by (simp add: u16_at_def put_def copy_at_eq nth_append)
qed

lemma u16_at_put_other: "j + 2 \<le> i \<or> i + 2 \<le> j \<Longrightarrow> u16_at (put bs i v) j = u16_at bs j"
  by (auto simp: put_def u16_at_copy)

lemma u16_at_update: "k \<noteq> j \<Longrightarrow> k \<noteq> j + 1 \<Longrightarrow> u16_at (bs[k := b]) j = u16_at bs j"
  by (simp add: u16_at_def)

lemma u16_at_append: "j + 2 \<le> length bs \<Longrightarrow> u16_at (bs @ r) j = u16_at bs j"
  by (simp add: u16_at_def nth_append)

lemmas u16_simps = u16_at_put u16_at_put_other u16_at_copy u16_at_update u16_at_append

section \<open>Packet headers\<close>

lemma packet_header_bytes_length [simp]: "length (packet_header_bytes p opts y mo d h mi s) = 58"
  by (simp add: packet_header_bytes_def PACKET_HEADER_BYTES_def Let_def)

lemma parse_header_bytes:
  assumes "length (po_password opts) \<le> 8"
  shows "parse_packet_header (packet_header_bytes p opts y mo d h mi s @ rest) =
    (if ep_point (hd_origin p) \<noteq> 0 \<and> ep_net (hd_origin p) = 0 then Inl MissingAuxiliaryNet
     else Inr \<lparr>hd_origin = hd_origin p, hd_destination = hd_destination p\<rparr>)"
proof -
  let ?b = "packet_header_bytes p opts y mo d h mi s"
  have fixed: "u16_at ?b 18 = 2" "u16_at ?b 44 = 1" "u16_at ?b 40 = 256"
    "u16_at ?b 0 = ep_node (hd_origin p)" "u16_at ?b 2 = ep_node (hd_destination p)"
    "u16_at ?b 22 = ep_net (hd_destination p)"
    "u16_at ?b 46 = ep_zone (hd_origin p)" "u16_at ?b 48 = ep_zone (hd_destination p)"
    "u16_at ?b 50 = ep_point (hd_origin p)" "u16_at ?b 52 = ep_point (hd_destination p)"
    using assms by (simp_all add: packet_header_bytes_def PACKET_HEADER_BYTES_def Let_def u16_simps)
  have net: "u16_at ?b 20 = (if ep_point (hd_origin p) = 0 then ep_net (hd_origin p) else 0xffff)"
    "u16_at ?b 38 = (if ep_point (hd_origin p) = 0 then 0 else ep_net (hd_origin p))"
    using assms by (simp_all add: packet_header_bytes_def PACKET_HEADER_BYTES_def Let_def u16_simps)
  have "swap_bytes 1 = 256" by (simp add: swap_bytes_def)
  then show ?thesis
    using fixed net by (auto simp: parse_packet_header_def PACKET_HEADER_BYTES_def Let_def u16_at_append)
qed

section \<open>Fields\<close>

lemma bounded_written:
  assumes "0 \<notin> set v" and "valid_utf8 v" and "length v < maximum"
  shows "bounded (v @ 0 # rest) maximum = Inr (v, rest)"
proof -
  have "\<exists>n. take (min maximum (length (v @ 0 # rest))) (v @ 0 # rest) = v @ 0 # take n rest"
    using assms(3) by (intro exI [of _ "min maximum (length (v @ 0 # rest)) - length v - 1"]) (auto simp: take_Cons' min_def)
  then obtain n where "take (min maximum (length (v @ 0 # rest))) (v @ 0 # rest) = v @ 0 # take n rest" ..
  moreover have "position (\<lambda>b. b = 0) (v @ 0 # take n rest) = Some (length v)"
    using assms(1) by (intro position_found) auto
  ultimately show ?thesis using assms(2) by (simp add: bounded_def packet_text_def legacy_text_def from_utf8_def)
qed

lemma unbounded_written:
  assumes "0 \<notin> set v" and "valid_utf8 v"
  shows "unbounded (v @ 0 # rest) = Inr (v, rest)"
proof -
  have "position (\<lambda>b. b = 0) (v @ 0 # rest) = Some (length v)" using assms(1) by (intro position_found) auto
  with assms(2) show ?thesis by (simp add: unbounded_def packet_text_def legacy_text_def from_utf8_def)
qed

lemma split_controls_written:
  assumes "try_map (\<lambda>c. control_paragraph (ctl_raw c)) cs = Inr ps" and "t = [] \<or> hd t \<noteq> 1"
  shows "split_controls (concat ps @ t) = (map (\<lambda>c. control_of (ctl_raw c)) cs, t)"
  using assms(1)
proof (induction cs arbitrary: ps)
  case Nil
  with assms(2) show ?case by (subst split_controls.simps) auto
next
  case (Cons c cs)
  then obtain qs where ps: "ps = (1 # ctl_raw c @ [13]) # qs" "try_map (\<lambda>c. control_paragraph (ctl_raw c)) cs = Inr qs"
    and raw: "13 \<notin> set (ctl_raw c)"
    by (auto simp: and_then_eq_Inr control_paragraph_def list_ex_iff split: if_splits)
  have "find_split (\<lambda>b. b = 13) (ctl_raw c @ 13 # concat qs @ t) = (ctl_raw c, 13 # concat qs @ t)"
    using raw by (intro find_split_found) auto
  with Cons.IH [OF ps(2)] ps(1) show ?case by (simp add: split_controls.simps [of "1 # _"])
qed

section \<open>Packed messages\<close>

text \<open>
  \<open>texts_ok\<close>: the strings are strings.  \<open>readable\<close>: the parts of a message are those a reader would
  find in its body --- each control is that of its own text, the text does not go on with another
  control paragraph, and a message without area or controls does not open with an AREA line.
\<close>

definition texts_ok :: "packed_message \<Rightarrow> bool" where
  "texts_ok m \<longleftrightarrow>
     valid_utf8 (pm_date_time m) \<and> valid_utf8 (pm_to_user m) \<and> valid_utf8 (pm_from_user m) \<and>
     valid_utf8 (pm_subject m) \<and> valid_utf8 (pm_text m) \<and> list_all (\<lambda>c. valid_utf8 (ctl_raw c)) (pm_controls m)"

definition readable :: "packed_message \<Rightarrow> bool" where
  "readable m \<longleftrightarrow>
     list_all (\<lambda>c. c = control_of (ctl_raw c)) (pm_controls m) \<and> (pm_text m = [] \<or> hd (pm_text m) \<noteq> 1) \<and>
     (pm_area m = None \<and> pm_controls m = [] \<longrightarrow> fst (split_area (pm_text m)) = None)"

lemma control_paragraph_Inr:
  "control_paragraph r = Inr q \<longleftrightarrow> q = 1 # r @ [13] \<and> 0 \<notin> set r \<and> 13 \<notin> set r \<and> 10 \<notin> set r \<and> 1 \<notin> set r"
  by (auto simp: control_paragraph_def list_ex_iff)

lemma area_bytes: "valid_area a \<Longrightarrow> b \<in> set a \<Longrightarrow> 33 \<le> unat b \<and> unat b \<le> 126"
  by (fastforce simp: valid_area_def list_all_iff word_le_nat_alt)

lemma area_plain: "valid_area a \<Longrightarrow> 13 \<notin> set a \<and> 10 \<notin> set a \<and> 0 \<notin> set a \<and> ascii a"
  using area_bytes [of a] by (force simp: ascii_def list_all_iff)

lemma split_area_written: "valid_area a \<Longrightarrow> split_area (AREA_LINE @ a @ 13 # t) = (Some a, t)"
proof -
  assume a: "valid_area a"
  have "take 5 (AREA_LINE @ a @ 13 # t) = AREA_LINE" "drop 5 (AREA_LINE @ a @ 13 # t) = a @ 13 # t" by (simp_all add: AREA_LINE_def)
  moreover have "find_split (\<lambda>b. b = 13 \<or> b = 10) (a @ 13 # t) = (a, 13 # t)"
    using area_plain [OF a] by (intro find_split_found) auto
  ultimately show ?thesis using a by (simp add: split_area_def)
qed

lemma split_area_None: "fst (split_area t) = None \<Longrightarrow> split_area t = (None, t)"
  by (auto simp: split_area_def Let_def split: prod.splits if_splits)

lemma split_area_control: "split_area (1 # t) = (None, 1 # t)"
  by (simp add: split_area_def AREA_LINE_def)

lemma message_body_Inr:
  assumes "message_body m = Inr body"
  obtains ps where "try_map (\<lambda>c. control_paragraph (ctl_raw c)) (pm_controls m) = Inr ps"
    and "body = (case pm_area m of None \<Rightarrow> [] | Some a \<Rightarrow> AREA_LINE @ a @ [13]) @ concat ps @ pm_text m"
    and "pred_option valid_area (pm_area m)"
  using assms by (auto simp: message_body_def and_then_eq_Inr split: option.splits if_splits)

lemma message_body_read:
  assumes "message_body m = Inr body" and "readable m"
  shows "\<exists>rest. split_area body = (pm_area m, rest) \<and> split_controls rest = (pm_controls m, pm_text m)"
proof -
  from assms(1) obtain ps where ps: "try_map (\<lambda>c. control_paragraph (ctl_raw c)) (pm_controls m) = Inr ps"
    and body: "body = (case pm_area m of None \<Rightarrow> [] | Some a \<Rightarrow> AREA_LINE @ a @ [13]) @ concat ps @ pm_text m"
    and area: "pred_option valid_area (pm_area m)" by (rule message_body_Inr)
  have "map (\<lambda>c. control_of (ctl_raw c)) (pm_controls m) = pm_controls m"
    using assms(2) unfolding readable_def list_all_iff by (intro map_idI) simp
  then have controls: "split_controls (concat ps @ pm_text m) = (pm_controls m, pm_text m)"
    using split_controls_written [OF ps, of "pm_text m"] assms(2) by (simp add: readable_def)
  have "split_area body = (pm_area m, concat ps @ pm_text m)"
  proof (cases "pm_area m")
    case None
    show ?thesis
    proof (cases "pm_controls m")
      case Nil
      with ps None body assms(2) show ?thesis by (simp add: readable_def split_area_None)
    next
      case (Cons c cs)
      with ps obtain q qs where "ps = (1 # q) # qs" by (auto simp: and_then_eq_Inr control_paragraph_Inr)
      with None body split_area_control show ?thesis by simp
    qed
  next
    case (Some a)
    with body area split_area_written show ?thesis by simp
  qed
  with controls show ?thesis by blast
qed

lemma valid_utf8_ascii_Cons: "b < 128 \<Longrightarrow> valid_utf8 (b # v) \<longleftrightarrow> valid_utf8 v"
  using valid_utf8_append [of "[b]" v] by (simp add: valid_utf8_ascii ascii_def word_less_nat_alt)

lemma message_body_utf8:
  assumes "message_body m = Inr body" and "texts_ok m"
  shows "valid_utf8 body"
proof -
  from assms(1) obtain ps where ps: "try_map (\<lambda>c. control_paragraph (ctl_raw c)) (pm_controls m) = Inr ps"
    and body: "body = (case pm_area m of None \<Rightarrow> [] | Some a \<Rightarrow> AREA_LINE @ a @ [13]) @ concat ps @ pm_text m"
    and area: "pred_option valid_area (pm_area m)" by (rule message_body_Inr)
  have "list_all valid_utf8 ps"
    using assms(2) by (intro try_map_list_all [OF ps])
      (auto simp: control_paragraph_Inr texts_ok_def list_all_iff valid_utf8_ascii_Cons valid_utf8_append)
  then have "valid_utf8 (concat ps @ pm_text m)"
    using assms(2) by (induction ps) (auto simp: texts_ok_def valid_utf8_append)
  moreover have "valid_utf8 (AREA_LINE @ a @ [13])" if "valid_area a" for a
    using area_plain [OF that] by (intro valid_utf8_ascii) (simp add: ascii_def AREA_LINE_def)
  ultimately show ?thesis
    using body area valid_utf8_append [of "AREA_LINE @ the (pm_area m) @ [13]" "concat ps @ pm_text m"]
    by (cases "pm_area m") auto
qed

lemma parse_date_time_length: "parse_date_time v = Inr t \<Longrightarrow> length v = 19"
  by (auto simp: parse_date_time_def split: if_splits)

lemma packed_header_length [simp]: "length (packed_header m) = 34"
  by (simp add: packed_header_def PACKED_HEADER_BYTES_def)

lemma packed_header_words:
  "u16_at (packed_header m) 0 = 2" "u16_at (packed_header m) 2 = ep_node (pm_origin m)"
  "u16_at (packed_header m) 4 = ep_node (pm_destination m)" "u16_at (packed_header m) 6 = ep_net (pm_origin m)"
  "u16_at (packed_header m) 8 = ep_net (pm_destination m)" "u16_at (packed_header m) 10 = pm_attributes m"
  by (simp_all add: packed_header_def PACKED_HEADER_BYTES_def u16_simps)

lemma packed_header_end: "drop 33 (packed_header m) = [0]"
proof -
  have "packed_header m ! 33 = 0" by (simp add: packed_header_def PACKED_HEADER_BYTES_def put_def copy_at_outside)
  then show ?thesis by (simp add: Cons_nth_drop_Suc [symmetric])
qed

lemma push_bounded_Inr:
  "push_bounded output name v n = Inr r \<longleftrightarrow> r = output @ v @ [0] \<and> 0 \<notin> set v \<and> length v < n"
  by (auto simp: push_bounded_def)

lemma packed_encode_Inr:
  assumes "packed_encode m = Inr bs"
  obtains t body where "message_body m = Inr body" and "0 \<notin> set body"
    and "parse_date_time (pm_date_time m) = Inr t" and "length (pm_date_time m) = 19"
    and "0 \<notin> set (pm_to_user m)" "length (pm_to_user m) < 36" "0 \<notin> set (pm_from_user m)" "length (pm_from_user m) < 36"
      "0 \<notin> set (pm_subject m)" "length (pm_subject m) < 72"
    and "bs = take 14 (packed_header m) @ pm_date_time m @ [0] @ pm_to_user m @ [0] @ pm_from_user m @ [0] @
      pm_subject m @ [0] @ body @ [0]"
proof -
  from assms obtain t body where "parse_date_time (pm_date_time m) = Inr t" "message_body m = Inr body" "0 \<notin> set body"
    "bs = copy_at (packed_header m) 14 (pm_date_time m) @ pm_to_user m @ [0] @ pm_from_user m @ [0] @
      pm_subject m @ [0] @ body @ [0]"
    "0 \<notin> set (pm_to_user m)" "length (pm_to_user m) < 36" "0 \<notin> set (pm_from_user m)" "length (pm_from_user m) < 36"
    "0 \<notin> set (pm_subject m)" "length (pm_subject m) < 72"
    by (auto simp: packed_encode_def and_then_eq_Inr push_bounded_Inr NAME_BYTES_def SUBJECT_BYTES_def split: if_splits)
  with parse_date_time_length [of "pm_date_time m" t] packed_header_end [of m] show thesis
    by (intro that [of body t]) (simp_all add: copy_at_eq)
qed

lemma date_time_no_nul:
  assumes "parse_date_time v = Inr t" shows "0 \<notin> set v"
proof -
  have "0 \<notin> set (show_nat n)" for n using show_nat_digits [of 0 n] by (auto simp: is_digit_def)
  then have "0 \<notin> set (pad2 x)" for x by (simp add: pad2_def)
  moreover have "0 \<notin> set (MONTHS ! i)" if "i < 12" for i
  proof -
    have "\<forall>x \<in> set MONTHS. 0 \<notin> set x" by (simp add: MONTHS_def)
    with that MONTHS_length show ?thesis by (metis nth_mem)
  qed
  ultimately show ?thesis
    using format_of_parse [OF assms] by (auto simp: format_date_time_def and_then_eq_Inr split: if_splits)
qed

text \<open>The header a packed message is read under: that of its packet.\<close>

lemma parse_packed_written:
  assumes "packed_encode m = Inr bs" and "texts_ok m" and "readable m" and "endpoints_agree p m"
  shows "parse_packed (bs @ rest) \<lparr>hd_origin = hd_origin p, hd_destination = hd_destination p\<rparr> = Inr (m, rest)"
    and "u16_at (bs @ rest) 0 = 2" and "34 \<le> length bs"
proof -
  from assms(1) obtain t body where body: "message_body m = Inr body" "0 \<notin> set body"
    and date: "parse_date_time (pm_date_time m) = Inr t" "length (pm_date_time m) = 19"
    and fields: "0 \<notin> set (pm_to_user m)" "length (pm_to_user m) < 36" "0 \<notin> set (pm_from_user m)"
      "length (pm_from_user m) < 36" "0 \<notin> set (pm_subject m)" "length (pm_subject m) < 72"
    and bs: "bs = take 14 (packed_header m) @ pm_date_time m @ [0] @ pm_to_user m @ [0] @ pm_from_user m @ [0] @
      pm_subject m @ [0] @ body @ [0]" by (rule packed_encode_Inr)
  have words: "u16_at (bs @ rest) i = u16_at (packed_header m) i" if "i + 2 \<le> 14" for i
    using that by (simp add: bs u16_at_def nth_append)
  show "u16_at (bs @ rest) 0 = 2" "34 \<le> length bs" using words [of 0] date(2) by (simp_all add: packed_header_words bs)
  have dates: "bounded (drop 14 (bs @ rest)) 20 =
      Inr (pm_date_time m, pm_to_user m @ [0] @ pm_from_user m @ [0] @ pm_subject m @ [0] @ body @ [0] @ rest)"
    using bounded_written [of "pm_date_time m" 20] date_time_no_nul [OF date(1)] date(2) assms(2)
    by (simp add: bs texts_ok_def)
  from message_body_read [OF body(1) assms(3)] obtain remainder where
    "split_area body = (pm_area m, remainder)" "split_controls remainder = (pm_controls m, pm_text m)" by blast
  with dates fields body(2) message_body_utf8 [OF body(1) assms(2)] assms(2,4) words
  show "parse_packed (bs @ rest) \<lparr>hd_origin = hd_origin p, hd_destination = hd_destination p\<rparr> = Inr (m, rest)"
    using \<open>34 \<le> length bs\<close>
    by (cases m, cases "pm_origin m", cases "pm_destination m")
      (simp add: parse_packed_def PACKED_HEADER_BYTES_def texts_ok_def endpoints_agree_def bounded_written unbounded_written
        packed_header_words)
qed

lemma packet_records_written:
  assumes "try_map (\<lambda>m. if \<not> endpoints_agree p m then Inl EndpointMismatch else packed_encode m) ms = Inr records"
    and "list_all texts_ok ms" and "list_all readable ms"
  shows "packet_records \<lparr>hd_origin = hd_origin p, hd_destination = hd_destination p\<rparr> (concat records @ [0, 0]) = Inr ms"
  using assms
proof (induction ms arbitrary: records)
  case Nil
  then show ?case by (subst packet_records.simps) (simp add: u16_at_def)
next
  case (Cons m ms)
  then obtain bs rs where m: "endpoints_agree p m" "packed_encode m = Inr bs" and records: "records = bs # rs"
    and rs: "try_map (\<lambda>m. if \<not> endpoints_agree p m then Inl EndpointMismatch else packed_encode m) ms = Inr rs"
    by (auto simp: and_then_eq_Inr split: if_splits)
  note read = parse_packed_written [OF m(2) _ _ m(1)]
  from Cons.prems(2,3) read Cons.IH [OF rs] show ?case
    by (subst packet_records.simps) (simp add: records)
qed

lemma packet_written:
  assumes "packet_encode p opts = Inr bs" and "list_all texts_ok (pk_messages p)" and "list_all readable (pk_messages p)"
  shows "packet_parse bs =
    (if ep_point (hd_origin p) \<noteq> 0 \<and> ep_net (hd_origin p) = 0 then Inl MissingAuxiliaryNet else Inr p)"
proof -
  from assms(1) obtain records y mo d h mi s where
    "try_map (\<lambda>m. if \<not> endpoints_agree p m then Inl EndpointMismatch else packed_encode m) (pk_messages p) = Inr records"
    "bs = packet_header_bytes p opts y mo d h mi s @ concat records @ [0, 0]" "length (po_password opts) \<le> 8"
    by (auto simp: packet_encode_def packet_header_encode_def and_then_eq_Inr PASSWORD_BYTES_def numeral_2_eq_2 split: if_splits)
  with packet_records_written [of p "pk_messages p" records] parse_header_bytes [of opts p] assms(2,3)
  show ?thesis by (simp add: packet_parse_def PACKET_HEADER_BYTES_def)
qed

section \<open>What a reader finds\<close>

lemma find_split_utf8:
  assumes "find_split p s = (a, r)" and "valid_utf8 s" and "\<And>b. p b \<Longrightarrow> b < 128"
  shows "valid_utf8 a" and "valid_utf8 (drop 1 r)"
proof -
  have "valid_utf8 a \<and> valid_utf8 (drop 1 r)"
  proof (cases r)
    case Nil
    with find_split_append [OF assms(1)] assms(2) show ?thesis by simp
  next
    case (Cons c r')
    have c: "c < 128" using find_split_at [of p s a c r'] assms(1,3) Cons by simp
    with find_split_append [OF assms(1)] Cons assms(2) valid_utf8_split [of a c r'] show ?thesis
      by (auto simp: word_less_nat_alt)
  qed
  then show "valid_utf8 a" "valid_utf8 (drop 1 r)" by simp_all
qed

lemma raw_control_of [simp]: "ctl_raw (control_of payload) = payload"
  by (simp add: control_of_def split_def Let_def)

lemma split_controls_found:
  assumes "split_controls t = (cs, r)" and "valid_utf8 t"
  shows "list_all (\<lambda>c. c = control_of (ctl_raw c) \<and> valid_utf8 (ctl_raw c)) cs \<and> (r = [] \<or> hd r \<noteq> 1) \<and> valid_utf8 r \<and>
    (cs = [] \<longrightarrow> r = t)"
  using assms
proof (induction t arbitrary: cs r rule: split_controls.induct)
  case (1 t)
  show ?case
  proof (cases "t \<noteq> [] \<and> hd t = 1")
    case True
    obtain payload tail where s: "find_split (\<lambda>b. b = 13) (tl t) = (payload, tail)" by fastforce
    obtain cs' where cs: "split_controls (drop 1 tail) = (cs', r)" "cs = control_of payload # cs'"
      using "1.prems"(1) True s by (subst (asm) split_controls.simps) (auto split: prod.splits)
    have "valid_utf8 (tl t)" using "1.prems"(2) True valid_utf8_ascii_Cons [of 1 "tl t"] by (cases t) auto
    from find_split_utf8 [OF s this] have u: "valid_utf8 payload" "valid_utf8 (drop 1 tail)" by auto
    from "1.IH" [OF True s [symmetric] refl cs(1) u(2)] u(1) cs(2) show ?thesis by simp
  next
    case False
    with "1.prems" show ?thesis by (subst (asm) split_controls.simps) auto
  qed
qed

lemma split_area_found:
  assumes "split_area body = (area, rest)" and "valid_utf8 body"
  shows "valid_utf8 rest \<and> (area = None \<longrightarrow> rest = body)"
proof (cases area)
  case None
  with assms show ?thesis by (auto simp: split_area_def Let_def split: prod.splits if_splits)
next
  case (Some name)
  then obtain tail where prefix: "take 5 body = AREA_LINE" and s: "find_split (\<lambda>b. b = 13 \<or> b = 10) (drop 5 body) = (name, tail)"
    and rest: "rest = drop 1 tail"
    using assms(1) by (auto simp: split_area_def Let_def split: prod.splits if_splits)
  have "valid_utf8 AREA_LINE" by (intro valid_utf8_ascii) (simp add: ascii_def AREA_LINE_def)
  with prefix assms(2) have "valid_utf8 (drop 5 body)" using valid_utf8_append [of AREA_LINE "drop 5 body"] append_take_drop_id [of 5 body] by simp
  then have "valid_utf8 (drop 1 tail)" by (rule find_split_utf8(2) [OF s]) auto
  with rest Some show ?thesis by simp
qed

lemma bounded_utf8: "bounded input n = Inr (v, rest) \<Longrightarrow> valid_utf8 v"
  by (auto simp: bounded_def packet_text_def legacy_text_def result_simps)

lemma unbounded_utf8: "unbounded input = Inr (v, rest) \<Longrightarrow> valid_utf8 v"
  by (auto simp: unbounded_def packet_text_def legacy_text_def result_simps)

lemma parse_packed_readable:
  assumes "parse_packed input header = Inr (m, rest)"
  shows "texts_ok m \<and> readable m"
proof -
  from assms obtain date r1 to r2 from_user r3 subject r4 body r5 where
    fields: "bounded (drop 14 input) 20 = Inr (date, r1)" "bounded r1 36 = Inr (to, r2)" "bounded r2 36 = Inr (from_user, r3)"
      "bounded r3 72 = Inr (subject, r4)" "unbounded r4 = Inr (body, r5)"
    and m: "pm_date_time m = date \<and> pm_to_user m = to \<and> pm_from_user m = from_user \<and> pm_subject m = subject"
      "split_area body = (pm_area m, snd (split_area body))"
      "split_controls (snd (split_area body)) = (pm_controls m, pm_text m)"
    by (auto simp: parse_packed_def and_then_eq_Inr Let_def case_prod_beta split: if_splits)
  then obtain remainder where body: "valid_utf8 body" "split_area body = (pm_area m, remainder)"
    "split_controls remainder = (pm_controls m, pm_text m)" using unbounded_utf8 by metis
  have "valid_utf8 (pm_date_time m)" "valid_utf8 (pm_to_user m)" "valid_utf8 (pm_from_user m)" "valid_utf8 (pm_subject m)"
    using fields(1-4) m(1) bounded_utf8 by blast+
  moreover note area = split_area_found [OF body(2,1)]
  moreover note split_controls_found [OF body(3)]
  ultimately show ?thesis using body(2) by (auto simp: texts_ok_def readable_def list_all_iff)
qed

lemma packet_records_readable:
  "packet_records header rest = Inr ms \<Longrightarrow> list_all texts_ok ms \<and> list_all readable ms"
proof (induction header rest arbitrary: ms rule: packet_records.induct)
  case (1 header rest)
  show ?case
  proof (cases "\<not> length rest < 2 \<and> u16_at rest 0 = 2")
    case True
    with "1.prems" obtain m remainder ms' where "parse_packed rest header = Inr (m, remainder)"
      "packet_records header remainder = Inr ms'" "ms = m # ms'"
      by (subst (asm) packet_records.simps) (auto simp: and_then_eq_Inr)
    with "1.IH" True parse_packed_readable show ?thesis by fastforce
  qed (use "1.prems" in \<open>subst (asm) packet_records.simps, auto split: if_splits\<close>)
qed

text \<open>
  C34.  Packets survive the wire.  A packet that \<open>Packet::encode\<close> writes is read by \<open>Packet::parse\<close> as the
  same packet --- its endpoints and every field of every message, the AREA name, the control
  paragraphs and the text --- if the packet is one the reader could have returned; a packet that was
  read is.  The one exception is written out: an origin with a point and net zero, which the reader
  accepts, is written as a packet the reader refuses.
\<close>

theorem packet_roundtrip:
  assumes "packet_encode p opts = Inr bs"
    and "list_all texts_ok (pk_messages p) \<and> list_all readable (pk_messages p) \<or> packet_parse input = Inr p"
  shows "packet_parse bs =
    (if ep_point (hd_origin p) \<noteq> 0 \<and> ep_net (hd_origin p) = 0 then Inl MissingAuxiliaryNet else Inr p)"
  using packet_written [OF assms(1)] assms(2) packet_records_readable by (auto simp: packet_parse_def and_then_eq_Inr)

section \<open>Bodies\<close>

text \<open>Native text: paragraphs each ended by a line feed.  Legacy text: paragraphs each ended by a carriage return.\<close>

definition conforming :: "str \<Rightarrow> bool" where
  "conforming t \<longleftrightarrow> 0 \<notin> set t \<and> 13 \<notin> set t \<and> (t = [] \<or> last t = 10)"

definition canonical_body :: "str \<Rightarrow> bool" where
  "canonical_body b \<longleftrightarrow> 0 \<notin> set b \<and> 10 \<notin> set b \<and> (b = [] \<or> last b = 13)"

lemma fold_lines_no_cr: "13 \<notin> set t \<Longrightarrow> fold_lines t = map (\<lambda>b. if b = 10 then 13 else b) t"
  by (induction t) auto

lemma fold_lines_bytes: "b \<in> set (fold_lines t) \<Longrightarrow> b \<noteq> 10 \<and> (b = 13 \<or> b \<in> set t)"
  by (induction t rule: fold_lines.induct) (auto split: if_splits dest: list.set_sel(2))

lemma encode_body_canonical:
  assumes "encode_body t = Inr b" shows "canonical_body b"
proof -
  have "0 \<notin> set t" using assms by (auto simp: encode_body_def split: if_splits)
  then have "0 \<notin> set (fold_lines t)" "10 \<notin> set (fold_lines t)" using fold_lines_bytes [of 0 t] fold_lines_bytes [of 10 t] by auto
  with assms show ?thesis by (auto simp: encode_body_def Let_def canonical_body_def split: if_splits)
qed

lemma encode_body_conforming: "conforming t \<Longrightarrow> encode_body t = Inr (map (\<lambda>b. if b = 10 then 13 else b) t)"
  by (cases "t = []") (simp_all add: encode_body_def conforming_def fold_lines_no_cr last_map Let_def)

lemma decode_body_canonical:
  assumes "10 \<notin> set b" and "b = [] \<or> last b = 13"
  shows "decode_body b = map (\<lambda>b. if b = 13 then 10 else b) b"
proof -
  have "filter (\<lambda>b. b \<noteq> 10) b = b" using assms(1) by (induction b) auto
  with assms(2) show ?thesis by (cases "b = []") (simp_all add: decode_body_def last_map Let_def)
qed

lemma decode_body_conforming:
  assumes "0 \<notin> set b" shows "conforming (decode_body b)"
proof -
  let ?t = "map (\<lambda>b. if b = 13 then 10 else b) (filter (\<lambda>b. b \<noteq> 10) b)"
  have "0 \<notin> set ?t" "13 \<notin> set ?t" using assms by auto
  then show ?thesis by (auto simp: decode_body_def conforming_def Let_def simp del: set_map)
qed

lemma swap_twice: "13 \<notin> set t \<Longrightarrow> map ((\<lambda>b. if b = 13 then 10 else b) \<circ> (\<lambda>b. if b = 10 then 13 else b)) t = t"
  and swap_back: "10 \<notin> set t \<Longrightarrow> map ((\<lambda>b. if b = 10 then 13 else b) \<circ> (\<lambda>b. if b = 13 then 10 else b)) t = t"
  for t :: str
  by (auto intro!: map_idI)

text \<open>
  Native and legacy text correspond.  Encoding always gives a canonical legacy body or reports a
  NUL; decoding a body without NUL always gives conforming native text; and on conforming text and
  canonical bodies the two are inverse, so a signed text is rebuilt exactly.
\<close>

theorem body_exact:
  assumes "0 \<notin> set t"
  shows "(\<exists>b. encode_body t = Inr b \<and> canonical_body b \<and> (conforming t \<longrightarrow> decode_body b = t)) \<and>
    conforming (decode_body t) \<and> (canonical_body t \<longrightarrow> encode_body (decode_body t) = Inr t)"
proof (intro conjI impI)
  obtain b where b: "encode_body t = Inr b" using assms by (auto simp: encode_body_def Let_def)
  have "decode_body b = t" if "conforming t"
    using encode_body_canonical [OF b] encode_body_conforming [OF that] b that swap_twice [of t]
    by (simp add: decode_body_canonical canonical_body_def conforming_def)
  with b encode_body_canonical show "\<exists>b. encode_body t = Inr b \<and> canonical_body b \<and> (conforming t \<longrightarrow> decode_body b = t)"
    by blast
  show c: "conforming (decode_body t)" using assms by (rule decode_body_conforming)
  assume "canonical_body t"
  then show "encode_body (decode_body t) = Inr t"
    using encode_body_conforming [OF c] swap_back [of t] by (simp add: decode_body_canonical canonical_body_def)
qed

section \<open>Stored messages\<close>

lemma message_field_copy: "offset + width \<le> i \<Longrightarrow> i + length vs \<le> length bs \<Longrightarrow>
    message_field (copy_at bs i vs) offset width = message_field bs offset width"
  by (simp add: message_field_def copy_at_eq take_drop)

lemma stored_parse_put:
  assumes "190 \<le> length bs"
  shows "stored_message_parse (put bs 186 v) = and_then (stored_message_parse bs) (\<lambda>m. Inr (m\<lparr>sm_attributes := v\<rparr>))"
proof -
  have body: "drop 190 (put bs 186 v) = drop 190 bs" using assms by (simp add: put_def copy_at_eq)
  have fields: "message_field (put bs 186 v) 0 36 = message_field bs 0 36"
    "message_field (put bs 186 v) 36 36 = message_field bs 36 36"
    "message_field (put bs 186 v) 72 72 = message_field bs 72 72"
    "message_field (put bs 186 v) 144 20 = message_field bs 144 20"
    unfolding put_def using assms by (intro message_field_copy; simp)+
  have words: "u16_at (put bs 186 v) 176 = u16_at bs 176" "u16_at (put bs 186 v) 174 = u16_at bs 174"
    "u16_at (put bs 186 v) 166 = u16_at bs 166" "u16_at (put bs 186 v) 180 = u16_at bs 180"
    "u16_at (put bs 186 v) 186 = v"
    using assms by (simp_all add: u16_simps)
  show ?thesis
    using assms
    by (auto simp: stored_message_parse_def HEADER_BYTES_def ATTRIBUTE_OFFSET_def body fields words Let_def and_then_assoc
        split_def intro!: arg_cong2 [where f = and_then])
qed

lemma sent_bits:
  "ATTRIBUTE_SENT \<noteq> 0" "(a OR ATTRIBUTE_SENT) AND ATTRIBUTE_KILL_SENT = a AND ATTRIBUTE_KILL_SENT"
  "(a OR ATTRIBUTE_SENT) AND ATTRIBUTE_FILE_ATTACHED = a AND ATTRIBUTE_FILE_ATTACHED"
  by (simp_all add: ATTRIBUTE_SENT_def ATTRIBUTE_KILL_SENT_def ATTRIBUTE_FILE_ATTACHED_def bit.conj_disj_distrib2)

text \<open>
  Marking a message sent changes nothing else.  Overwriting the AttributeWord of a stored message
  with its value and the Sent bit gives a message that is read with that bit and otherwise exactly as
  before: same names, subject, text and controls, so the same idempotency key, and the same answers
  about removal and attachments.
\<close>

theorem marking_sent:
  assumes "stored_message_parse bs = Inr m"
  shows "\<exists>bs'. set_attributes bs (with_sent (sm_attributes m)) = Inr bs' \<and> length bs' = length bs \<and>
    (\<exists>m'. stored_message_parse bs' = Inr m' \<and> m' = m\<lparr>sm_attributes := with_sent (sm_attributes m)\<rparr> \<and> has_sent m' \<and>
      requests_kill m' = requests_kill m \<and> message_attachments m' style = message_attachments m style)"
proof -
  have len: "190 \<le> length bs" using assms by (auto simp: stored_message_parse_def HEADER_BYTES_def split: if_splits)
  then have "set_attributes bs (with_sent (sm_attributes m)) = Inr (put bs 186 (with_sent (sm_attributes m)))"
    by (simp add: set_attributes_def HEADER_BYTES_def ATTRIBUTE_OFFSET_def)
  with stored_parse_put [OF len] assms show ?thesis
    by (simp add: with_sent_def has_sent_def requests_kill_def has_kill_sent_def message_attachments_def
        has_file_attached_def message_flags_def sent_bits)
qed

section \<open>Signature groups\<close>

lemma chunks_split:
  assumes "xs \<noteq> []" and "0 < n"
  shows "\<exists>ps f. chunks n xs = ps @ [f] \<and> concat ps @ f = xs \<and> list_all (\<lambda>p. length p = n) ps \<and> f \<noteq> [] \<and> length f \<le> n"
  using assms
proof (induction n xs rule: chunks.induct)
  case (1 n xs)
  show ?case
  proof (cases "length xs \<le> n")
    case True
    with 1 show ?thesis by (intro exI [of _ "[]"] exI [of _ xs]) (simp add: chunks.simps [of n xs] chunks.simps [of n "[]"])
  next
    case False
    with 1 obtain ps f where "chunks n (drop n xs) = ps @ [f]" "concat ps @ f = drop n xs"
      "list_all (\<lambda>p. length p = n) ps" "f \<noteq> []" "length f \<le> n" by auto
    with False 1 show ?thesis
      by (intro exI [of _ "take n xs # ps"] exI [of _ f]) (simp add: chunks.simps [of n xs])
  qed
qed

definition tithsign_paragraph :: "u8 \<Rightarrow> str \<Rightarrow> str" where
  "tithsign_paragraph marker chunk = 1 # lit ''TITHSIGN: 1 '' @ marker # 32 # chunk @ [13]"

lemma base64_plain: "is_base64 b \<Longrightarrow> b \<notin> {0, 13, 10, 1}"
  by (auto simp: is_base64_def word_le_nat_alt)

lemma tithsign_control:
  "list_all is_base64 chunk \<Longrightarrow> marker \<in> {43, 46} \<Longrightarrow>
   control_paragraph (lit ''TITHSIGN: 1 '' @ marker # 32 # chunk) = Inr (tithsign_paragraph marker chunk)"
  using base64_plain by (auto simp: control_paragraph_def tithsign_paragraph_def list_ex_iff list_all_iff)

text \<open>
  A TITHSIGN group carries its sequence.  A non-empty base64 sequence becomes one control paragraph
  per chunk; the chunks in order are the sequence, every chunk but the last has 43 characters and is
  marked \<open>+\<close>, and the last has 1 to 43 and is marked with a full stop.  Other input is refused.
\<close>

theorem tithsign_exact:
  "if encoded \<noteq> [] \<and> list_all is_base64 encoded
   then \<exists>ps f. tithsign_controls encoded = Inr (map (tithsign_paragraph 43) ps @ [tithsign_paragraph 46 f]) \<and>
     concat ps @ f = encoded \<and> list_all (\<lambda>p. length p = 43) ps \<and> f \<noteq> [] \<and> length f \<le> 43
   else \<exists>what. tithsign_controls encoded = Inl (Unrepresentable what)"
proof (cases "encoded \<noteq> [] \<and> list_all is_base64 encoded")
  case True
  then obtain ps f where pf: "chunks CHUNK encoded = ps @ [f]" "concat ps @ f = encoded" "list_all (\<lambda>p. length p = 43) ps"
    "f \<noteq> []" "length f \<le> 43"
    using chunks_split [of encoded 43] by (auto simp: CHUNK_def)
  have base: "list_all is_base64 c" if "c \<in> set (ps @ [f])" for c
    using True that unfolding pf(2) [symmetric] by (auto simp: list_all_iff)
  let ?g = "\<lambda>(i, c). tithsign_paragraph (if i = length ps then 46 else 43) c"
  have "try_map (\<lambda>(index, chunk).
      control_paragraph (lit ''TITHSIGN: 1 '' @ (if index = length ps then 46 else 43) # 32 # chunk)) (enumerate 0 (ps @ [f])) =
      Inr (map ?g (enumerate 0 (ps @ [f])))"
    by (rule try_map_all_Inr) (use base in \<open>auto simp: in_set_enumerate_eq tithsign_control nth_append simp del: lit_Cons split: if_splits\<close>)
  moreover have "map ?g (enumerate 0 ps) = map (tithsign_paragraph 43) (map snd (enumerate 0 ps))"
    unfolding map_map comp_def by (rule map_cong) (auto simp: in_set_enumerate_eq)
  ultimately have "tithsign_controls encoded = Inr (map (tithsign_paragraph 43) ps @ [tithsign_paragraph 46 f])"
    using True pf(1) by (simp add: tithsign_controls_def enumerate_append_eq)
  with pf True show ?thesis by auto
qed (auto simp: tithsign_controls_def)

section \<open>Witnesses\<close>

text \<open>A NetMail with one control, and the packet that carries it.\<close>

definition sample_mail :: packed_message where
  "sample_mail =
     \<lparr>pm_origin = \<lparr>ep_zone = 1, ep_net = 2, ep_node = 3, ep_point = 0\<rparr>,
      pm_destination = \<lparr>ep_zone = 1, ep_net = 2, ep_node = 4, ep_point = 0\<rparr>,
      pm_attributes = 1, pm_date_time = lit ''01 Jan 70  00:00:00'', pm_to_user = lit ''a'', pm_from_user = lit ''b'',
      pm_subject = lit ''s'', pm_controls = [control_of (lit ''PID: x'')], pm_text = lit ''t'', pm_area = None\<rparr>"

definition sample_packet :: packet where
  "sample_packet =
     \<lparr>hd_origin = \<lparr>ep_zone = 1, ep_net = 2, ep_node = 3, ep_point = 0\<rparr>,
      hd_destination = \<lparr>ep_zone = 1, ep_net = 2, ep_node = 4, ep_point = 0\<rparr>, pk_messages = [sample_mail]\<rparr>"

definition sample_options :: packet_options where
  "sample_options =
     \<lparr>po_created = 0, po_product_code = 258, po_revision_major = 1, po_revision_minor = 0, po_password = [],
      po_product_data = 0\<rparr>"

lemma sample_instant:
  "civil_from_local 0 = Inr \<lparr>ct_year = 1970, ct_month = 1, ct_day = 1, ct_hour = 0, ct_minute = 0, ct_second = 0\<rparr>"
  by code_simp

lemma sample_date: "parse_date_time (lit ''01 Jan 70  00:00:00'') = Inr 0"
proof (rule parse_of_format)
  show "format_date_time 0 = Inr (lit ''01 Jan 70  00:00:00'')"
    by (simp add: format_date_time_def sample_instant MONTHS_def pad2_def show_nat.simps)
qed

lemma sample_utf8: "valid_utf8 (lit ''01 Jan 70  00:00:00'')" "valid_utf8 (lit ''a'')" "valid_utf8 (lit ''b'')"
  "valid_utf8 (lit ''s'')" "valid_utf8 (lit ''t'')" "valid_utf8 (lit ''PID: x'')"
  by (simp_all add: valid_utf8_ascii ascii_def)

lemma sample_mail_ok: "texts_ok sample_mail" "readable sample_mail"
  using sample_utf8 by (simp_all add: texts_ok_def readable_def sample_mail_def)

lemma sample_packet_encodes: "\<exists>bs. packet_encode sample_packet sample_options = Inr bs"
proof -
  have "\<exists>bs. packed_encode sample_mail = Inr bs"
    using sample_date
    by (simp add: packed_encode_def sample_mail_def push_bounded_def NAME_BYTES_def SUBJECT_BYTES_def DATE_TIME_BYTES_def
        message_body_def control_paragraph_def)
  moreover have "endpoints_agree sample_packet sample_mail"
    by (simp add: endpoints_agree_def sample_packet_def sample_mail_def)
  moreover have "pk_messages sample_packet = [sample_mail]" by (simp add: sample_packet_def)
  moreover have "\<exists>h. packet_header_encode sample_packet sample_options = Inr h"
    by (simp add: packet_header_encode_def sample_options_def PASSWORD_BYTES_def sample_instant try_u16_def month_index_def
        narrow_def)
  ultimately show ?thesis by (auto simp: packet_encode_def)
qed

theorem packet_roundtrip_witness:
  "\<exists>bs. packet_encode sample_packet sample_options = Inr bs \<and> packet_parse bs = Inr sample_packet"
proof -
  obtain bs where bs: "packet_encode sample_packet sample_options = Inr bs" using sample_packet_encodes by blast
  have "list_all texts_ok (pk_messages sample_packet) \<and> list_all readable (pk_messages sample_packet)"
    using sample_mail_ok by (simp add: sample_packet_def)
  with packet_roundtrip [OF bs, of "[]"] bs show ?thesis by (auto simp: sample_packet_def)
qed

text \<open>One paragraph, there and back.\<close>

theorem body_exact_witness:
  "\<exists>b. encode_body (lit ''a'' @ [10]) = Inr b \<and> canonical_body b \<and> decode_body b = lit ''a'' @ [10]"
  using body_exact [of "lit ''a'' @ [10]"] by (auto simp: conforming_def)

text \<open>A message of zeros.\<close>

theorem marking_sent_witness:
  "\<exists>m bs' m'. stored_message_parse (replicate 191 0) = Inr m \<and>
     set_attributes (replicate 191 0) (with_sent (sm_attributes m)) = Inr bs' \<and> stored_message_parse bs' = Inr m' \<and>
     has_sent m' \<and> \<not> has_sent m"
proof -
  have "message_field (replicate 191 0) i w = Inr []" for i w
    by (simp add: message_field_def legacy_text_def from_utf8_def)
  then obtain m where m: "stored_message_parse (replicate 191 0) = Inr m" "sm_attributes m = 0"
    by (simp add: stored_message_parse_def HEADER_BYTES_def ATTRIBUTE_OFFSET_def legacy_text_def from_utf8_def u16_at_def
        split_controls.simps [of "[]"])
  from marking_sent [OF m(1), of Binkley] m show ?thesis by (auto simp: has_sent_def)
qed

end
