(* ===== verification/Spec2Isabelle.thy ===== *)
theory Spec2Isabelle
  imports Session Bundle_Safety Message_Roundtrip Config_Safety Router Ledger_Spec Scheduler Legacy_Roundtrip
begin

text \<open>
  Verification of TITH, a store-and-forward exchange of signed messages and files between the
  nodes of FidoNet-style networks (the Rust crates under \<open>src/crates\<close>).

  \<^bold>\<open>The program.\<close>  A producer builds \<^emph>\<open>items\<close> --- messages, files, file requests --- as sequences
  of type-length-value elements, signed by their origin, and puts them into \<^emph>\<open>bundles\<close>: an origin,
  a signed header and signed payloads that each repeat the hash of the header (\<open>tith-wire\<close>).  Two
  nodes exchange bundles in a \<^emph>\<open>session\<close>: the receiver authenticates a payload, refuses or accepts
  each item and answers it, the sender accounts for the answers (\<open>tith-exchange\<close>).  Four text files
  configure a node (\<open>tith-config\<close>); the nodelist says who is where (\<open>tith-nodelist\<close>); routing
  picks the next hop of a NetMail from both (\<open>tith-router\<close>); the scheduler of the daemon decides
  when to call (\<open>tithd\<close>); the ledger keeps what an adapter has done with an inbound object
  (\<open>tith-ledger\<close>); and the legacy crate reads and writes FTN messages and packets
  (\<open>tith-message-legacy\<close>).

  \<^bold>\<open>Conventions.\<close>  A \<open>Result\<close> is a sum with the error on the left, \<open>?\<close> is \<open>and_then\<close>; a panic (a failed
  \<open>expect\<close>, slice, index or checked sum) is an error constructor of its own, so that freedom from
  panics is a statement about results.  Bytes, ports, types and lengths are words of their width;
  \<open>usize\<close> is \<open>nat\<close> with the bounds of a 64-bit target (\<open>vec_limit\<close> is \<open>isize::MAX + 1\<close>); \<open>i32\<close> and
  \<open>i64\<close> values are integers with their ranges written out where the code can leave them.  A string is
  its list of bytes, its characters are code points (\<open>Utf8\<close>).  Mutated state is passed and returned.
  Loops are recursive functions with a termination proof: no definition uses fuel.

  \<^bold>\<open>Theories\<close>, bottom up.

  \<^item> \<open>Prelude\<close>, \<open>Utf8\<close>, \<open>Decimal\<close>: result combinators, slices, little-endian numbers, UTF-8, splitting,
    decimals.  \<open>Prelude\<close> also has the interfaces the components share: \<open>value_codec\<close> (an encoder and a
    decoder that are exact inverses), \<open>prefix_codec\<close> (the same for a decoder that leaves a rest; a
    \<open>sublocale\<close> gives the former), \<open>error_simulation\<close> and \<open>guarded_simulation\<close> (a step function with
    errors that implements an abstract one, lifted to lists of steps).
  \<^item> \<open>Wire_Integer\<close> (\<open>integer.rs\<close>, \<open>signed_integer.rs\<close>), \<open>Wire_Types\<close> (\<open>types.rs\<close>, \<open>bundle_types.rs\<close>,
    \<open>item_types.rs\<close>), \<open>Tlv\<close> (\<open>tlv.rs\<close>, \<open>type_code.rs\<close>): the integers and frames of the wire.  The
    codecs are interpretations of the interfaces above, which gives that a decoder accepts exactly
    the canonical encodings.  The streaming reader runs over a list of read events; it is proved
    independent of chunking and interruptions, and its outcome after any header is determined.
  \<^item> \<open>Address\<close> (\<open>address.rs\<close>): addresses, their order, text, trimmed lists and collections, patterns;
    exact characterisations of what the parsers accept.
  \<^item> \<open>Common\<close> (\<open>error.rs\<close>, \<open>identity.rs\<close>, \<open>common.rs\<close>): identities, signed values and their soundness.
  \<^item> \<open>Item_Format\<close> (\<open>item_format.rs\<close>), \<open>Cursor\<close>, \<open>Item_Build\<close>, \<open>Item_Read\<close>
    (\<open>item_format_impl.rs\<close>), \<open>Carrier\<close> (\<open>item_carrier.rs\<close>): the data, builders, validators and readers of
    items, in the \<open>step\<close> monad of the source's cursor.  \<open>Item_Roundtrip\<close> and \<open>Message_Roundtrip\<close> show
    that what is built is validated and read back; \<open>Item_Safety\<close> that no input makes a validator
    panic, and what an accepted item guarantees: its fields, its identifier, its signature.
  \<^item> \<open>Bundle\<close> (\<open>bundle.rs\<close>), \<open>Receive\<close> (\<open>receive.rs\<close> and \<open>error.rs\<close> of \<open>tith-exchange\<close>): bundles and the
    receive policy.  \<open>Bundle_Safety\<close>: round trip, one entry per request, authentication, and the
    acceptance of a forged origin.
  \<^item> \<open>Response\<close> (\<open>response.rs\<close>), \<open>Session\<close> (\<open>session.rs\<close>): the tracker of answers refines an abstract
    account (an interpretation of \<open>error_simulation\<close>); the session is a state machine over calls, with
    its invariant over all reachable states, the order of completed runs, and completion.
  \<^item> \<open>Config\<close> and \<open>Config_Safety\<close> (\<open>tith-config/src/lib.rs\<close>): all directives of the four files.  The
    interface \<open>block_directive\<close> carries the invariant of a block over its lines, for the four kinds of
    block.  The cycle check is exact, accepted sets are well-formed, and a set is accepted exactly
    when its references resolve.
  \<^item> \<open>Nodelist\<close> (\<open>document.rs\<close> and the typed flags of \<open>flags.rs\<close> in \<open>tith-nodelist\<close>): the validator with
    all the state it keeps, also after an error; the streaming reader and writer over it; the table.
    The reader never panics and yields a hierarchy closed under its branches; the writer's panic is
    characterised.  \<open>Router\<close> (\<open>tith-router/src/lib.rs\<close>): candidates, selectors, commitments, failure
    policies; when a message is committed, to whom, and whose key the next hop carries.
  \<^item> \<open>Calendar\<close> (dates of \<open>export.rs\<close>), \<open>Scheduler\<close> (\<open>tithd/src/schedule.rs\<close>): the civil day arithmetic
    agrees with the calendar counted day by day; beginnings, activations and wakeups over arbitrary
    poll histories.
  \<^item> \<open>Ledger\<close>, \<open>Ledger_Spec\<close> (\<open>tith-ledger/src/lib.rs\<close>): record formats through the interface
    \<open>take_codec\<close>, and all operations on the encoded tables, which refine three maps for every sequence
    of calls and faults.
  \<^item> \<open>Legacy\<close> (\<open>lib.rs\<close>, \<open>packet.rs\<close>, \<open>attach.rs\<close>), \<open>Legacy_Export\<close> (\<open>export.rs\<close>), \<open>Legacy_Roundtrip\<close>: stored
    messages, packets, attachments and bodies of \<open>tith-message-legacy\<close>; packets, bodies and TITHSIGN
    groups survive writing and reading.

  \<^bold>\<open>Parameters.\<close>  Code that is not in the repository is an argument: signing, verification and hashing
  (the record \<open>crypto\<close>; libhydrogen) with the law \<open>crypto_ok\<close>, the base64 decoder of the configuration,
  the resolver of public keys (a trait of the program, implemented by its callers), the failures of
  the database redb and of readers and writers.  \<open>crypto_ok\<close> asks that signatures of \<^emph>\<open>any\<close> secret
  verify under its public half and treats signing as a function; libhydrogen randomises signing,
  and a secret whose halves do not belong together breaks the law, so the theorems that assume it are
  about genuine key pairs.  One part of the repository is an argument too: the text grammar of the
  nodelist's flag fields, about which nothing is assumed.

  \<^bold>\<open>Limits.\<close>  Memory is not bounded: \<open>Vec::with_capacity\<close> panics from \<open>2^63\<close> bytes on, and an allocation
  failure below, which aborts the process, is not modelled.  A checked build is assumed where a sum
  overflows (the counter of the ledger; an unchecked build would wrap).  Not modelled are the crates
  that are input and output over these: storage (\<open>tith-store\<close>), interprocess and network protocols
  (\<open>tith-ipc\<close>, \<open>tithd\<close>), submission and adapter commands, outbound directories (\<open>tith-bso\<close>), the
  conversion of legacy nodelists, publication names and archives, and the bindings of \<open>tith-crypto\<close>.
\<close>

end
